(* ===== verification/PyFloat.thy ===== *)
theory PyFloat
  imports Prelude "HOL-Library.Log_Nat"
begin

text \<open>
  Python's \<open>float\<close>: IEEE 754 binary64, as CPython computes with it. A
  finite value is the rational it denotes; \<open>fl\<close> rounds a rational to the
  nearest double, ties to even, with gradual underflow, and an operation
  rounds the exact result once. Infinities and NaN are values of their own;
  the sign of a zero is not kept (no code of the repository observes it).

  The locale \<open>rounding\<close> states what the jitter filters rely on of the
  arithmetic; it is interpreted on \<open>fl\<close> below.
\<close>

section \<open>Rounding to the nearest double\<close>

definition binexp :: "rat \<Rightarrow> int" where
  "binexp x =
     (let pq = quotient_of \<bar>x\<bar>; k = bitlen (fst pq) - bitlen (snd pq)
      in if 2 powi k \<le> \<bar>x\<bar> then k else k - 1)"

definition ulp_exp :: "rat \<Rightarrow> int" where
  "ulp_exp x = max (binexp x - 52) (- 1074)"

text \<open>Rounding to an integer, ties to even (also Python's \<open>round(x)\<close>).\<close>

definition round_even :: "rat \<Rightarrow> int" where
  "round_even x =
     (let f = \<lfloor>x\<rfloor>; d = x - of_int f
      in if d < 1 / 2 then f else if 1 / 2 < d then f + 1
         else if even f then f else f + 1)"

definition fl :: "rat \<Rightarrow> rat" where
  "fl x =
     (if x = 0 then 0
      else of_int (round_even (x / 2 powi ulp_exp x)) * 2 powi ulp_exp x)"

definition is_double :: "rat \<Rightarrow> bool" where
  "is_double x \<longleftrightarrow> (\<exists>m e. x = of_int m * 2 powi e \<and> \<bar>m\<bar> \<le> 2 ^ 53 \<and> - 1074 \<le> e)"

section \<open>Floats and their operations\<close>

datatype pyfloat = Fin rat | PInf | NInf | NaN

text \<open>The exact result of an operation on finite values, rounded; beyond the
  largest double it overflows to an infinity.\<close>

definition mk_float :: "rat \<Rightarrow> pyfloat" where
  "mk_float x =
     (let r = fl x
      in if 2 ^ 1024 \<le> r then PInf else if r \<le> - (2 ^ 1024) then NInf else Fin r)"

fun float_neg :: "pyfloat \<Rightarrow> pyfloat" where
  "float_neg (Fin x) = Fin (- x)"
| "float_neg PInf = NInf"
| "float_neg NInf = PInf"
| "float_neg NaN = NaN"

fun float_abs :: "pyfloat \<Rightarrow> pyfloat" where
  "float_abs (Fin x) = Fin \<bar>x\<bar>"
| "float_abs PInf = PInf"
| "float_abs NInf = PInf"
| "float_abs NaN = NaN"

fun float_add :: "pyfloat \<Rightarrow> pyfloat \<Rightarrow> pyfloat" where
  "float_add (Fin x) (Fin y) = mk_float (x + y)"
| "float_add NaN _ = NaN"
| "float_add _ NaN = NaN"
| "float_add PInf NInf = NaN"
| "float_add NInf PInf = NaN"
| "float_add PInf _ = PInf"
| "float_add NInf _ = NInf"
| "float_add _ PInf = PInf"
| "float_add _ NInf = NInf"

definition float_sub :: "pyfloat \<Rightarrow> pyfloat \<Rightarrow> pyfloat" where
  "float_sub x y = float_add x (float_neg y)"

text \<open>Sign of a value as a rational, for products and quotients with an infinity.\<close>

fun float_sign :: "pyfloat \<Rightarrow> rat" where
  "float_sign (Fin x) = sgn x"
| "float_sign PInf = 1"
| "float_sign NInf = - 1"
| "float_sign NaN = 0"

definition signed_inf :: "rat \<Rightarrow> pyfloat" where
  "signed_inf s = (if s = 0 then NaN else if 0 < s then PInf else NInf)"

fun float_mul :: "pyfloat \<Rightarrow> pyfloat \<Rightarrow> pyfloat" where
  "float_mul (Fin x) (Fin y) = mk_float (x * y)"
| "float_mul NaN _ = NaN"
| "float_mul _ NaN = NaN"
| "float_mul x y = signed_inf (float_sign x * float_sign y)"

text \<open>Division of Python floats: a zero divisor raises.\<close>

fun float_div :: "pyfloat \<Rightarrow> pyfloat \<Rightarrow> pyfloat result" where
  "float_div x (Fin y) =
     (if y = 0 then Raise ZeroDivisionError
      else case x of
          Fin a \<Rightarrow> Ok (mk_float (a / y))
        | NaN \<Rightarrow> Ok NaN
        | _ \<Rightarrow> Ok (signed_inf (float_sign x * sgn y)))"
| "float_div x NaN = Ok NaN"
| "float_div x _ = (case x of Fin a \<Rightarrow> Ok (Fin 0) | _ \<Rightarrow> Ok NaN)"

text \<open>Division by a nonzero literal of the source, which cannot raise.\<close>

fun float_div_lit :: "pyfloat \<Rightarrow> rat \<Rightarrow> pyfloat" where
  "float_div_lit (Fin x) c = mk_float (x / c)"
| "float_div_lit x c = (if c < 0 then float_neg x else x)"

fun float_le :: "pyfloat \<Rightarrow> pyfloat \<Rightarrow> bool" where
  "float_le NaN _ = False"
| "float_le _ NaN = False"
| "float_le NInf _ = True"
| "float_le _ PInf = True"
| "float_le (Fin x) (Fin y) = (x \<le> y)"
| "float_le _ _ = False"

fun float_lt :: "pyfloat \<Rightarrow> pyfloat \<Rightarrow> bool" where
  "float_lt NaN _ = False"
| "float_lt _ NaN = False"
| "float_lt NInf y = (y \<noteq> NInf)"
| "float_lt x PInf = (x \<noteq> PInf)"
| "float_lt (Fin x) (Fin y) = (x < y)"
| "float_lt _ _ = False"

definition float_of_int :: "int \<Rightarrow> pyfloat result" where
  "float_of_int n =
     (case mk_float (of_int n) of Fin x \<Rightarrow> Ok (Fin x) | _ \<Rightarrow> Raise OverflowError)"

text \<open>True division of two Python integers: the correctly rounded quotient.\<close>

definition int_truediv :: "int \<Rightarrow> int \<Rightarrow> pyfloat result" where
  "int_truediv a b =
     (if b = 0 then Raise ZeroDivisionError
      else case mk_float (of_int a / of_int b) of Fin x \<Rightarrow> Ok (Fin x) | _ \<Rightarrow> Raise OverflowError)"

text \<open>\<open>int(x)\<close> truncates towards zero.\<close>

definition trunc_rat :: "rat \<Rightarrow> int" where
  "trunc_rat x = (if 0 \<le> x then \<lfloor>x\<rfloor> else \<lceil>x\<rceil>)"

fun int_of_float :: "pyfloat \<Rightarrow> int result" where
  "int_of_float (Fin x) = Ok (trunc_rat x)"
| "int_of_float NaN = Raise ValueError"
| "int_of_float _ = Raise OverflowError"

text \<open>\<open>round(x)\<close> and \<open>round(x, n)\<close> for \<open>n > 0\<close>: correctly
  rounded in decimal, ties to even, then converted back to the nearest double.\<close>

fun round_float :: "pyfloat \<Rightarrow> int result" where
  "round_float (Fin x) = Ok (round_even x)"
| "round_float NaN = Raise ValueError"
| "round_float _ = Raise OverflowError"

fun round_digits :: "nat \<Rightarrow> pyfloat \<Rightarrow> pyfloat" where
  "round_digits n (Fin x) = mk_float (of_int (round_even (x * 10 ^ n)) / 10 ^ n)"
| "round_digits n x = x"

text \<open>\<open>sum\<close> of a list of floats, from the left, starting at the integer 0.\<close>

definition float_sum :: "pyfloat list \<Rightarrow> pyfloat" where
  "float_sum xs = foldl float_add (Fin 0) xs"

text \<open>The values a double can have: what every operation returns.\<close>

fun float_ok :: "pyfloat \<Rightarrow> bool" where
  "float_ok (Fin x) = (is_double x \<and> \<bar>x\<bar> < 2 ^ 1024)"
| "float_ok _ = True"

section \<open>The rounding is to a nearest double\<close>

lemma binexp_bounds:
  assumes "x \<noteq> 0"
  shows "2 powi binexp x \<le> \<bar>x\<bar>" and "\<bar>x\<bar> < 2 powi (binexp x + 1)"
proof -
  obtain p q where pq: "quotient_of \<bar>x\<bar> = (p, q)" by fastforce
  define a b where "a = bitlen p" and "b = bitlen q"
  have q: "0 < q" using pq by (rule quotient_of_denom_pos)
  have xq: "\<bar>x\<bar> = of_int p / of_int q" using pq by (rule quotient_of_div)
  have "(of_int p :: rat) = \<bar>x\<bar> * of_int q" using xq q by simp
  also have "\<dots> > 0" using assms q by simp
  finally have p: "0 < p" by simp
  have pos: "1 \<le> a" "1 \<le> b"
    using p q by (auto simp: a_def b_def bitlen_alt_def)
  have pb: "2 ^ nat (a - 1) \<le> p" "p < 2 ^ nat a"
    and qb: "2 ^ nat (b - 1) \<le> q" "q < 2 ^ nat b"
    using bitlen_bounds[OF p] bitlen_bounds[OF q] by (auto simp: a_def b_def)
  have powi: "(2::rat) powi k = of_int (2 ^ nat k)" if "0 \<le> k" for k
    using that by (simp add: power_int_nonneg_exp)
  have P: "(2::rat) powi (a - 1) \<le> of_int p" "of_int p < (2::rat) powi a"
    using pb pos by (simp_all only: powi of_int_le_iff of_int_less_iff)
  have Q: "(2::rat) powi (b - 1) \<le> of_int q" "of_int q < (2::rat) powi b"
    using qb pos by (simp_all only: powi of_int_le_iff of_int_less_iff)
  have low: "2 powi (a - b - 1) \<le> \<bar>x\<bar>"
  proof -
    have "2 powi (a - b - 1) * of_int q \<le> 2 powi (a - b - 1) * (2::rat) powi b"
      using Q(2) by (intro mult_left_mono) auto
    also have "\<dots> = 2 powi (a - 1)" by (simp flip: power_int_add)
    also have "\<dots> \<le> of_int p" by (rule P)
    finally show ?thesis using q by (simp add: xq field_simps)
  qed
  have high: "\<bar>x\<bar> < 2 powi (a - b + 1)"
  proof -
    have "of_int p < (2::rat) powi a" by (rule P)
    also have "\<dots> = 2 powi (a - b + 1) * 2 powi (b - 1)" by (simp flip: power_int_add)
    also have "\<dots> \<le> 2 powi (a - b + 1) * of_int q" using Q(1) by (intro mult_left_mono) auto
    finally show ?thesis using q by (simp add: xq field_simps)
  qed
  have be: "binexp x = (if 2 powi (a - b) \<le> \<bar>x\<bar> then a - b else a - b - 1)"
    by (simp add: binexp_def pq a_def b_def Let_def)
  show "2 powi binexp x \<le> \<bar>x\<bar>" using low by (simp add: be)
  show "\<bar>x\<bar> < 2 powi (binexp x + 1)" using high by (simp add: be)
qed

lemma round_even_nearest: "\<bar>of_int (round_even x) - x\<bar> \<le> \<bar>of_int k - x\<bar>"
proof -
  define f where "f = \<lfloor>x\<rfloor>"
  have f: "of_int f \<le> x" "x < of_int f + 1"
    using floor_correct[of x] by (auto simp: f_def)
  consider "k \<le> f" | "f + 1 \<le> k" by linarith
  then show ?thesis
  proof cases
    case 1
    then have "(of_int k :: rat) \<le> of_int f" by simp
    with f show ?thesis by (auto simp: round_even_def Let_def simp flip: f_def)
  next
    case 2
    then have "(of_int f + 1 :: rat) \<le> of_int k" by (metis of_int_1 of_int_add of_int_le_iff)
    with f show ?thesis by (auto simp: round_even_def Let_def simp flip: f_def)
  qed
qed

lemma round_even_half: "\<bar>of_int (round_even x) - x\<bar> \<le> 1 / 2"
proof -
  have f: "of_int \<lfloor>x\<rfloor> \<le> x" "x < of_int \<lfloor>x\<rfloor> + 1"
    using floor_correct[of x] by auto
  then show ?thesis by (auto simp: round_even_def Let_def)
qed

lemma round_even_of_int [simp]: "round_even (of_int k) = k"
  by (simp add: round_even_def)

lemma round_even_minus: "round_even (- x) = - round_even x"
proof (cases "x \<in> \<int>")
  case True
  then obtain k where "x = of_int k" by (auto elim: Ints_cases)
  then show ?thesis by (metis of_int_minus round_even_of_int)
next
  case False
  then have "\<lfloor>- x\<rfloor> = - \<lfloor>x\<rfloor> - 1"
    by (simp add: floor_minus ceiling_altdef) (metis Ints_of_int)
  then show ?thesis by (auto simp: round_even_def Let_def)
qed

lemma binexp_minus [simp]: "binexp (- x) = binexp x"
  by (simp add: binexp_def)

lemma ulp_exp_minus [simp]: "ulp_exp (- x) = ulp_exp x"
  by (simp add: ulp_exp_def)

lemma fl_0 [simp]: "fl 0 = 0"
  by (simp add: fl_def)

lemma fl_minus: "fl (- x) = - fl x"
  by (simp add: fl_def round_even_minus)

lemma fl_grid:
  assumes "x \<noteq> 0" and "y = of_int k * 2 powi ulp_exp x"
  shows "\<bar>fl x - x\<bar> \<le> \<bar>y - x\<bar>"
proof -
  define u :: rat where "u = 2 powi ulp_exp x"
  have u: "0 < u" by (simp add: u_def)
  have "\<bar>of_int (round_even (x / u)) - x / u\<bar> * u \<le> \<bar>of_int k - x / u\<bar> * u"
    using round_even_nearest[of "x / u" k] u by (intro mult_right_mono) auto
  moreover have "\<bar>of_int (round_even (x / u)) - x / u\<bar> * u = \<bar>fl x - x\<bar>"
    using u assms(1) by (simp add: fl_def abs_mult_pos' abs_if field_simps flip: u_def)
  moreover have "\<bar>of_int k - x / u\<bar> * u = \<bar>y - x\<bar>"
    using u assms(2) by (simp add: abs_if field_simps flip: u_def)
  ultimately show ?thesis by simp
qed

lemma fl_error: "\<bar>fl x - x\<bar> \<le> 2 powi ulp_exp x / 2"
proof (cases "x = 0")
  case False
  define u :: rat where "u = 2 powi ulp_exp x"
  have u: "0 < u" by (simp add: u_def)
  have "\<bar>of_int (round_even (x / u)) - x / u\<bar> * u \<le> 1 / 2 * u"
    using round_even_half[of "x / u"] u by (intro mult_right_mono) auto
  moreover have "\<bar>of_int (round_even (x / u)) - x / u\<bar> * u = \<bar>fl x - x\<bar>"
    using u False by (simp add: fl_def abs_if field_simps flip: u_def)
  ultimately have "\<bar>fl x - x\<bar> \<le> u / 2" by linarith
  then show ?thesis by (simp add: u_def)
qed simp

lemma fl_error_below:
  assumes "\<bar>x\<bar> < 2 powi k" and "- 1021 \<le> k"
  shows "\<bar>fl x - x\<bar> \<le> 2 powi (k - 54)"
proof (cases "x = 0")
  case False
  have "2 powi binexp x < (2 powi k :: rat)"
    using binexp_bounds(1)[OF False] assms(1) by linarith
  then have "binexp x < k"
    by (metis not_less power_int_increasing one_le_numeral order_less_irrefl order_less_le_trans)
  then have "ulp_exp x \<le> k - 53" using assms(2) by (simp add: ulp_exp_def)
  then have "(2::rat) powi ulp_exp x \<le> 2 powi (k - 53)"
    by (intro power_int_increasing) auto
  also have "(2::rat) powi (k - 53) = 2 powi (k - 54) * 2"
    using power_int_add_1[of "2::rat" "k - 54"] by simp
  finally show ?thesis using fl_error[of x] by linarith
qed simp

lemma is_double_minus: "is_double x \<Longrightarrow> is_double (- x)"
proof -
  assume "is_double x"
  then obtain m e where "x = of_int m * 2 powi e" "\<bar>m\<bar> \<le> 2 ^ 53" "- 1074 \<le> e"
    unfolding is_double_def by blast
  then have "- x = of_int (- m) * 2 powi e \<and> \<bar>- m\<bar> \<le> 2 ^ 53 \<and> - 1074 \<le> e" by simp
  then show ?thesis unfolding is_double_def by blast
qed

lemma is_double_powi: "- 1074 \<le> k \<Longrightarrow> is_double (2 powi k)"
  unfolding is_double_def by (rule exI[of _ 1], rule exI[of _ k]) simp

lemma is_double_int: "\<bar>n\<bar> \<le> 2 ^ 53 \<Longrightarrow> is_double (of_int n)"
  unfolding is_double_def by (rule exI[of _ n], rule exI[of _ 0]) simp

lemma is_double_0 [simp]: "is_double 0"
  using is_double_int[of 0] by simp

lemma is_double_fl: "is_double (fl x)"
proof (cases "x = 0")
  case False
  define e m where "e = ulp_exp x" and "m = round_even (x / 2 powi e)"
  have u: "(0::rat) < 2 powi e" by simp
  have "binexp x + 1 \<le> 53 + e" by (simp add: e_def ulp_exp_def)
  then have "(2::rat) powi (binexp x + 1) \<le> 2 powi (53 + e)"
    by (intro power_int_increasing) auto
  then have "\<bar>x\<bar> < 2 powi (53 + e)" using binexp_bounds(2)[OF False] by linarith
  then have b: "\<bar>x / 2 powi e\<bar> < 2 ^ 53"
    using u by (simp add: power_int_add abs_divide field_simps)
  have "\<bar>of_int m - x / 2 powi e\<bar> \<le> \<bar>of_int k - x / 2 powi e\<bar>" for k
    unfolding m_def by (rule round_even_nearest)
  from this[of "2 ^ 53"] this[of "- (2 ^ 53)"] b
  have "\<bar>of_int m\<bar> \<le> (2 ^ 53 :: rat)" by (simp del: abs_divide)
  then have "\<bar>m\<bar> \<le> 2 ^ 53" by (simp add: abs_le_iff)
  moreover have "fl x = of_int m * 2 powi e" using False by (simp add: fl_def e_def m_def)
  moreover have "- 1074 \<le> e" by (simp add: e_def ulp_exp_def)
  ultimately show ?thesis unfolding is_double_def by blast
qed simp

theorem fl_nearest:
  assumes "is_double y"
  shows "\<bar>fl x - x\<bar> \<le> \<bar>y - x\<bar>"
proof (cases "x = 0")
  case False
  obtain m e where y: "y = of_int m * 2 powi e" and m: "\<bar>m\<bar> \<le> 2 ^ 53" and e: "- 1074 \<le> e"
    using assms unfolding is_double_def by blast
  define u where "u = ulp_exp x"
  show ?thesis
  proof (cases "u \<le> e")
    case True
    have "y = of_int (m * 2 ^ nat (e - u)) * 2 powi u"
      using True by (simp add: y power_int_diff flip: power_int_nonneg_exp)
    then show ?thesis unfolding u_def by (rule fl_grid[OF False])
  next
    case below: False
    then have u: "u = binexp x - 52" using e by (simp add: u_def ulp_exp_def)
    define t :: rat where "t = (if 0 < x then 1 else - 1) * 2 powi binexp x"
    have "t = of_int ((if 0 < x then 1 else - 1) * 2 ^ 52) * 2 powi u"
      by (simp add: t_def u power_int_diff)
    then have t: "\<bar>fl x - x\<bar> \<le> \<bar>t - x\<bar>" unfolding u_def by (rule fl_grid[OF False])
    have "\<bar>y\<bar> \<le> 2 ^ 53 * 2 powi e"
      using m by (simp add: y abs_mult)
    also have "\<dots> = 2 powi (53 + e)" by (simp add: power_int_add)
    also have "\<dots> \<le> 2 powi binexp x" using below u by (intro power_int_increasing) auto
    finally have "\<bar>y\<bar> \<le> 2 powi binexp x" .
    then have "\<bar>t - x\<bar> \<le> \<bar>y - x\<bar>"
      using binexp_bounds(1)[OF False] False by (auto simp: t_def)
    with t show ?thesis by simp
  qed
qed simp

lemma fl_id: "is_double x \<Longrightarrow> fl x = x"
  using fl_nearest[of x x] by simp

lemma fl_mono: assumes "x \<le> y" shows "fl x \<le> fl y"
proof (cases "x = y")
  case False
  then have "x < y" using assms by simp
  show ?thesis
    using fl_nearest[OF is_double_fl, of x y] fl_nearest[OF is_double_fl, of y x] \<open>x < y\<close>
    by linarith
qed simp


section \<open>What the filters rely on: monotone rounding onto a set of numbers\<close>

locale rounding =
  fixes rnd :: "'a::linordered_field \<Rightarrow> 'a"
    and repr :: "'a \<Rightarrow> bool"
  assumes rnd_repr: "repr (rnd x)"
    and rnd_id: "repr x \<Longrightarrow> rnd x = x"
    and rnd_mono: "x \<le> y \<Longrightarrow> rnd x \<le> rnd y"
    and repr_0: "repr 0"
    and repr_minus: "repr x \<Longrightarrow> repr (- x)"
    and binade: "repr a \<Longrightarrow> repr b \<Longrightarrow> b < a \<Longrightarrow>
      \<exists>p. repr p \<and> repr (2 * p) \<and> p \<le> a - b \<and> a - b < 2 * p"
begin

lemma rnd_0: "rnd 0 = 0"
  by (rule rnd_id[OF repr_0])

lemma rnd_nonneg: "0 \<le> x \<Longrightarrow> 0 \<le> rnd x"
  using rnd_mono[of 0 x] rnd_0 by simp

lemma rnd_le_repr: "repr b \<Longrightarrow> x \<le> b \<Longrightarrow> rnd x \<le> b"
  using rnd_mono[of x b] rnd_id[of b] by simp

lemma rnd_ge_repr: "repr b \<Longrightarrow> b \<le> x \<Longrightarrow> b \<le> rnd x"
  using rnd_mono[of b x] rnd_id[of b] by simp

text \<open>One step of an exponential filter with gain a sixteenth,
  \<open>j + (d - j) / 16\<close>, every operation rounded: the new value stays between
  zero and any representable bound of the old value and the input.\<close>

lemma sixteenth_small:
  assumes "repr b" "repr j" "j \<le> b"
  shows "rnd (rnd (b - j) / 16) \<le> b - j"
proof (cases "j = b")
  case True
  then show ?thesis by (simp add: rnd_0)
next
  case False
  then obtain p where p: "repr p" "repr (2 * p)" "p \<le> b - j" "b - j < 2 * p"
    using binade[OF assms(1,2)] assms(3) by force
  have "rnd (b - j) \<le> 2 * p" using p by (intro rnd_le_repr) auto
  then have "rnd (b - j) / 16 \<le> p" using p by simp
  then have "rnd (rnd (b - j) / 16) \<le> p" by (rule rnd_le_repr[OF p(1)])
  then show ?thesis using p(3) by simp
qed

lemma filter_step_le:
  assumes "repr b" "repr j" "j \<le> b" "d \<le> b"
  shows "rnd (j + rnd (rnd (d - j) / 16)) \<le> b"
proof -
  have "rnd (d - j) / 16 \<le> rnd (b - j) / 16"
    using assms(4) by (simp add: rnd_mono divide_right_mono)
  then have "rnd (rnd (d - j) / 16) \<le> b - j"
    using sixteenth_small[OF assms(1-3)] rnd_mono order_trans by blast
  then show ?thesis using assms(1) by (intro rnd_le_repr) auto
qed

lemma filter_step_nonneg:
  assumes "repr j" "0 \<le> j" "0 \<le> d"
  shows "0 \<le> rnd (j + rnd (rnd (d - j) / 16))"
proof -
  have "- j \<le> rnd (d - j)"
    using assms by (intro rnd_ge_repr repr_minus) auto
  then have "- j \<le> rnd (d - j) / 16" using assms(2) by simp
  then have "- j \<le> rnd (rnd (d - j) / 16)" using assms(1) by (intro rnd_ge_repr repr_minus)
  then show ?thesis by (intro rnd_nonneg) simp
qed

end

lemma double_grid: "is_double x \<Longrightarrow> \<exists>k. x = of_int k * 2 powi (- 1074)"
proof -
  assume "is_double x"
  then obtain m e where x: "x = of_int m * 2 powi e" and e: "- 1074 \<le> e"
    unfolding is_double_def by blast
  have "(2::rat) powi e = 2 powi (e + 1074) * 2 powi (- 1074)"
    using power_int_add[of "2::rat" "e + 1074" "- 1074"] by (simp only: add.assoc) simp
  also have "(2::rat) powi (e + 1074) = of_int (2 ^ nat (e + 1074))"
    using e by (simp add: power_int_nonneg_exp)
  finally have "x = of_int (m * 2 ^ nat (e + 1074)) * 2 powi (- 1074)" by (simp add: x)
  then show ?thesis ..
qed

lemma double_binade:
  assumes "is_double a" "is_double b" "b < a"
  shows "\<exists>p. is_double p \<and> is_double (2 * p) \<and> p \<le> a - b \<and> a - b < 2 * p"
proof -
  define y where "y = a - b"
  obtain k l where "a = of_int k * 2 powi (- 1074)" "b = of_int l * 2 powi (- 1074)"
    using assms double_grid by blast
  then have y: "y = of_int (k - l) * 2 powi (- 1074)" by (simp add: y_def left_diff_distrib)
  have y0: "0 < y" using assms by (simp add: y_def)
  then have "0 < k - l" by (simp add: y zero_less_mult_iff)
  then have "1 * 2 powi (- 1074) \<le> y" unfolding y by (intro mult_right_mono) auto
  then have "2 powi (- 1074) < (2 powi (binexp y + 1) :: rat)"
    using binexp_bounds(2)[of y] y0 by simp
  then have "- 1074 < binexp y + 1"
    by (metis not_less power_int_increasing one_le_numeral)
  then have "is_double (2 powi binexp y)" "is_double (2 * 2 powi binexp y)"
    using is_double_powi[of "binexp y"] is_double_powi[of "binexp y + 1"]
    by (simp_all add: power_int_add_1')
  moreover have "2 powi binexp y \<le> y" "y < 2 * 2 powi binexp y"
    using binexp_bounds[of y] y0 by (simp_all add: power_int_add_1')
  ultimately show ?thesis unfolding y_def by blast
qed

interpretation double: rounding fl is_double
  by unfold_locales (fact is_double_fl fl_id fl_mono is_double_0 is_double_minus double_binade)+

section \<open>Operations on finite values\<close>

lemma mk_float_Fin: "\<bar>x\<bar> \<le> 2 ^ 1023 \<Longrightarrow> mk_float x = Fin (fl x)"
proof -
  assume x: "\<bar>x\<bar> \<le> 2 ^ 1023"
  have d: "is_double (2 ^ 1023)" using is_double_powi[of 1023] by simp
  have "fl x \<le> 2 ^ 1023" using x by (intro double.rnd_le_repr[OF d]) auto
  moreover have "- (2 ^ 1023) \<le> fl x"
    using x by (intro double.rnd_ge_repr is_double_minus d) auto
  moreover have "(2::rat) ^ 1023 < 2 ^ 1024" by (rule power_strict_increasing) auto
  ultimately show ?thesis unfolding mk_float_def Let_def by force
qed

lemma mk_float_ok: "float_ok (mk_float x)"
  by (auto simp: mk_float_def Let_def is_double_fl)

lemma mk_float_double: "is_double x \<Longrightarrow> \<bar>x\<bar> < 2 ^ 1024 \<Longrightarrow> mk_float x = Fin x"
  by (auto simp: mk_float_def fl_id Let_def abs_less_iff)

lemma fl_abs_le: "is_double b \<Longrightarrow> \<bar>x\<bar> \<le> b \<Longrightarrow> \<bar>fl x\<bar> \<le> b"
  using double.rnd_le_repr[of b x] double.rnd_ge_repr[of "- b" x] is_double_minus[of b]
  by (simp add: abs_le_iff)

lemma float_le_Fin [simp]: "float_le (Fin x) (Fin y) \<longleftrightarrow> x \<le> y"
  by simp

lemma float_lt_Fin [simp]: "float_lt (Fin x) (Fin y) \<longleftrightarrow> x < y"
  by simp

lemma float_sub_Fin: "float_sub (Fin x) (Fin y) = mk_float (x - y)"
  by (simp add: float_sub_def)

lemma float_of_int_small: "\<bar>n\<bar> \<le> 2 ^ 53 \<Longrightarrow> float_of_int n = Inr (Fin (of_int n))"
proof -
  assume n: "\<bar>n\<bar> \<le> 2 ^ 53"
  have "\<bar>rat_of_int n\<bar> \<le> 2 ^ 53" using n by simp
  then have "\<bar>rat_of_int n\<bar> < 2 ^ 1024" by (rule order_le_less_trans) simp
  then show ?thesis using n by (simp add: float_of_int_def mk_float_double is_double_int)
qed

text \<open>Evaluation on small integers and dyadic fractions.\<close>

lemma mk_float_dyadic:
  assumes "\<bar>n\<bar> \<le> 2 ^ 53" "k \<le> 1000"
  shows "mk_float (of_int n / 2 ^ k) = Fin (of_int n / 2 ^ k)"
proof (rule mk_float_double)
  have "rat_of_int n / 2 ^ k = of_int n * 2 powi (- int k)"
    by (simp add: power_int_minus divide_inverse)
  moreover have "- 1074 \<le> - int k" using assms(2) by simp
  ultimately show "is_double (rat_of_int n / 2 ^ k)"
    unfolding is_double_def using assms(1) by blast
  have "\<bar>rat_of_int n / 2 ^ k\<bar> = \<bar>rat_of_int n\<bar> / 2 ^ k" by (simp add: abs_divide)
  also have "\<dots> \<le> \<bar>rat_of_int n\<bar> / 1" by (rule divide_left_mono) simp_all
  also have "\<dots> \<le> 2 ^ 53" using assms(1) by simp
  also have "(2::rat) ^ 53 < 2 ^ 1024" by (rule power_strict_increasing) auto
  finally show "\<bar>rat_of_int n / 2 ^ k\<bar> < 2 ^ 1024" .
qed

lemma mk_float_int: "\<bar>n\<bar> \<le> 2 ^ 53 \<Longrightarrow> mk_float (of_int n) = Fin (of_int n)"
  using mk_float_dyadic[of n 0] by simp

lemma mk_float_numeral [simp]:
  "mk_float 0 = Fin 0" "mk_float 1 = Fin 1" "mk_float (- 1) = Fin (- 1)"
  "numeral w \<le> (2 ^ 53 :: int) \<Longrightarrow> mk_float (numeral w) = Fin (numeral w)"
  "numeral w \<le> (2 ^ 53 :: int) \<Longrightarrow> mk_float (- numeral w) = Fin (- numeral w)"
  using mk_float_int[of 0] mk_float_int[of 1] mk_float_int[of "- 1"]
    mk_float_int[of "numeral w"] mk_float_int[of "- numeral w"] by simp_all

end
