(* ===== verification/PyStr.thy ===== *)
theory PyStr
  imports PyFloat
begin

text \<open>
  The string operations of Python that the scripts use, on strings whose code
  points are below 256 (one \<open>char\<close> each): the character classes are exact
  for that range. Text read from a file goes through Python's universal
  newlines; \<open>readlines\<close> and iteration keep the line ends.
\<close>

named_theorems str_simps \<open>evaluation of string operations\<close>

section \<open>Paths\<close>

text \<open>\<open>os.path.join\<close> of two parts.\<close>

definition path_join :: "string \<Rightarrow> string \<Rightarrow> string" where
  "path_join a b =
     (if b \<noteq> [] \<and> hd b = CHR ''/'' then b
      else if a = [] \<or> last a = CHR ''/'' then a @ b
      else a @ CHR ''/'' # b)"

section \<open>Character classes\<close>

definition newline :: char where
  "newline = CHR 0x0A"

definition code_pt :: "char \<Rightarrow> nat" where
  "code_pt c = of_char c"

text \<open>\<open>\d\<close> and the digits \<open>int\<close> and \<open>float\<close> accept.\<close>

definition is_dec :: "char \<Rightarrow> bool" where
  "is_dec c \<longleftrightarrow> 48 \<le> code_pt c \<and> code_pt c \<le> 57"

text \<open>\<open>str.isdigit\<close> of one character: the decimal digits and the superscripts.\<close>

definition is_digit_char :: "char \<Rightarrow> bool" where
  "is_digit_char c \<longleftrightarrow> is_dec c \<or> code_pt c \<in> {178, 179, 185}"

text \<open>\<open>\w\<close>: letters, digits and other numeric characters, and the underscore.\<close>

definition is_word_char :: "char \<Rightarrow> bool" where
  "is_word_char c \<longleftrightarrow>
     (let n = code_pt c
      in is_dec c \<or> (65 \<le> n \<and> n \<le> 90) \<or> (97 \<le> n \<and> n \<le> 122) \<or> n = 95
         \<or> n \<in> {170, 178, 179, 181, 185, 186, 188, 189, 190}
         \<or> (192 \<le> n \<and> n \<noteq> 215 \<and> n \<noteq> 247))"

definition is_space_char :: "char \<Rightarrow> bool" where
  "is_space_char c \<longleftrightarrow>
     (let n = code_pt c in (9 \<le> n \<and> n \<le> 13) \<or> (28 \<le> n \<and> n \<le> 32) \<or> n = 133 \<or> n = 160)"

definition isdigit :: "string \<Rightarrow> bool" where
  "isdigit s \<longleftrightarrow> s \<noteq> [] \<and> list_all is_digit_char s"

section \<open>Searching, splitting, replacing\<close>

definition starts_with :: "string \<Rightarrow> string \<Rightarrow> bool" where
  "starts_with p s \<longleftrightarrow> take (length p) s = p"

fun contains :: "string \<Rightarrow> string \<Rightarrow> bool" where
  "contains p [] = (p = [])"
| "contains p (c # cs) = (starts_with p (c # cs) \<or> contains p cs)"

definition rstrip :: "string \<Rightarrow> string" where
  "rstrip s = rev (dropWhile is_space_char (rev s))"

definition strip :: "string \<Rightarrow> string" where
  "strip s = rstrip (dropWhile is_space_char s)"

text \<open>\<open>s.split(c)\<close> for a one-character separator, and its inverse.\<close>

fun split_on :: "char \<Rightarrow> string \<Rightarrow> string list" where
  "split_on c [] = [[]]"
| "split_on c (x # xs) =
     (if x = c then [] # split_on c xs
      else case split_on c xs of [] \<Rightarrow> [[x]] | t # ts \<Rightarrow> (x # t) # ts)"

fun join_with :: "char \<Rightarrow> string list \<Rightarrow> string" where
  "join_with c [] = []"
| "join_with c [t] = t"
| "join_with c (t # u # ts) = t @ c # join_with c (u # ts)"

text \<open>\<open>s.replace(old, new)\<close> for a nonempty \<open>old\<close> (the only use).\<close>

function replace_all :: "string \<Rightarrow> string \<Rightarrow> string \<Rightarrow> string" where
  "replace_all old new [] = []"
| "replace_all old new (c # cs) =
     (if old \<noteq> [] \<and> starts_with old (c # cs)
      then new @ replace_all old new (drop (length old) (c # cs))
      else c # replace_all old new cs)"
  by pat_completeness auto
termination
  by (relation "measure (\<lambda>(old, new, s). length s)") auto

section \<open>Files as text\<close>

fun universal_newlines :: "string \<Rightarrow> string" where
  "universal_newlines [] = []"
| "universal_newlines [c] = [if c = CHR 0x0D then newline else c]"
| "universal_newlines (c # d # cs) =
     (if c = CHR 0x0D \<and> d = newline then newline # universal_newlines cs
      else (if c = CHR 0x0D then newline else c) # universal_newlines (d # cs))"

fun split_lines :: "string \<Rightarrow> string list" where
  "split_lines [] = []"
| "split_lines (c # cs) =
     (if c = newline then [c] # split_lines cs
      else case split_lines cs of [] \<Rightarrow> [[c]] | l # ls \<Rightarrow> (c # l) # ls)"

definition readlines :: "string \<Rightarrow> string list" where
  "readlines content = split_lines (universal_newlines content)"

section \<open>Numbers as text\<close>

definition digit_val :: "char \<Rightarrow> nat" where
  "digit_val c = code_pt c - 48"

definition digits_val :: "string \<Rightarrow> nat" where
  "digits_val ds = foldl (\<lambda>a c. 10 * a + digit_val c) 0 ds"

text \<open>Digits with single underscores between them, as \<open>int\<close> accepts;
  the flag says that the previous character was a digit.\<close>

fun int_digits :: "bool \<Rightarrow> string \<Rightarrow> string option" where
  "int_digits prev [] = (if prev then Some [] else None)"
| "int_digits prev (c # cs) =
     (if is_dec c then map_option ((#) c) (int_digits True cs)
      else if c = CHR ''_'' \<and> prev then int_digits False cs
      else None)"

definition split_sign :: "string \<Rightarrow> bool \<times> string" where
  "split_sign s =
     (case s of
        c # cs \<Rightarrow> (if c = CHR ''-'' then (True, cs) else if c = CHR ''+'' then (False, cs) else (False, s))
      | [] \<Rightarrow> (False, s))"

definition py_int :: "string \<Rightarrow> int result" where
  "py_int s =
     (case split_sign (strip s) of (neg, t) \<Rightarrow>
        (case int_digits False t of
           None \<Rightarrow> Raise ValueError
         | Some ds \<Rightarrow> Ok (if neg then - int (digits_val ds) else int (digits_val ds))))"

text \<open>\<open>float\<close> drops an underscore that stands between two digits and
  refuses any other.\<close>

fun drop_underscores :: "bool \<Rightarrow> string \<Rightarrow> string option" where
  "drop_underscores prev [] = Some []"
| "drop_underscores prev (c # cs) =
     (if c = CHR ''_''
      then (case cs of
              d # _ \<Rightarrow> (if prev \<and> is_dec d then drop_underscores False cs else None)
            | [] \<Rightarrow> None)
      else map_option ((#) c) (drop_underscores (is_dec c) cs))"

definition to_lower :: "char \<Rightarrow> char" where
  "to_lower c = (if 65 \<le> code_pt c \<and> code_pt c \<le> 90 then char_of (code_pt c + 32) else c)"

definition parse_exponent :: "string \<Rightarrow> int option" where
  "parse_exponent s =
     (case s of
        [] \<Rightarrow> Some 0
      | c # cs \<Rightarrow>
          (if c = CHR ''e'' \<or> c = CHR ''E''
           then (case split_sign cs of (neg, ds) \<Rightarrow>
                   (if ds \<noteq> [] \<and> list_all is_dec ds
                    then Some (if neg then - int (digits_val ds) else int (digits_val ds))
                    else None))
           else None))"

definition parse_decimal :: "string \<Rightarrow> rat option" where
  "parse_decimal s =
     (let ip = takeWhile is_dec s; r = dropWhile is_dec s;
          dot = (r \<noteq> [] \<and> hd r = CHR ''.'');
          fp = (if dot then takeWhile is_dec (tl r) else []);
          r' = (if dot then dropWhile is_dec (tl r) else r)
      in if ip @ fp = [] then None
         else map_option (\<lambda>e. of_nat (digits_val (ip @ fp)) * 10 powi (e - int (length fp)))
                (parse_exponent r'))"

definition py_float :: "string \<Rightarrow> pyfloat result" where
  "py_float s =
     (case drop_underscores False (strip s) of
        None \<Rightarrow> Raise ValueError
      | Some t \<Rightarrow>
          (case split_sign t of (neg, u) \<Rightarrow>
             let l = map to_lower u; sg = (\<lambda>x. if neg then float_neg x else x)
             in if l = ''inf'' \<or> l = ''infinity'' then Ok (sg PInf)
                else if l = ''nan'' then Ok NaN
                else case parse_decimal u of
                       None \<Rightarrow> Raise ValueError
                     | Some x \<Rightarrow> Ok (sg (mk_float x))))"

text \<open>\<open>str(n)\<close> of an integer.\<close>

fun string_of_nat :: "nat \<Rightarrow> string" where
  "string_of_nat n =
     (if n < 10 then [char_of (48 + n)]
      else string_of_nat (n div 10) @ [char_of (48 + n mod 10)])"

definition string_of_int :: "int \<Rightarrow> string" where
  "string_of_int i = (if i < 0 then CHR ''-'' # string_of_nat (nat (- i)) else string_of_nat (nat i))"

declare string_of_nat.simps [simp del]

declare code_pt_def [str_simps] is_dec_def [str_simps] is_digit_char_def [str_simps]
  is_word_char_def [str_simps] is_space_char_def [str_simps] isdigit_def [str_simps]
  starts_with_def [str_simps] rstrip_def [str_simps] strip_def [str_simps]
  readlines_def [str_simps] newline_def [str_simps] digit_val_def [str_simps]
  digits_val_def [str_simps] split_sign_def [str_simps] py_int_def [str_simps]
  py_index_def [str_simps]

section \<open>Splitting and joining are inverse\<close>

lemma split_on_nonempty [simp]: "split_on c s \<noteq> []"
  by (induction s) (auto split: list.splits)

lemma join_split [simp]: "join_with c (split_on c s) = s"
proof (induction s)
  case Nil
  then show ?case by simp
next
  case (Cons x xs)
  obtain t ts where "split_on c xs = t # ts" by (cases "split_on c xs") auto
  with Cons.IH show ?case by (cases ts) auto
qed

lemma split_on_no_sep: "t \<in> set (split_on c s) \<Longrightarrow> c \<notin> set t"
  by (induction s arbitrary: t) (auto split: list.splits if_splits)

lemma split_on_single: "c \<notin> set t \<Longrightarrow> split_on c t = [t]"
  by (induction t) auto

lemma split_on_append:
  "c \<notin> set t \<Longrightarrow> split_on c (t @ c # s) = t # split_on c s"
  by (induction t) auto

lemma split_join:
  "ts \<noteq> [] \<Longrightarrow> \<forall>t \<in> set ts. c \<notin> set t \<Longrightarrow> split_on c (join_with c ts) = ts"
  by (induction c ts rule: join_with.induct) (auto simp: split_on_append split_on_single)

lemma split_on_snoc:
  "x \<noteq> c \<Longrightarrow> split_on c (t @ [x]) = butlast (split_on c t) @ [last (split_on c t) @ [x]]"
  by (induction t) (auto split: list.splits)

lemma join_snoc: "join_with c (ts @ [t @ [x]]) = join_with c (ts @ [t]) @ [x]"
proof (induction ts)
  case (Cons u us)
  then show ?case by (cases us) auto
qed simp

lemma set_join: "set (join_with c ts) \<subseteq> insert c (\<Union>t \<in> set ts. set t)"
  by (induction c ts rule: join_with.induct) auto

lemma set_split_on: "t \<in> set (split_on c s) \<Longrightarrow> set t \<subseteq> set s"
proof (induction s arbitrary: t)
  case (Cons x xs)
  then show ?case by (cases "split_on c xs") (fastforce split: if_splits)+
qed simp

section \<open>Lines\<close>

lemma concat_split_lines [simp]: "concat (split_lines s) = s"
  by (induction s) (auto split: list.splits)

lemma split_lines_nonempty: "l \<in> set (split_lines s) \<Longrightarrow> l \<noteq> []"
  by (induction s arbitrary: l) (auto split: list.splits if_splits)

lemma split_lines_append_line:
  "newline \<notin> set t \<Longrightarrow> split_lines (t @ newline # s) = (t @ [newline]) # split_lines s"
  by (induction t) auto

text \<open>A complete line: it ends with its only newline.\<close>

definition full_line :: "string \<Rightarrow> bool" where
  "full_line l \<longleftrightarrow> (\<exists>t. l = t @ [newline] \<and> newline \<notin> set t)"

lemma split_lines_concat:
  "\<forall>l \<in> set ls. full_line l \<Longrightarrow> split_lines (concat ls) = ls"
  by (induction ls) (auto simp: full_line_def split_lines_append_line)

lemma newline_not_cr [simp]: "newline \<noteq> CHR 0x0D" "CHR 0x0D \<noteq> newline"
  by (simp_all add: newline_def)

lemma universal_newlines_id: "CHR 0x0D \<notin> set s \<Longrightarrow> universal_newlines s = s"
  by (induction s rule: universal_newlines.induct) auto

lemma universal_newlines_cons: "c \<noteq> CHR 0x0D \<Longrightarrow> universal_newlines (c # s) = c # universal_newlines s"
  by (cases s) auto

lemma universal_newlines_append:
  "CHR 0x0D \<notin> set t \<Longrightarrow> universal_newlines (t @ s) = t @ universal_newlines s"
  by (induction t) (auto simp: universal_newlines_cons)

lemma readlines_cons_line:
  assumes "full_line l" "CHR 0x0D \<notin> set l"
  shows "readlines (l @ s) = l # readlines s"
proof -
  obtain t where "l = t @ [newline]" "newline \<notin> set t" using assms(1) unfolding full_line_def by blast
  then show ?thesis
    using universal_newlines_append[OF assms(2), of s] split_lines_append_line[of t]
    by (simp add: readlines_def)
qed

lemma readlines_concat:
  "\<forall>l \<in> set ls. full_line l \<and> CHR 0x0D \<notin> set l \<Longrightarrow> readlines (concat ls) = ls"
  by (simp add: readlines_def universal_newlines_id split_lines_concat)

lemma universal_newlines_no_cr: "CHR 0x0D \<notin> set (universal_newlines s)"
  by (induction s rule: universal_newlines.induct) (auto simp: newline_def)

section \<open>Decimal text\<close>

lemma code_pt_char_of [simp]: "n < 256 \<Longrightarrow> code_pt (char_of n) = n"
  by (simp add: code_pt_def)

lemma is_dec_digit [simp]: "n < 10 \<Longrightarrow> is_dec (char_of (48 + n :: nat))"
  by (simp add: is_dec_def)

lemma digit_val_digit [simp]: "n < 10 \<Longrightarrow> digit_val (char_of (48 + n :: nat)) = n"
  by (simp add: digit_val_def)

lemma digits_val_append [simp]:
  "digits_val (xs @ [c]) = 10 * digits_val xs + digit_val c"
  by (simp add: digits_val_def)

lemma digits_val_Nil [simp]: "digits_val [] = 0"
  by (simp add: digits_val_def)

lemma string_of_nat_dec: "list_all is_dec (string_of_nat n)"
proof (induction n rule: string_of_nat.induct)
  case (1 n)
  then show ?case by (auto simp: string_of_nat.simps[of n])
qed

lemma string_of_nat_nonempty [simp]: "string_of_nat n \<noteq> []"
  by (simp add: string_of_nat.simps[of n])

lemma digits_val_string_of_nat: "digits_val (string_of_nat n) = n"
proof (induction n rule: string_of_nat.induct)
  case (1 n)
  show ?case
  proof (cases "n < 10")
    case True
    then show ?thesis
      using digits_val_append[of "[]" "char_of (48 + n)"] by (simp add: string_of_nat.simps[of n])
  next
    case False
    with 1 have "digits_val (string_of_nat (n div 10)) = n div 10" by simp
    with False show ?thesis by (simp add: string_of_nat.simps[of n])
  qed
qed

lemma int_digits_dec:
  "list_all is_dec ds \<Longrightarrow> prev \<or> ds \<noteq> [] \<Longrightarrow> int_digits prev ds = Some ds"
  by (induction ds arbitrary: prev) auto

lemma dec_not_space: "is_dec c \<Longrightarrow> \<not> is_space_char c"
  by (auto simp: is_dec_def is_space_char_def Let_def)

lemma dec_not_special:
  "is_dec c \<Longrightarrow> c \<noteq> CHR '','' \<and> c \<noteq> CHR ''-'' \<and> c \<noteq> CHR ''+'' \<and> c \<noteq> CHR ''_'' \<and> c \<noteq> newline
     \<and> c \<noteq> CHR 0x0D \<and> c \<noteq> CHR '':'' \<and> c \<noteq> CHR '' ''"
  by (auto simp: is_dec_def code_pt_def newline_def)

text \<open>Stripping removes exactly the outer white space.\<close>

lemma strip_surround:
  assumes "list_all is_space_char ws" "list_all is_space_char ws'"
    and "t = [] \<or> \<not> is_space_char (hd t) \<and> \<not> is_space_char (last t)"
  shows "strip (ws @ t @ ws') = t"
proof -
  have all: "dropWhile is_space_char (xs @ ys) = dropWhile is_space_char ys"
    if "list_all is_space_char xs" for xs ys
    using that by (induction xs) auto
  show ?thesis
  proof (cases "t = []")
    case True
    then show ?thesis using all[OF assms(1), of ws'] all[OF assms(2), of "[]"]
      by (auto simp: strip_def rstrip_def list_all_iff dest: set_dropWhileD)
  next
    case False
    then have "dropWhile is_space_char (ws @ t @ ws') = t @ ws'"
      using all[OF assms(1), of "t @ ws'"] assms(3) by (cases t) auto
    moreover have "dropWhile is_space_char (rev ws' @ rev t) = rev t"
      using all[of "rev ws'" "rev t"] assms(2,3) False
      by (cases "rev t") (auto simp: list_all_iff hd_rev last_rev)
    ultimately show ?thesis by (simp add: strip_def rstrip_def)
  qed
qed

lemma py_int_digits:
  assumes "list_all is_dec ds" "ds \<noteq> []" "list_all is_space_char ws"
  shows "py_int (ds @ ws) = Inr (int (digits_val ds))"
proof -
  have "strip ([] @ ds @ ws) = ds"
    using assms by (intro strip_surround) (auto simp: list_all_iff dest: dec_not_space)
  moreover have "split_sign ds = (False, ds)"
    using assms by (cases ds) (auto simp: split_sign_def dest: dec_not_special)
  ultimately show ?thesis using assms by (simp add: py_int_def int_digits_dec)
qed

lemma py_int_string_of_nat [simp]: "py_int (string_of_nat n) = Inr (int n)"
  using py_int_digits[OF string_of_nat_dec, of n "[]"]
  by (simp add: digits_val_string_of_nat)

lemma py_int_string_of_int: "py_int (string_of_int i) = Inr i"
proof (cases "i < 0")
  case True
  let ?ds = "string_of_nat (nat (- i))"
  have "strip ([] @ (CHR ''-'' # ?ds) @ []) = CHR ''-'' # ?ds"
    using string_of_nat_dec[of "nat (- i)"] dec_not_space[of "last ?ds"]
    by (intro strip_surround)
      (simp_all add: list_all_iff, simp add: is_space_char_def code_pt_def)
  then show ?thesis using True string_of_nat_dec[of "nat (- i)"]
    by (simp add: py_int_def string_of_int_def split_sign_def int_digits_dec
          digits_val_string_of_nat)
next
  case False
  then show ?thesis by (simp add: string_of_int_def)
qed

lemma py_float_string_of_nat: "py_float (string_of_nat n) = Inr (mk_float (of_nat n))"
proof -
  let ?s = "string_of_nat n"
  have dec: "\<forall>c \<in> set ?s. is_dec c" using string_of_nat_dec[of n] by (simp add: list_all_iff)
  have "strip ?s = ?s"
    using strip_surround[of "[]" "[]" ?s] dec by (auto simp: dec_not_space)
  moreover have "drop_underscores b cs = Some cs" if "\<forall>c \<in> set cs. is_dec c" for b cs
    using that by (induction cs arbitrary: b) (auto dest: dec_not_special)
  moreover have "split_sign ?s = (False, ?s)"
    using dec dec_not_special by (cases ?s) (auto simp: split_sign_def)
  moreover have "map to_lower ?s = ?s"
    using dec by (intro map_idI) (auto simp: to_lower_def is_dec_def)
  moreover have "?s \<noteq> CHR ''i'' # cs" "?s \<noteq> CHR ''n'' # cs" for cs
    using dec by (auto simp: is_dec_def code_pt_def)
  moreover have "parse_decimal ?s = Some (of_nat n)"
  proof -
    have tw: "takeWhile is_dec ?s = ?s" "dropWhile is_dec ?s = []" using dec by auto
    show ?thesis
      unfolding parse_decimal_def tw
      by (simp add: Let_def parse_exponent_def digits_val_string_of_nat)
  qed
  ultimately show ?thesis using dec by (simp add: py_float_def Let_def)
qed

lemma string_of_int_chars:
  "c \<in> set (string_of_int i) \<Longrightarrow> is_dec c \<or> c = CHR ''-''"
  using string_of_nat_dec by (auto simp: string_of_int_def list_all_iff split: if_splits)

section \<open>Padded numbers and substrings\<close>

lemma length_string_of_nat: "n < 10 ^ Suc k \<Longrightarrow> length (string_of_nat n) \<le> Suc k"
proof (induction k arbitrary: n)
  case 0
  then show ?case by (simp add: string_of_nat.simps [of n])
next
  case (Suc k)
  then have "n div 10 < 10 ^ Suc k" by (simp add: less_mult_imp_div_less mult.commute)
  with Suc.IH [of "n div 10"] show ?case by (simp add: string_of_nat.simps [of n])
qed

text \<open>A number of two digits with its leading zero.\<close>

definition pad2 :: "nat \<Rightarrow> string" where
  "pad2 n = [char_of (48 + n div 10), char_of (48 + n mod 10)]"

lemma pad2_dec: "n < 100 \<Longrightarrow> list_all is_dec (pad2 n)"
  by (simp add: pad2_def)

lemma starts_with_split:
  assumes "c \<notin> set p"
  shows "starts_with p (xs @ c # ys) \<longleftrightarrow> starts_with p xs"
proof (cases "length p \<le> length xs")
  case False
  then have "p \<noteq> take (length p) (xs @ c # ys)"
    using assms by (auto simp: take_Cons' dest!: arg_cong [where f = set])
  with False show ?thesis by (auto simp: starts_with_def)
qed (simp add: starts_with_def)

text \<open>A character that is not in the pattern separates the places it can be at.\<close>

lemma contains_split:
  assumes "c \<notin> set p" "p \<noteq> []"
  shows "contains p (xs @ c # ys) \<longleftrightarrow> contains p xs \<or> contains p ys"
proof (induction xs)
  case Nil
  have "\<not> starts_with p (c # ys)" using starts_with_split [OF assms(1), of "[]" ys] assms(2) by (simp add: starts_with_def)
  then show ?case using assms(2) by simp
next
  case (Cons x xs)
  then show ?case using starts_with_split [OF assms(1), of "x # xs" ys] by simp
qed

lemma contains_chars: "contains p xs \<Longrightarrow> set p \<subseteq> set xs"
proof (induction xs)
  case (Cons x xs)
  have "set p \<subseteq> set (x # xs)" if "starts_with p (x # xs)"
    using that set_take_subset [of "length p" "x # xs"] by (simp add: starts_with_def)
  with Cons show ?case by auto
qed simp

end
