(* ===== verification/Packet_Timing.thy ===== *)
theory Packet_Timing
  imports PyStr
begin

text \<open>
  Packet logs and their timing: the RFC 3550 jitter filters of
  \<open>rfc-jitter.py\<close>, \<open>parse-logs.py\<close> and \<open>compute-iat.py\<close>, the
  regular expression that finds packets in a log, the readers of logs,
  captures and client files, and the matching of sender and receiver packets.
  A data frame is the list of its rows; of pyshark, the packets of a capture
  are the input.
\<close>

section \<open>Jitter filters\<close>

text \<open>\<open>jitter += (d - jitter) / 16\<close>\<close>

definition jitter_step :: "pyfloat \<Rightarrow> pyfloat \<Rightarrow> pyfloat" where
  "jitter_step jitter d = float_add jitter (float_div_lit (float_sub d jitter) 16)"

text \<open>\<open>calculate_jitter\<close> of \<open>parse-logs.py\<close>: the loop after the first
  row, then the column of results and the count of rows out of order.\<close>

fun jitter_loop :: "pyfloat \<Rightarrow> pyfloat \<Rightarrow> pyfloat list \<Rightarrow> pyfloat list" where
  "jitter_loop jitter prev_transit_time [] = []"
| "jitter_loop jitter prev_transit_time (transit_time # ts) =
     (if float_lt transit_time (Fin 0)
      then Fin 0 # jitter_loop jitter prev_transit_time ts
      else let j = jitter_step jitter (float_abs (float_sub transit_time prev_transit_time))
           in j # jitter_loop j transit_time ts)"

definition calculate_jitter :: "pyfloat list \<Rightarrow> (pyfloat list \<times> nat) result" where
  "calculate_jitter transits =
     (case transits of
        [] \<Rightarrow> Raise IndexError
      | t # ts \<Rightarrow> Ok (Fin 0 # jitter_loop (Fin 0) t ts,
                     length (filter (\<lambda>x. float_lt x (Fin 0)) ts)))"

text \<open>\<open>compute_jitter_and_transit\<close> of \<open>rfc-jitter.py\<close>: rows of integer
  milliseconds \<open>(sts, rts)\<close>; a result is \<open>(sts, transit, jitter)\<close>.\<close>

fun jitter_transit_loop ::
  "pyfloat \<Rightarrow> int option \<Rightarrow> (int \<times> int) list \<Rightarrow> (int \<times> int \<times> pyfloat) list"
where
  "jitter_transit_loop jitter prev [] = []"
| "jitter_transit_loop jitter prev ((sts, rts) # rows) =
     (let transit_time = rts - sts
      in if transit_time < 0 then jitter_transit_loop jitter prev rows
         else let j = (case prev of
                         None \<Rightarrow> jitter
                       | Some p \<Rightarrow> jitter_step jitter (mk_float (of_int \<bar>transit_time - p\<bar>)))
              in (sts, transit_time, j) # jitter_transit_loop j (Some transit_time) rows)"

definition compute_jitter_and_transit :: "(int \<times> int) list \<Rightarrow> (int \<times> int \<times> pyfloat) list" where
  "compute_jitter_and_transit rows = jitter_transit_loop (Fin 0) None rows"

text \<open>\<open>compute-iat.py\<close>: inter-arrival times and their jitter, in milliseconds.\<close>

fun diffs_ms :: "pyfloat list \<Rightarrow> pyfloat list" where
  "diffs_ms (a # b # xs) = float_mul (float_sub b a) (Fin 1000) # diffs_ms (b # xs)"
| "diffs_ms _ = []"

fun iat_jitter :: "pyfloat \<Rightarrow> pyfloat \<Rightarrow> pyfloat list \<Rightarrow> pyfloat list" where
  "iat_jitter j prev [] = []"
| "iat_jitter j prev (x # xs) =
     (let j' = float_add j (float_div_lit (float_sub (float_abs (float_sub x prev)) j) 16)
      in j' # iat_jitter j' x xs)"

text \<open>The data frame needs columns of one length.\<close>

definition compute_iat :: "string \<Rightarrow> (nat \<times> pyfloat \<times> pyfloat \<times> pyfloat) list result" where
  "compute_iat text =
     and_then (map_result (\<lambda>line. py_float (strip line)) (readlines text)) (\<lambda>arrival_times.
       let arrival_times_ms = map (\<lambda>t. float_mul t (Fin 1000)) arrival_times;
           iat_ms = Fin 0 # diffs_ms arrival_times;
           jitter_ms = Fin 0 # iat_jitter (Fin 0) (Fin 0) (tl iat_ms)
       in if length iat_ms \<noteq> length arrival_times_ms then Raise ValueError
          else Ok (zip [1..<Suc (length arrival_times)] (zip arrival_times_ms (zip iat_ms jitter_ms))))"

section \<open>Packet logs\<close>

text \<open>\<open>re.findall(r'packet,(\d+),(\d+),(\d+),(\d+)', text)\<close>\<close>

definition match_number :: "string \<Rightarrow> (string \<times> string) option" where
  "match_number s =
     (let ds = takeWhile is_dec s in if ds = [] then None else Some (ds, dropWhile is_dec s))"

definition match_char :: "char \<Rightarrow> string \<Rightarrow> string option" where
  "match_char c s = (case s of x # xs \<Rightarrow> (if x = c then Some xs else None) | [] \<Rightarrow> None)"

definition match_packet :: "string \<Rightarrow> ((string \<times> string \<times> string \<times> string) \<times> string) option" where
  "match_packet s =
     (if starts_with ''packet,'' s
      then Option.bind (match_number (drop 7 s)) (\<lambda>(a, s1).
           Option.bind (match_char (CHR '','') s1) (\<lambda>s2.
           Option.bind (match_number s2) (\<lambda>(b, s3).
           Option.bind (match_char (CHR '','') s3) (\<lambda>s4.
           Option.bind (match_number s4) (\<lambda>(c, s5).
           Option.bind (match_char (CHR '','') s5) (\<lambda>s6.
           Option.bind (match_number s6) (\<lambda>(d, s7). Some ((a, b, c, d), s7))))))))
      else None)"

lemma match_number_shorter: "match_number s = Some (ds, r) \<Longrightarrow> length r < length s"
proof -
  assume a: "match_number s = Some (ds, r)"
  then have "s = ds @ r" "ds \<noteq> []" by (auto simp: match_number_def Let_def split: if_splits)
  then show ?thesis by simp
qed

lemma match_char_shorter: "match_char c s = Some r \<Longrightarrow> length r < length s"
  by (auto simp: match_char_def split: list.splits if_splits)

lemma match_packet_shorter: "match_packet s = Some (m, r) \<Longrightarrow> length r < length s"
  by (auto simp: match_packet_def bind_eq_Some_conv split: if_splits
      dest!: match_number_shorter match_char_shorter)

function findall_packet :: "string \<Rightarrow> (string \<times> string \<times> string \<times> string) list" where
  "findall_packet s =
     (if s = [] then []
      else case match_packet s of
             Some (m, r) \<Rightarrow> m # findall_packet r
           | None \<Rightarrow> findall_packet (tl s))"
  by pat_completeness auto
termination
  by (relation "measure length") (auto dest: match_packet_shorter)

declare findall_packet.simps [simp del]

text \<open>\<open>parse_serverts\<close> and \<open>parse_clientts\<close> of \<open>rfc-jitter.py\<close>; the
  rows of the client file are what \<open>csv.reader\<close> yields.\<close>

definition parse_serverts :: "string \<Rightarrow> (int \<times> int \<times> int) list result" where
  "parse_serverts text =
     map_result (\<lambda>(epoch, port, tcp_seq, tcp_ack).
        and_then (py_int epoch) (\<lambda>e. and_then (py_int tcp_seq) (\<lambda>s.
        and_then (py_int tcp_ack) (\<lambda>a. Ok (e, s, a)))))
       (filter (\<lambda>(epoch, port, tcp_seq, tcp_ack). port = ''50730'') (findall_packet text))"

definition parse_clientts :: "string list list \<Rightarrow> (int \<times> int \<times> int) list result" where
  "parse_clientts rows =
     map_result (\<lambda>row.
        and_then (py_index row 0) (\<lambda>r0. and_then (py_float r0) (\<lambda>x.
        and_then (int_of_float (float_mul x (Fin 1000))) (\<lambda>epoch_time.
        and_then (py_index row 1) (\<lambda>r1. and_then (py_int r1) (\<lambda>tcp_seq.
        and_then (py_index row 2) (\<lambda>r2. and_then (py_int r2) (\<lambda>tcp_ack.
          Ok (epoch_time, tcp_seq, tcp_ack)))))))) ) rows"

text \<open>A packet of a capture: the TCP sequence number, if there is a TCP layer,
  and the sniff timestamp.\<close>

record pcap_packet =
  tcp_seq_text :: "string option"
  sniff_timestamp :: string

fun parse_pcap_loop :: "int \<Rightarrow> pcap_packet list \<Rightarrow> (int \<times> pyfloat) list \<Rightarrow> (int \<times> pyfloat) list result" where
  "parse_pcap_loop n [] packets = Ok packets"
| "parse_pcap_loop n (p # ps) packets =
     (if n - 1 \<le> 0 then Ok packets
      else case tcp_seq_text p of
             None \<Rightarrow> parse_pcap_loop (n - 1) ps packets
           | Some q \<Rightarrow> and_then (py_int q) (\<lambda>seq_num. and_then (py_float (sniff_timestamp p)) (\<lambda>ts.
               parse_pcap_loop (n - 1) ps (packets @ [(seq_num, ts)]))))"

definition parse_pcap :: "pcap_packet list \<Rightarrow> (int \<times> pyfloat) list result" where
  "parse_pcap capture = parse_pcap_loop 200 capture []"

section \<open>Matching sent and received packets\<close>

type_synonym sender_dict = "int \<rightharpoonup> int \<times> int"

text \<open>The earliest send time of each sequence number.\<close>

fun sender_loop :: "(int \<times> int \<times> int) list \<Rightarrow> sender_dict \<Rightarrow> sender_dict" where
  "sender_loop [] d = d"
| "sender_loop ((send_time, tcp_seq, tcp_ack) # sender) d =
     (case d tcp_seq of
        Some (t, a) \<Rightarrow>
          (if send_time > t then sender_loop sender d
           else sender_loop sender (d(tcp_seq \<mapsto> (send_time, tcp_ack))))
      | None \<Rightarrow> sender_loop sender (d(tcp_seq \<mapsto> (send_time, tcp_ack))))"

text \<open>The result rows \<open>(seq, ack, send_ts, recv_ts)\<close> below the header.\<close>

fun receiver_loop ::
  "sender_dict \<Rightarrow> (int \<times> int \<times> int) list \<Rightarrow> int set \<Rightarrow> (int \<times> int \<times> int \<times> int) list"
where
  "receiver_loop d [] seen = []"
| "receiver_loop d ((receive_time, tcp_seq, tcp_ack) # receiver) seen =
     (case d tcp_seq of
        None \<Rightarrow> receiver_loop d receiver seen
      | Some (send_time, sender_ack) \<Rightarrow>
          (if tcp_ack \<noteq> sender_ack then receiver_loop d receiver seen
           else if tcp_seq \<notin> seen
           then (tcp_seq, tcp_ack, send_time, receive_time) # receiver_loop d receiver (insert tcp_seq seen)
           else receiver_loop d receiver seen))"

definition map_packets ::
  "(int \<times> int \<times> int) list \<Rightarrow> (int \<times> int \<times> int) list \<Rightarrow> (int \<times> int \<times> int \<times> int) list"
where
  "map_packets sender receiver = receiver_loop (sender_loop sender Map.empty) receiver {}"

section \<open>Data frames of packets\<close>

record packet =
  p_epoch :: pyfloat
  p_time :: pyfloat
  p_port :: int
  p_seq :: int
  p_ack :: int
  p_len :: int

text \<open>\<open>process_server_log\<close>: a frame with no row has no column \<open>epoch\<close>.\<close>

definition process_server_log :: "string \<Rightarrow> int \<Rightarrow> packet list result" where
  "process_server_log text target_port =
     and_then (map_result (\<lambda>(epoch, port, tcp_seq, tcp_ack).
          and_then (py_int port) (\<lambda>p.
          if p = target_port
          then and_then (py_float epoch) (\<lambda>e. and_then (py_int tcp_seq) (\<lambda>s.
               and_then (py_int tcp_ack) (\<lambda>a. Ok (Some (float_div_lit e 1000, s, a)))))
          else Ok None)) (findall_packet text)) (\<lambda>parsed.
       case concat (map (\<lambda>r. case r of Some x \<Rightarrow> [x] | None \<Rightarrow> []) parsed) of
         [] \<Rightarrow> Raise KeyError
       | (e0, s0, a0) # rows \<Rightarrow>
           Ok (map (\<lambda>(e, s, a). \<lparr>p_epoch = e, p_time = float_sub e e0, p_port = target_port, p_seq = s, p_ack = a, p_len = 0\<rparr>)
                 ((e0, s0, a0) # rows)))"

section \<open>Properties of the jitter filters\<close>

lemma float_abs_mk_float: "float_abs (mk_float x) = mk_float \<bar>x\<bar>"
proof -
  have nonneg: "float_abs (mk_float y) = mk_float y" if "0 \<le> y" for y
    using double.rnd_nonneg[OF that] by (simp add: mk_float_def Let_def)
  have flip: "mk_float (- y) = float_neg (mk_float y)" for y
    by (simp add: mk_float_def Let_def fl_minus)
  have "float_abs (float_neg f) = float_abs f" for f by (cases f) auto
  then show ?thesis
    using nonneg[of x] nonneg[of "- x"] flip[of x] by (cases "0 \<le> x") auto
qed

lemma jitter_step_bounds:
  assumes "is_double b" "b \<le> 2 ^ 1000" "is_double j" "0 \<le> j" "j \<le> b" "0 \<le> d" "d \<le> b"
  shows "\<exists>j'. jitter_step (Fin j) (Fin d) = Fin j' \<and> is_double j' \<and> 0 \<le> j' \<and> j' \<le> b"
proof -
  have big: "(2::rat) ^ 1000 + 2 ^ 1000 \<le> 2 ^ 1023" by simp
  have d: "\<bar>fl (d - j)\<bar> \<le> b" using assms by (intro fl_abs_le) auto
  then have q: "\<bar>fl (fl (d - j) / 16)\<bar> \<le> b" using assms(1) by (intro fl_abs_le) auto
  have "jitter_step (Fin j) (Fin d) = Fin (fl (j + fl (fl (d - j) / 16)))"
    using assms d q big by (simp add: jitter_step_def float_sub_Fin mk_float_Fin)
  then show ?thesis
    using double.filter_step_le[of b j d] double.filter_step_nonneg[of j d] assms
    by (auto intro: is_double_fl)
qed

lemma jitter_loop_length: "length (jitter_loop j p ts) = length ts"
  by (induction j p ts rule: jitter_loop.induct) (auto simp: Let_def)

lemma jitter_loop_bounds:
  assumes "is_double D" "D \<le> 2 ^ 1000" "is_double j" "0 \<le> j" "j \<le> D"
    and "L \<le> p" "p \<le> U" "U - L \<le> D" "\<forall>x \<in> set xs. L \<le> x \<and> x \<le> U"
  shows "\<forall>y \<in> set (jitter_loop (Fin j) (Fin p) (map Fin xs)). \<exists>v. y = Fin v \<and> 0 \<le> v \<and> v \<le> D"
  using assms(3-)
proof (induction xs arbitrary: j p)
  case Nil
  then show ?case by simp
next
  case (Cons x xs)
  have D0: "0 \<le> D" using Cons.prems by linarith
  show ?case
  proof (cases "x < 0")
    case True
    with Cons D0 show ?thesis by auto
  next
    case False
    have diff: "\<bar>x - p\<bar> \<le> D" using Cons.prems by (auto simp: abs_le_iff)
    have fin: "float_abs (float_sub (Fin x) (Fin p)) = Fin (fl \<bar>x - p\<bar>)"
      unfolding float_sub_Fin float_abs_mk_float using diff assms(2) by (intro mk_float_Fin) simp
    have "0 \<le> fl \<bar>x - p\<bar>" "fl \<bar>x - p\<bar> \<le> D"
      using diff assms(1) by (auto intro: double.rnd_nonneg double.rnd_le_repr)
    then obtain j' where j': "jitter_step (Fin j) (Fin (fl \<bar>x - p\<bar>)) = Fin j'"
        "is_double j'" "0 \<le> j'" "j' \<le> D"
      using jitter_step_bounds[OF assms(1,2)] Cons.prems by blast
    have "\<forall>y \<in> set (jitter_loop (Fin j') (Fin x) (map Fin xs)). \<exists>v. y = Fin v \<and> 0 \<le> v \<and> v \<le> D"
      using Cons.prems j' by (intro Cons.IH) auto
    with False j' fin show ?thesis by (simp add: Let_def)
  qed
qed

lemma jitter_loop_negative:
  "i < length ts \<Longrightarrow> float_lt (ts ! i) (Fin 0) \<Longrightarrow> jitter_loop j p ts ! i = Fin 0"
proof (induction ts arbitrary: i j p)
  case (Cons t ts)
  then show ?case by (cases i) (auto simp: Let_def)
qed simp

text \<open>(C26) The jitter of a run of transit times: with every transit time finite
  and in \<open>[L, U]\<close>, \<open>calculate_jitter\<close> returns one value per row, the
  first is 0, rows whose transit time is negative get 0 and are counted, and
  no value, with every operation rounded to a double, leaves
  \<open>[0, D]\<close>, where \<open>D\<close> is any double at least \<open>U - L\<close>.\<close>

theorem calculate_jitter_bounds:
  assumes "xs \<noteq> []" "\<forall>x \<in> set xs. L \<le> x \<and> x \<le> U"
    and "U - L \<le> D" "is_double D" "D \<le> 2 ^ 1000"
  shows "\<exists>js n. calculate_jitter (map Fin xs) = Inr (js, n)
    \<and> length js = length xs \<and> js ! 0 = Fin 0
    \<and> n = card {i. 0 < i \<and> i < length xs \<and> xs ! i < 0}
    \<and> (\<forall>i. 0 < i \<and> i < length xs \<and> xs ! i < 0 \<longrightarrow> js ! i = Fin 0)
    \<and> (\<forall>y \<in> set js. \<exists>v. y = Fin v \<and> 0 \<le> v \<and> v \<le> D)"
proof -
  obtain t ts where xs: "xs = t # ts" using assms(1) by (cases xs) auto
  let ?js = "jitter_loop (Fin 0) (Fin t) (map Fin ts)"
  have "0 \<le> D" using assms(2,3) by (auto simp: xs)
  then have bounds: "\<forall>y \<in> set ?js. \<exists>v. y = Fin v \<and> 0 \<le> v \<and> v \<le> D"
    using assms by (intro jitter_loop_bounds[where L = L and U = U]) (auto simp: xs)
  have "{i. 0 < i \<and> i < length xs \<and> xs ! i < 0} = Suc ` {i. i < length ts \<and> ts ! i < 0}"
    by (auto simp: xs image_iff gr0_conv_Suc)
  then have "card {i. 0 < i \<and> i < length xs \<and> xs ! i < 0} = length (filter (\<lambda>x. x < 0) ts)"
    by (simp add: length_filter_conv_card card_image)
  moreover have "length (filter (\<lambda>x. float_lt x (Fin 0)) (map Fin ts)) = length (filter (\<lambda>x. x < 0) ts)"
    by (simp add: filter_map comp_def)
  moreover have "js ! i = Fin 0"
    if "js = Fin 0 # ?js" "0 < i \<and> i < length xs \<and> xs ! i < 0" for i js
    using that jitter_loop_negative[of "i - 1" "map Fin ts"] by (cases i) (auto simp: xs)
  ultimately show ?thesis
    using bounds \<open>0 \<le> D\<close> by (auto simp: xs calculate_jitter_def jitter_loop_length)
qed

theorem calculate_jitter_bounds_witness:
  "\<exists>js n. calculate_jitter (map Fin [20, 36, - 4]) = Inr (js, n) \<and> length js = 3 \<and> n = 1"
proof -
  have "is_double 40" using is_double_int[of 40] by simp
  moreover have "card {i. 0 < i \<and> i < length [20, 36, - 4 :: rat] \<and> [20, 36, - 4 :: rat] ! i < 0} = card {2::nat}"
    by (rule arg_cong[of _ _ card]) (auto simp: less_Suc_eq numeral_3_eq_3)
  ultimately show ?thesis
    using calculate_jitter_bounds[of "[20, 36, - 4]" "- 4" 36 40] by force
qed

lemma jitter_transit_loop_map:
  "map (\<lambda>(s, t, j). (s, t)) (jitter_transit_loop j p rows)
     = map (\<lambda>(s, r). (s, r - s)) (filter (\<lambda>(s, r). s \<le> r) rows)"
  by (induction j p rows rule: jitter_transit_loop.induct) (auto simp: Let_def)

lemma jitter_transit_loop_jitter:
  "map (\<lambda>(s, t, j). j) (jitter_transit_loop j (Some p) rows)
     = jitter_loop j (Fin (of_int p)) (map (\<lambda>(s, r). Fin (of_int (r - s))) (filter (\<lambda>(s, r). s \<le> r) rows))"
proof (induction rows arbitrary: j p)
  case (Cons row rows)
  obtain s r where row: "row = (s, r)" by (cases row)
  have "float_abs (float_sub (Fin (of_int (r - s))) (Fin (of_int p))) = mk_float (of_int \<bar>r - s - p\<bar>)"
    by (simp add: float_sub_Fin float_abs_mk_float)
  then show ?case
    by (cases "r < s") (simp_all add: row Cons.IH Let_def)
qed simp

text \<open>(C27) The two jitter implementations agree:
  \<open>compute_jitter_and_transit\<close> of \<open>rfc-jitter.py\<close> returns exactly the
  rows that were not received before they were sent, in order, and its jitter
  column is what \<open>calculate_jitter\<close> of \<open>parse-logs.py\<close> computes on
  the transit times of those rows, with no error counted.\<close>

theorem compute_jitter_agrees:
  fixes rows :: "(int \<times> int) list"
  defines "good \<equiv> filter (\<lambda>(sts, rts). sts \<le> rts) rows"
  shows "map (\<lambda>(sts, t, j). (sts, t)) (compute_jitter_and_transit rows)
      = map (\<lambda>(sts, rts). (sts, rts - sts)) good
    \<and> calculate_jitter (map (\<lambda>(sts, rts). Fin (of_int (rts - sts))) good)
      = (if good = [] then Raise IndexError
         else Ok (map (\<lambda>(sts, t, j). j) (compute_jitter_and_transit rows), 0))"
proof -
  have "map (\<lambda>(s, t, j). j) (jitter_transit_loop (Fin 0) None rows)
    = (case good of [] \<Rightarrow> []
       | (s, r) # rest \<Rightarrow> Fin 0 # jitter_loop (Fin 0) (Fin (of_int (r - s)))
                                 (map (\<lambda>(s, r). Fin (of_int (r - s))) rest))"
    unfolding good_def
    by (induction rows) (auto simp: Let_def jitter_transit_loop_jitter split: prod.splits)
  moreover have "filter (\<lambda>x. float_lt x (Fin 0)) (map (\<lambda>(s, r). Fin (of_int (r - s))) g) = []"
    if "set g \<subseteq> set good" for g
    using that by (fastforce simp: filter_empty_conv good_def)
  from this[of "tl good"] have "length (filter (\<lambda>x. float_lt x (Fin 0))
      (map (\<lambda>(s, r). Fin (of_int (r - s))) (tl good))) = 0"
    by (metis list.size(3) list.set_sel(2) subsetI list.sel(2))
  ultimately show ?thesis
    by (cases good) (auto simp: compute_jitter_and_transit_def jitter_transit_loop_map good_def
        calculate_jitter_def split: prod.splits)
qed


section \<open>Properties of inter-arrival times\<close>

lemma diffs_ms_nth:
  "Suc i < length ts \<Longrightarrow> diffs_ms ts ! i = float_mul (float_sub (ts ! Suc i) (ts ! i)) (Fin 1000)"
proof (induction ts arbitrary: i rule: diffs_ms.induct)
  case (1 a b xs)
  then show ?case by (cases i) auto
qed auto

lemma diffs_ms_length [simp]: "length (diffs_ms ts) = length ts - 1"
  by (induction ts rule: diffs_ms.induct) auto

lemma iat_jitter_length [simp]: "length (iat_jitter j p xs) = length xs"
  by (induction j p xs rule: iat_jitter.induct) (auto simp: Let_def)

lemma iat_jitter_is_jitter_loop:
  "\<forall>x \<in> set xs. \<not> float_lt x (Fin 0) \<Longrightarrow> iat_jitter j p xs = jitter_loop j p xs"
  by (induction j p xs rule: iat_jitter.induct) (auto simp: Let_def jitter_step_def)

text \<open>\<open>compute-iat.py\<close>: a file with no line raises, as does a line
  that is no number; otherwise the table numbers the packets from 1, holds
  each arrival time and each distance to the previous arrival in milliseconds
  (0 for the first), and, when no inter-arrival time is negative, its jitter
  column is \<open>calculate_jitter\<close> of the inter-arrival times.\<close>

lemma compute_iat_table:
  assumes "map_result (\<lambda>line. py_float (strip line)) (readlines text) = Inr ts"
  shows "if ts = [] then compute_iat text = Raise ValueError
    else \<exists>rows. compute_iat text = Ok rows \<and> length rows = length ts
      \<and> (\<forall>i < length ts. fst (rows ! i) = Suc i
            \<and> fst (snd (rows ! i)) = float_mul (ts ! i) (Fin 1000)
            \<and> fst (snd (snd (rows ! i))) = (if i = 0 then Fin 0
                 else float_mul (float_sub (ts ! i) (ts ! (i - 1))) (Fin 1000)))
      \<and> ((\<forall>row \<in> set rows. \<not> float_lt (fst (snd (snd row))) (Fin 0)) \<longrightarrow>
           calculate_jitter (map (fst \<circ> snd \<circ> snd) rows) = Ok (map (snd \<circ> snd \<circ> snd) rows, 0))"
proof (cases "ts = []")
  case True
  then show ?thesis using assms by (simp add: compute_iat_def Let_def)
next
  case False
  let ?js = "Fin 0 # iat_jitter (Fin 0) (Fin 0) (diffs_ms ts)"
  define rows where "rows = zip [1..<Suc (length ts)]
    (zip (map (\<lambda>t. float_mul t (Fin 1000)) ts) (zip (Fin 0 # diffs_ms ts) ?js))"
  have len: "Suc (length ts - 1) = length ts" using False by (cases ts) auto
  have ok: "compute_iat text = Ok rows"
    using assms len by (simp add: compute_iat_def Let_def rows_def del: upt_Suc)
  have length: "length rows = length ts" using len by (simp add: rows_def del: upt_Suc)
  have iats: "map (fst \<circ> snd \<circ> snd) rows = Fin 0 # diffs_ms ts"
    by (rule nth_equalityI) (use len in \<open>auto simp: rows_def nth_Cons' simp del: upt_Suc\<close>)
  have jits: "map (snd \<circ> snd \<circ> snd) rows = ?js"
    by (rule nth_equalityI) (use len in \<open>auto simp: rows_def nth_Cons' simp del: upt_Suc\<close>)
  have "(\<forall>row \<in> set rows. \<not> float_lt (fst (snd (snd row))) (Fin 0))
      \<longleftrightarrow> (\<forall>x \<in> set (map (fst \<circ> snd \<circ> snd) rows). \<not> float_lt x (Fin 0))" by auto
  then have jitter: "calculate_jitter (map (fst \<circ> snd \<circ> snd) rows) = Ok (map (snd \<circ> snd \<circ> snd) rows, 0)"
    if "\<forall>row \<in> set rows. \<not> float_lt (fst (snd (snd row))) (Fin 0)"
    using that unfolding iats jits
    by (simp add: calculate_jitter_def iat_jitter_is_jitter_loop filter_empty_conv)
  have "fst (rows ! i) = Suc i
      \<and> fst (snd (rows ! i)) = float_mul (ts ! i) (Fin 1000)
      \<and> fst (snd (snd (rows ! i))) = (if i = 0 then Fin 0
           else float_mul (float_sub (ts ! i) (ts ! (i - 1))) (Fin 1000))" if "i < length ts" for i
    using that len by (auto simp: rows_def nth_Cons' diffs_ms_nth simp del: upt_Suc)
  then show ?thesis using False ok length jitter by (simp add: exI[of _ rows])
qed

section \<open>Properties of packet logs\<close>

text \<open>A log as the emulator writes it: packet lines behind the logger's
  prefix, and lines of anything else.\<close>

datatype log_line = Packet_line string nat nat nat nat | Other_line string

fun render_line :: "log_line \<Rightarrow> string" where
  "render_line (Packet_line pre e p s a) =
     pre @ ''packet,'' @ string_of_nat e @ '','' @ string_of_nat p @ '','' @
     string_of_nat s @ '','' @ string_of_nat a @ [newline]"
| "render_line (Other_line t) = t @ [newline]"

fun log_line_ok :: "log_line \<Rightarrow> bool" where
  "log_line_ok (Packet_line pre e p s a) = (\<not> contains ''packet,'' pre)"
| "log_line_ok (Other_line t) = (\<not> contains ''packet,'' t)"

definition packet_lines :: "log_line list \<Rightarrow> (nat \<times> nat \<times> nat \<times> nat) list" where
  "packet_lines ls = concat (map (\<lambda>l. case l of Packet_line pre e p s a \<Rightarrow> [(e, p, s, a)] | _ \<Rightarrow> []) ls)"

lemma match_number_nat:
  "\<not> is_dec c \<Longrightarrow> match_number (string_of_nat n @ c # s) = Some (string_of_nat n, c # s)"
  using string_of_nat_dec[of n]
  by (simp add: match_number_def Let_def list_all_iff takeWhile_append2 dropWhile_append2)

lemma no_straddle:
  assumes "c \<notin> set ''acket,''" "\<not> starts_with ''packet,'' (x # t)"
  shows "match_packet (x # t @ c # s) = None"
proof (rule ccontr)
  have seven: "length ''packet,'' = 7" by simp
  assume "match_packet (x # t @ c # s) \<noteq> None"
  then have "starts_with ''packet,'' (x # t @ c # s)"
    unfolding match_packet_def by (auto split: if_splits)
  then have st: "take 7 (x # t @ c # s) = ''packet,''"
    unfolding starts_with_def by (simp only: seven)
  show False
  proof (cases "length t < 6")
    case True
    then have "(x # t @ c # s) ! Suc (length t) = ''packet,'' ! Suc (length t)"
      using st by (metis Suc_mono nth_take numeral_eq_Suc pred_numeral_simps(2,3) semiring_norm(26,27,28))
    moreover have "''packet,'' ! Suc (length t) \<in> set ''acket,''"
      using nth_mem[of "length t" "''acket,''"] True by simp
    ultimately show False using assms(1) by simp
  next
    case False
    then have "take 7 (x # t @ c # s) = take 7 (x # t)" by simp
    then show False using st assms(2) unfolding starts_with_def seven by simp
  qed
qed

lemma findall_skip:
  "c \<notin> set ''acket,'' \<Longrightarrow> \<not> contains ''packet,'' t \<Longrightarrow>
   findall_packet (t @ c # s) = findall_packet (c # s)"
proof (induction t)
  case (Cons x t)
  then have "match_packet (x # t @ c # s) = None" by (intro no_straddle) auto
  then show ?case using Cons by (simp add: findall_packet.simps[of "x # t @ c # s"])
qed simp

lemma findall_newline: "findall_packet (newline # s) = findall_packet s"
  by (subst findall_packet.simps) (simp add: match_packet_def starts_with_def newline_def)

lemma findall_render:
  assumes "log_line_ok l"
  shows "findall_packet (render_line l @ s) =
    (case l of Packet_line pre e p sq a \<Rightarrow>
       [(string_of_nat e, string_of_nat p, string_of_nat sq, string_of_nat a)] | _ \<Rightarrow> []) @ findall_packet s"
proof (cases l)
  case (Packet_line pre e p sq a)
  let ?body = "''acket,'' @ string_of_nat e @ '','' @ string_of_nat p @ '','' @
     string_of_nat sq @ '','' @ string_of_nat a @ newline # s"
  have nd: "\<not> is_dec (CHR '','')" "\<not> is_dec newline"
    by (simp_all add: is_dec_def code_pt_def newline_def)
  have "match_packet (CHR ''p'' # ?body)
      = Some ((string_of_nat e, string_of_nat p, string_of_nat sq, string_of_nat a), newline # s)"
    using nd by (simp add: match_packet_def starts_with_def match_number_nat match_char_def)
  then have "findall_packet (CHR ''p'' # ?body)
      = (string_of_nat e, string_of_nat p, string_of_nat sq, string_of_nat a) # findall_packet s"
    by (subst findall_packet.simps) (simp add: findall_newline)
  then show ?thesis
    using assms findall_skip[of "CHR ''p''" pre ?body] by (simp add: Packet_line)
next
  case (Other_line t)
  have "newline \<notin> set ''acket,''" by (simp add: newline_def)
  from findall_skip[OF this] show ?thesis using assms by (simp add: Other_line findall_newline)
qed

lemma findall_log:
  "\<forall>l \<in> set ls. log_line_ok l \<Longrightarrow>
   findall_packet (concat (map render_line ls))
     = map (\<lambda>(e, p, s, a). (string_of_nat e, string_of_nat p, string_of_nat s, string_of_nat a)) (packet_lines ls)"
proof (induction ls)
  case Nil
  then show ?case by (simp add: packet_lines_def findall_packet.simps)
next
  case (Cons l ls)
  then show ?case by (simp add: findall_render packet_lines_def split: log_line.splits)
qed


text \<open>Reading a packet log: from the text the emulator's logger writes
  (packet lines behind any prefix, among any other lines),
  \<open>parse_serverts\<close> returns the epoch, sequence and acknowledgement numbers
  of exactly the packets of port 50730, in order.\<close>

lemma parse_serverts_log:
  assumes "\<forall>l \<in> set ls. log_line_ok l"
  shows "parse_serverts (concat (map render_line ls))
    = Ok (map (\<lambda>(e, p, s, a). (int e, int s, int a)) (filter (\<lambda>(e, p, s, a). p = 50730) (packet_lines ls)))"
proof -
  have port: "string_of_nat p = ''50730'' \<longleftrightarrow> p = 50730" for p
  proof
    assume "string_of_nat p = ''50730''"
    then have "digits_val (string_of_nat p) = digits_val ''50730''" by simp
    then show "p = 50730" by (simp add: digits_val_string_of_nat) (simp add: str_simps)
  next
    have "string_of_nat 50730 = ''50730''" by (simp add: string_of_nat.simps char_of_eq_iff)
    then show "p = 50730 \<Longrightarrow> string_of_nat p = ''50730''" by simp
  qed
  show ?thesis
    unfolding parse_serverts_def findall_log[OF assms] filter_map
    by (subst map_result_pure[where g = "\<lambda>(e, p, s, a). (int (digits_val e), int (digits_val s), int (digits_val a))"])
      (auto simp: port comp_def case_prod_unfold digits_val_string_of_nat)
qed

text \<open>\<open>process_server_log\<close> on such a log: every packet of the target
  port becomes a row whose epoch is the logged milliseconds in seconds and
  whose time is counted from the first of these packets; a log without a
  packet of that port raises.\<close>

lemma process_server_log_rows:
  fixes target_port :: int
  assumes "\<forall>l \<in> set ls. log_line_ok l" "\<forall>(e, p, s, a) \<in> set (packet_lines ls). e \<le> 2 ^ 53"
  defines "mine \<equiv> filter (\<lambda>(e, p, s, a). int p = target_port) (packet_lines ls)"
  shows "process_server_log (concat (map render_line ls)) target_port =
    (case mine of [] \<Rightarrow> Raise KeyError
     | (e0, _) # _ \<Rightarrow> Ok (map (\<lambda>(e, p, s, a).
         \<lparr>p_epoch = mk_float (of_nat e / 1000),
          p_time = float_sub (mk_float (of_nat e / 1000)) (mk_float (of_nat e0 / 1000)),
          p_port = target_port, p_seq = int s, p_ack = int a, p_len = 0\<rparr>) mine))"
proof -
  let ?row = "\<lambda>(e :: nat, p :: nat, s :: nat, a :: nat). (mk_float (of_nat e / 1000), int s, int a)"
  have fl: "py_float (string_of_nat e) = Inr (mk_float (of_nat e))" for e by (rule py_float_string_of_nat)
  have e1000: "float_div_lit (mk_float (of_nat e)) 1000 = mk_float (of_nat e / 1000)"
    if "e \<le> 2 ^ 53" for e :: nat
    using that mk_float_int[of "int e"] by simp
  let ?f = "\<lambda>(epoch, port, tcp_seq, tcp_ack).
      and_then (py_int port) (\<lambda>p.
          if p = target_port
          then and_then (py_float epoch) (\<lambda>e. and_then (py_int tcp_seq) (\<lambda>s.
               and_then (py_int tcp_ack) (\<lambda>a. Ok (Some (float_div_lit e 1000, s, a)))))
          else Ok None)"
  have "map_result ?f (findall_packet (concat (map render_line ls)))
    = Ok (map (\<lambda>(e, p, s, a). if int p = target_port then Some (?row (e, p, s, a)) else None) (packet_lines ls))"
    unfolding findall_log[OF assms(1)] map_result_Ok_iff list_all2_map1 list_all2_map2
    using assms(2) by (simp add: list_all2_same) (auto simp: fl e1000)
  moreover have "concat (map (\<lambda>r. case r of Some x \<Rightarrow> [x] | None \<Rightarrow> [])
      (map (\<lambda>(e, p, s, a). if int p = target_port then Some (?row (e, p, s, a)) else None) qs))
      = map ?row (filter (\<lambda>(e, p, s, a). int p = target_port) qs)" for qs
    by (induction qs) auto
  ultimately show ?thesis
    by (auto simp: process_server_log_def mine_def case_prod_unfold split: list.splits)
qed

text \<open>\<open>parse_pcap\<close> reads exactly the first 199 packets of a capture,
  skips those without a TCP layer, and returns the sequence number and the
  timestamp of the others in order; the first malformed number ends it with an
  exception.\<close>

lemma parse_pcap_first:
  "parse_pcap capture =
     map_result (\<lambda>p. and_then (py_int (the (tcp_seq_text p))) (\<lambda>seq_num.
         and_then (py_float (sniff_timestamp p)) (\<lambda>ts. Ok (seq_num, ts))))
       (filter (\<lambda>p. tcp_seq_text p \<noteq> None) (take 199 capture))"
proof -
  let ?f = "\<lambda>p. and_then (py_int (the (tcp_seq_text p))) (\<lambda>seq_num.
         and_then (py_float (sniff_timestamp p)) (\<lambda>ts. Ok (seq_num, ts)))"
  have "parse_pcap_loop (int (Suc k)) capture acc = and_then
      (map_result ?f (filter (\<lambda>p. tcp_seq_text p \<noteq> None) (take k capture))) (\<lambda>ys. Ok (acc @ ys))" for k acc
  proof (induction k arbitrary: capture acc)
    case 0
    then show ?case by (cases capture) auto
  next
    case (Suc k)
    show ?case
    proof (cases capture)
      case (Cons p ps)
      have "int (Suc (Suc k)) - 1 = int (Suc k)" by simp
      then show ?thesis
        by (cases "tcp_seq_text p"; cases "py_int (the (tcp_seq_text p))"; cases "py_float (sniff_timestamp p)")
          (auto simp: Cons Suc.IH[simplified] and_then_assoc)
    qed simp
  qed
  from this[of 199 "[]"] show ?thesis
    unfolding parse_pcap_def
    by (cases "map_result ?f (filter (\<lambda>p. tcp_seq_text p \<noteq> None) (take 199 capture))") simp_all
qed

section \<open>Properties of the packet matching\<close>

text \<open>The sender entry a sequence number stands for: of its packets, one with
  the earliest send time, the last of these in the log.\<close>

definition earliest_send :: "(int \<times> int \<times> int) list \<Rightarrow> int \<Rightarrow> int \<Rightarrow> int \<Rightarrow> bool" where
  "earliest_send sender s t a \<longleftrightarrow> (\<exists>xs ys. sender = xs @ (t, s, a) # ys
     \<and> (\<forall>t' a'. (t', s, a') \<in> set xs \<longrightarrow> t \<le> t') \<and> (\<forall>t' a'. (t', s, a') \<in> set ys \<longrightarrow> t < t'))"

text \<open>The first receiver packet with these numbers.\<close>

definition first_receipt :: "(int \<times> int \<times> int) list \<Rightarrow> int \<Rightarrow> int \<Rightarrow> int \<Rightarrow> bool" where
  "first_receipt receiver s a t \<longleftrightarrow>
     (\<exists>xs ys. receiver = xs @ (t, s, a) # ys \<and> (\<forall>t'. (t', s, a) \<notin> set xs))"

lemma earliest_send_snoc:
  "earliest_send (sender @ [(t', s', a')]) s t a \<longleftrightarrow>
     earliest_send sender s t a \<and> (s' = s \<longrightarrow> t < t')
     \<or> s' = s \<and> t' = t \<and> a' = a \<and> (\<forall>u b. (u, s, b) \<in> set sender \<longrightarrow> t \<le> u)"
  (is "?l \<longleftrightarrow> ?r1 \<or> ?r2")
proof
  assume ?l
  then obtain xs ys where d: "sender @ [(t', s', a')] = xs @ (t, s, a) # ys"
      "\<forall>t' a'. (t', s, a') \<in> set xs \<longrightarrow> t \<le> t'" "\<forall>t' a'. (t', s, a') \<in> set ys \<longrightarrow> t < t'"
    unfolding earliest_send_def by blast
  show "?r1 \<or> ?r2"
  proof (cases ys rule: rev_cases)
    case (snoc ys' y)
    then have "sender = xs @ (t, s, a) # ys'" "y = (t', s', a')" using d(1) by auto
    then have "?r1" using d(2,3) snoc unfolding earliest_send_def
      by (intro conjI exI[of _ xs] exI[of _ ys']) auto
    then show ?thesis ..
  qed (use d in auto)
next
  assume "?r1 \<or> ?r2"
  then show ?l
  proof
    assume r1: ?r1
    then obtain xs ys where "sender = xs @ (t, s, a) # ys"
      "\<forall>t' a'. (t', s, a') \<in> set xs \<longrightarrow> t \<le> t'" "\<forall>t' a'. (t', s, a') \<in> set ys \<longrightarrow> t < t'"
      unfolding earliest_send_def by blast
    then show ?l using r1 unfolding earliest_send_def
      by (intro exI[of _ xs] exI[of _ "ys @ [(t', s', a')]"]) auto
  next
    assume ?r2
    then show ?l unfolding earliest_send_def by (intro exI[of _ sender] exI[of _ "[]"]) auto
  qed
qed

lemma earliest_send_min: "earliest_send sender s t a \<Longrightarrow> (t', s, a') \<in> set sender \<Longrightarrow> t \<le> t'"
  unfolding earliest_send_def by fastforce

lemma sender_loop_append: "sender_loop (xs @ ys) d = sender_loop ys (sender_loop xs d)"
proof (induction xs arbitrary: d)
  case (Cons x xs)
  obtain t s a where x: "x = (t, s, a)" by (cases x) auto
  show ?case unfolding x append_Cons sender_loop.simps
    by (cases "d s") (auto simp only: Cons.IH option.case prod.case split: prod.splits if_splits)
qed simp

lemma sender_loop_None:
  "sender_loop sender Map.empty s = None \<longleftrightarrow> (\<forall>t a. (t, s, a) \<notin> set sender)"
proof (induction sender rule: rev_induct)
  case (snoc x sender)
  then show ?case by (cases x) (auto simp: sender_loop_append split: option.splits)
qed simp

lemma sender_loop_earliest:
  "sender_loop sender Map.empty s = Some (t, a) \<longleftrightarrow> earliest_send sender s t a"
proof (induction sender arbitrary: s t a rule: rev_induct)
  case Nil
  then show ?case by (simp add: earliest_send_def)
next
  case (snoc x sender)
  obtain t' s' a' where x: "x = (t', s', a')" by (cases x) auto
  let ?d = "sender_loop sender Map.empty"
  show ?case
  proof (cases "s' = s")
    case False
    then show ?thesis
      by (simp add: x earliest_send_snoc sender_loop_append snoc.IH[symmetric] split: option.splits)
  next
    case True
    show ?thesis
    proof (cases "?d s")
      case None
      then have "\<not> earliest_send sender s t a" using snoc.IH[of s t a] by simp
      moreover have "\<forall>u b. (u, s, b) \<notin> set sender" using None sender_loop_None by blast
      ultimately show ?thesis using None True
        by (auto simp: x earliest_send_snoc sender_loop_append)
    next
      case (Some p)
      obtain u b where p: "p = (u, b)" by (cases p)
      then have e: "earliest_send sender s u b" using Some snoc.IH[of s u b] by simp
      then have mem: "(u, s, b) \<in> set sender" unfolding earliest_send_def by auto
      have uniq: "earliest_send sender s t a \<longleftrightarrow> u = t \<and> b = a"
        using Some p snoc.IH[of s t a] by auto
      show ?thesis
        using Some p True mem earliest_send_min[OF e] uniq
        by (auto simp: x earliest_send_snoc sender_loop_append) (force)+
    qed
  qed
qed

lemma receiver_loop_distinct:
  "distinct (map fst (receiver_loop d receiver seen)) \<and> fst ` set (receiver_loop d receiver seen) \<inter> seen = {}"
proof (induction receiver arbitrary: seen)
  case (Cons x receiver)
  obtain t s a where x: "x = (t, s, a)" by (cases x) auto
  show ?case
  proof (cases "d s")
    case None
    then show ?thesis using Cons by (simp add: x)
  next
    case (Some p)
    then show ?thesis
      using Cons[of seen] Cons[of "insert s seen"] by (cases p) (auto simp: x)
  qed
qed simp

lemma first_receipt_Cons:
  "first_receipt ((t', s', a') # receiver) s a t \<longleftrightarrow>
     (if s' = s \<and> a' = a then t' = t else first_receipt receiver s a t)"
proof -
  have "first_receipt ((t', s', a') # receiver) s a t \<longleftrightarrow>
     (s' = s \<and> a' = a \<and> t' = t) \<or> (\<not> (s' = s \<and> a' = a) \<and> first_receipt receiver s a t)"
    unfolding first_receipt_def by (auto simp: Cons_eq_append_conv) (metis append_Cons set_ConsD prod.inject)+
  then show ?thesis by auto
qed

lemma receiver_loop_mem:
  "(s, a, st, rt) \<in> set (receiver_loop d receiver seen) \<longleftrightarrow>
     s \<notin> seen \<and> d s = Some (st, a) \<and> first_receipt receiver s a rt"
proof (induction d receiver seen rule: receiver_loop.induct)
  case (1 d seen)
  then show ?case by (simp add: first_receipt_def)
next
  case (2 d t' s' a' receiver seen)
  show ?case
  proof (cases "d s'")
    case None
    with 2 show ?thesis by (auto simp: first_receipt_Cons)
  next
    case (Some p)
    with 2 show ?thesis by (cases p) (auto simp: first_receipt_Cons)
  qed
qed

text \<open>(C25) Matching of sent and received packets: \<open>map_packets\<close> returns a
  row exactly for each sequence number whose earliest sending has been received
  with the same acknowledgement number; the row carries that send time and the
  time of the first such receipt, and no sequence number has two rows.\<close>

theorem map_packets_correct:
  "distinct (map fst (map_packets sender receiver))
   \<and> set (map_packets sender receiver)
     = {(s, a, st, rt). earliest_send sender s st a \<and> first_receipt receiver s a rt}"
  unfolding map_packets_def
  using receiver_loop_distinct[of "sender_loop sender Map.empty" receiver "{}"]
  by (auto simp: receiver_loop_mem sender_loop_earliest)

end
