(* ===== verification/Packet_Frames.thy ===== *)
theory Packet_Frames
  imports Packet_Timing "HOL-Library.Multiset"
begin

text \<open>
  Operations on data frames of packets (\<open>parse-logs.py\<close>,
  \<open>plot-logs.py\<close>): the time window, sequence-number rollover, transit
  times and video-frame completion. The sorting, grouping, joining and
  de-duplicating of pandas are parameters whose documented behaviour is stated
  by the predicates \<open>..._spec\<close>, each with a concrete operation that
  satisfies it.
\<close>

section \<open>Orders of rows\<close>

text \<open>pandas sorts NaN last.\<close>

definition float_sort_le :: "pyfloat \<Rightarrow> pyfloat \<Rightarrow> bool" where
  "float_sort_le x y \<longleftrightarrow> y = NaN \<or> float_le x y"

definition time_le :: "packet \<Rightarrow> packet \<Rightarrow> bool" where
  "time_le p q \<longleftrightarrow> float_sort_le (p_time p) (p_time q)"

definition seq_time_le :: "packet \<Rightarrow> packet \<Rightarrow> bool" where
  "seq_time_le p q \<longleftrightarrow> p_seq p < p_seq q \<or> p_seq p = p_seq q \<and> time_le p q"

type_synonym 'r sorter = "('r \<Rightarrow> 'r \<Rightarrow> bool) \<Rightarrow> 'r list \<Rightarrow> 'r list"

text \<open>\<open>filter_relative_time_range\<close> (\<open>parse-logs.py\<close>, \<open>plot-logs.py\<close>).\<close>

definition filter_relative_time_range :: "packet sorter \<Rightarrow> packet list \<Rightarrow> pyfloat \<Rightarrow> pyfloat \<Rightarrow> packet list" where
  "filter_relative_time_range sort_values raw_df start_time end_time =
     sort_values time_le
       (filter (\<lambda>p. float_le start_time (p_time p) \<and> float_le (p_time p) end_time) raw_df)"

text \<open>\<open>check_rollover\<close>: the sequence numbers after a drop by more than half
  the range.\<close>

fun rollover_loop :: "int \<Rightarrow> packet list \<Rightarrow> int list" where
  "rollover_loop prev [] = []"
| "rollover_loop prev (p # ps) =
     (if p_seq p - prev < - (2 ^ 31) then p_seq p # rollover_loop (p_seq p) ps
      else rollover_loop (p_seq p) ps)"

definition check_rollover :: "packet sorter \<Rightarrow> packet list \<Rightarrow> int list" where
  "check_rollover sort_values df =
     (case sort_values time_le df of [] \<Rightarrow> [] | p # ps \<Rightarrow> rollover_loop (p_seq p) ps)"

text \<open>\<open>calculate_transit\<close>: rows \<open>(seq, epoch_server, epoch_client,
  transit_time, time)\<close>; \<open>group_min\<close> is the grouped minimum and
  \<open>merge\<close> the inner join on the sequence number.\<close>

type_synonym seq_epochs = "(int \<times> pyfloat) list"

definition calculate_transit ::
  "(seq_epochs \<Rightarrow> seq_epochs) \<Rightarrow> (seq_epochs \<Rightarrow> seq_epochs \<Rightarrow> (int \<times> pyfloat \<times> pyfloat) list) \<Rightarrow>
   packet list \<Rightarrow> packet list \<Rightarrow> (int \<times> pyfloat \<times> pyfloat \<times> pyfloat \<times> pyfloat) list result"
where
  "calculate_transit group_min merge df_server df_client =
     (let server_earliest = group_min (map (\<lambda>p. (p_seq p, p_epoch p)) df_server);
          client_earliest = group_min (map (\<lambda>p. (p_seq p, p_epoch p)) df_client);
          merged = filter (\<lambda>(s, es, ec, tr). es \<noteq> NaN \<and> ec \<noteq> NaN \<and> tr \<noteq> NaN)
                     (map (\<lambda>(s, es, ec). (s, es, ec, float_sub ec es)) (merge server_earliest client_earliest))
      in case merged of
           [] \<Rightarrow> Raise IndexError
         | (s0, es0, ec0, tr0) # _ \<Rightarrow> Ok (map (\<lambda>(s, es, ec, tr). (s, es, ec, tr, float_sub ec ec0)) merged))"

section \<open>Frame completion\<close>

record frame =
  f_number :: nat
  f_completion :: pyfloat
  f_raw :: pyfloat
  f_interval :: "pyfloat option"

fun frame_loop :: "int \<Rightarrow> int \<Rightarrow> nat \<Rightarrow> pyfloat \<Rightarrow> packet list \<Rightarrow> (nat \<times> pyfloat \<times> pyfloat) list" where
  "frame_loop frame_size acc n prev [] = []"
| "frame_loop frame_size acc n prev (r # rs) =
     (let acc' = acc + p_len r
      in if acc' \<ge> frame_size
         then let adjusted = (if float_lt (p_time r) prev then prev else p_time r)
              in (n, adjusted, p_time r) # frame_loop frame_size (acc' - frame_size) (n + 1) adjusted rs
         else frame_loop frame_size acc' n prev rs)"

fun with_intervals :: "pyfloat option \<Rightarrow> (nat \<times> pyfloat \<times> pyfloat) list \<Rightarrow> frame list" where
  "with_intervals prev [] = []"
| "with_intervals prev ((n, t, raw) # fs) =
     \<lparr>f_number = n, f_completion = t, f_raw = raw, f_interval = map_option (\<lambda>p. float_sub t p) prev\<rparr>
       # with_intervals (Some t) fs"

definition estimate_frame ::
  "packet sorter \<Rightarrow> ((packet \<Rightarrow> int) \<Rightarrow> packet list \<Rightarrow> packet list) \<Rightarrow> packet list \<Rightarrow> int \<Rightarrow> frame list result"
where
  "estimate_frame sort_values drop_duplicates df frame_size =
     (let fs = frame_loop frame_size 0 1 (Fin 0) (drop_duplicates p_seq (sort_values seq_time_le df))
      in if fs = [] then Raise KeyError else Ok (with_intervals None fs))"

section \<open>What the data-frame operations promise\<close>

definition total_preorder :: "('r \<Rightarrow> 'r \<Rightarrow> bool) \<Rightarrow> bool" where
  "total_preorder le \<longleftrightarrow> (\<forall>x y. le x y \<or> le y x) \<and> (\<forall>x y z. le x y \<longrightarrow> le y z \<longrightarrow> le x z)"

text \<open>\<open>sort_values\<close>: a permutation of the rows that is in order; the
  default algorithm is not stable.\<close>

definition sort_values_spec :: "'r sorter \<Rightarrow> bool" where
  "sort_values_spec srt \<longleftrightarrow>
     (\<forall>le xs. total_preorder le \<longrightarrow> mset (srt le xs) = mset xs \<and> sorted_wrt le (srt le xs))"

text \<open>\<open>drop_duplicates(subset=key, keep="first")\<close>: of each key, the first
  row.\<close>

definition drop_duplicates_spec :: "(('r \<Rightarrow> 'k) \<Rightarrow> 'r list \<Rightarrow> 'r list) \<Rightarrow> bool" where
  "drop_duplicates_spec dd \<longleftrightarrow>
     (\<forall>key xs. distinct (map key (dd key xs)) \<and>
        set (dd key xs) = {r. \<exists>ys zs. xs = ys @ r # zs \<and> key r \<notin> key ` set ys})"

text \<open>\<open>groupby(key)[column].min()\<close> on a column without missing values:
  one row per key, in ascending order, with the least value of the group.\<close>

definition group_min_spec :: "(seq_epochs \<Rightarrow> seq_epochs) \<Rightarrow> bool" where
  "group_min_spec gm \<longleftrightarrow>
     (\<forall>xs. NaN \<notin> snd ` set xs \<longrightarrow>
        sorted_wrt (<) (map fst (gm xs)) \<and> fst ` set (gm xs) = fst ` set xs \<and> set (gm xs) \<subseteq> set xs \<and>
        (\<forall>s m e. (s, m) \<in> set (gm xs) \<longrightarrow> (s, e) \<in> set xs \<longrightarrow> float_le m e))"

text \<open>\<open>merge(on=key)\<close>, an inner join in the order of the left keys.\<close>

definition merge_spec :: "(seq_epochs \<Rightarrow> seq_epochs \<Rightarrow> (int \<times> pyfloat \<times> pyfloat) list) \<Rightarrow> bool" where
  "merge_spec mg \<longleftrightarrow>
     (\<forall>ls rs. mg ls rs = concat (map (\<lambda>(s, a). map (\<lambda>(s', b). (s, a, b)) (filter (\<lambda>(s', b). s' = s) rs)) ls))"

text \<open>Concrete operations that keep these promises.\<close>

fun insert_row :: "('r \<Rightarrow> 'r \<Rightarrow> bool) \<Rightarrow> 'r \<Rightarrow> 'r list \<Rightarrow> 'r list" where
  "insert_row le x [] = [x]"
| "insert_row le x (y # ys) = (if le x y then x # y # ys else y # insert_row le x ys)"

definition sort_rows :: "'r sorter" where
  "sort_rows le xs = foldr (insert_row le) xs []"

fun keep_unseen :: "('r \<Rightarrow> 'k) \<Rightarrow> 'k set \<Rightarrow> 'r list \<Rightarrow> 'r list" where
  "keep_unseen key seen [] = []"
| "keep_unseen key seen (x # xs) =
     (if key x \<in> seen then keep_unseen key seen xs
      else x # keep_unseen key (insert (key x) seen) xs)"

definition keep_first :: "('r \<Rightarrow> 'k) \<Rightarrow> 'r list \<Rightarrow> 'r list" where
  "keep_first key xs = keep_unseen key {} xs"

definition group_min_rows :: "seq_epochs \<Rightarrow> seq_epochs" where
  "group_min_rows xs = keep_first fst
     (sort_rows (\<lambda>(s, e) (s', e'). s < s' \<or> s = s' \<and> float_sort_le e e') xs)"

definition merge_rows :: "seq_epochs \<Rightarrow> seq_epochs \<Rightarrow> (int \<times> pyfloat \<times> pyfloat) list" where
  "merge_rows ls rs = concat (map (\<lambda>(s, a). map (\<lambda>(s', b). (s, a, b)) (filter (\<lambda>(s', b). s' = s) rs)) ls)"

lemma insert_row_mset: "mset (insert_row le x ys) = add_mset x (mset ys)"
  by (induction ys) auto

lemma insert_row_sorted:
  "total_preorder le \<Longrightarrow> sorted_wrt le ys \<Longrightarrow> sorted_wrt le (insert_row le x ys)"
proof (induction ys)
  case (Cons y ys)
  have tot: "le x y \<or> le y x" and tr: "\<And>a b c. le a b \<Longrightarrow> le b c \<Longrightarrow> le a c"
    using Cons.prems(1) unfolding total_preorder_def by blast+
  have "set (insert_row le x ys) = insert x (set ys)"
    using arg_cong[OF insert_row_mset[of le x ys], of set_mset] by simp
  then show ?case using Cons tot tr by auto
qed simp

lemma sort_rows_spec: "sort_values_spec sort_rows"
proof -
  have "mset (sort_rows le xs) = mset xs" for le :: "'a \<Rightarrow> 'a \<Rightarrow> bool" and xs
    by (induction xs) (auto simp: sort_rows_def insert_row_mset)
  moreover have "sorted_wrt le (sort_rows le xs)" if "total_preorder le" for le :: "'a \<Rightarrow> 'a \<Rightarrow> bool" and xs
    using that by (induction xs) (auto simp: sort_rows_def insert_row_sorted)
  ultimately show ?thesis unfolding sort_values_spec_def by blast
qed

lemma keep_unseen_set:
  "r \<in> set (keep_unseen key seen xs)
     \<longleftrightarrow> (\<exists>ys zs. xs = ys @ r # zs \<and> key r \<notin> seen \<and> key r \<notin> key ` set ys)"
proof (induction xs arbitrary: seen)
  case (Cons x xs)
  have "(\<exists>ys zs. x # xs = ys @ r # zs \<and> key r \<notin> seen \<and> key r \<notin> key ` set ys)
      \<longleftrightarrow> key r \<notin> seen \<and> (r = x \<or> key r \<noteq> key x \<and> (\<exists>ys zs. xs = ys @ r # zs \<and> key r \<notin> key ` set ys))"
    (is "?l \<longleftrightarrow> ?r")
  proof
    assume ?l
    then obtain ys zs where d: "x # xs = ys @ r # zs" "key r \<notin> seen" "key r \<notin> key ` set ys" by blast
    then show ?r by (cases ys) auto
  next
    assume ?r
    then consider "key r \<notin> seen" "r = x"
      | ys zs where "key r \<notin> seen" "key r \<noteq> key x" "xs = ys @ r # zs" "key r \<notin> key ` set ys" by blast
    then show ?l
    proof cases
      case 1
      then show ?thesis by (intro exI[of _ "[]"] exI[of _ xs]) auto
    next
      case (2 ys zs)
      then show ?thesis by (intro exI[of _ "x # ys"] exI[of _ zs]) auto
    qed
  qed
  then show ?case using Cons[of seen] Cons[of "insert (key x) seen"] by auto
qed simp

lemma keep_first_set:
  "set (keep_first key xs) = {r. \<exists>ys zs. xs = ys @ r # zs \<and> key r \<notin> key ` set ys}"
  unfolding keep_first_def set_eq_iff mem_Collect_eq keep_unseen_set by simp

lemma keep_unseen_distinct:
  "distinct (map key (keep_unseen key seen xs)) \<and> key ` set (keep_unseen key seen xs) = key ` set xs - seen"
proof (induction xs arbitrary: seen)
  case (Cons x xs)
  then show ?case using Cons[of seen] Cons[of "insert (key x) seen"] by auto
qed simp

lemma keep_first_distinct: "distinct (map key (keep_first key xs))"
  and keep_first_keys: "key ` set (keep_first key xs) = key ` set xs"
  using keep_unseen_distinct[of key "{}" xs] by (simp_all add: keep_first_def)

lemma keep_first_subset: "set (keep_first key xs) \<subseteq> set xs"
  by (auto simp: keep_first_set)

lemma keep_first_spec: "drop_duplicates_spec keep_first"
  by (simp add: drop_duplicates_spec_def keep_first_set keep_first_distinct)

lemma merge_rows_spec: "merge_spec merge_rows"
  by (simp add: merge_spec_def merge_rows_def)

lemma float_le_trans: "float_le x y \<Longrightarrow> float_le y z \<Longrightarrow> float_le x z"
  by (cases x; cases y; cases z) auto

lemma float_sort_le_total: "float_sort_le x y \<or> float_sort_le y x"
  by (cases x; cases y) (auto simp: float_sort_le_def)

lemma float_sort_le_trans: "float_sort_le x y \<Longrightarrow> float_sort_le y z \<Longrightarrow> float_sort_le x z"
  by (cases x; cases y; cases z) (auto simp: float_sort_le_def)

lemma time_le_preorder: "total_preorder time_le"
  unfolding total_preorder_def time_le_def using float_sort_le_total float_sort_le_trans by blast

lemma seq_time_le_preorder: "total_preorder seq_time_le"
  unfolding total_preorder_def seq_time_le_def time_le_def
  using float_sort_le_total float_sort_le_trans by (metis not_less_iff_gr_or_eq less_trans)

lemma keep_first_sorted_wrt:
  "sorted_wrt R xs \<Longrightarrow> sorted_wrt R (keep_first key xs)"
proof -
  have sub: "set (keep_unseen key seen xs) \<subseteq> set xs" for seen and xs :: "'a list"
    by (auto simp: keep_unseen_set)
  have "sorted_wrt R xs \<Longrightarrow> sorted_wrt R (keep_unseen key seen xs)" for seen
    using sub by (induction xs arbitrary: seen) (auto simp: subset_iff)
  then show "sorted_wrt R xs \<Longrightarrow> sorted_wrt R (keep_first key xs)" by (simp add: keep_first_def)
qed

lemma sorted_keys_strict:
  fixes xs :: seq_epochs
  assumes "sorted_wrt (\<lambda>(s, e) (s', e'). s < s' \<or> s = s' \<and> float_sort_le e e') xs" "distinct (map fst xs)"
  shows "sorted_wrt (<) (map fst xs)"
  using assms
proof (induction xs)
  case (Cons x xs)
  then show ?case by (fastforce simp: image_iff)
qed simp

lemma group_min_rows_spec: "group_min_spec group_min_rows"
proof -
  let ?le = "\<lambda>(s :: int, e) (s', e'). s < s' \<or> s = s' \<and> float_sort_le e e'"
  have pre: "total_preorder ?le"
    unfolding total_preorder_def
  proof (intro conjI allI impI)
    fix x y :: "int \<times> pyfloat"
    show "?le x y \<or> ?le y x" using float_sort_le_total[of "snd x" "snd y"] by (cases x; cases y) auto
  next
    fix x y z :: "int \<times> pyfloat"
    assume "?le x y" "?le y z"
    then show "?le x z" using float_sort_le_trans[of "snd x" "snd y" "snd z"]
      by (cases x; cases y; cases z) auto
  qed
  show ?thesis unfolding group_min_spec_def
  proof (intro allI impI)
    fix xs :: seq_epochs
    assume nan: "NaN \<notin> snd ` set xs"
    let ?s = "sort_rows ?le xs" and ?g = "group_min_rows xs"
    have ms: "mset ?s = mset xs" and srt: "sorted_wrt ?le ?s"
      using sort_rows_spec pre unfolding sort_values_spec_def by blast+
    have st: "set ?s = set xs" using ms mset_eq_setD by blast
    have sub: "set ?g \<subseteq> set xs" using keep_first_subset[of fst ?s] st by (simp add: group_min_rows_def)
    have "sorted_wrt ?le ?g" using keep_first_sorted_wrt[OF srt] by (simp add: group_min_rows_def)
    moreover have "distinct (map fst ?g)" by (simp add: group_min_rows_def keep_first_distinct)
    ultimately have asc: "sorted_wrt (<) (map fst ?g)"
      by (rule sorted_keys_strict)
    have least: "float_le m e" if h: "(s, m) \<in> set ?g" "(s, e) \<in> set xs" for s m e
    proof -
      obtain ys zs where s: "?s = ys @ (s, m) # zs" "s \<notin> fst ` set ys"
        using h(1) by (auto simp: group_min_rows_def keep_first_set)
      then have "(s, e) = (s, m) \<or> (s, e) \<in> set zs" using h(2) st by (force simp: image_iff)
      then have "float_sort_le m e"
        using srt unfolding s(1) by (cases m; auto simp: sorted_wrt_append float_sort_le_def)
      moreover have "e \<noteq> NaN" using h(2) nan by force
      ultimately show ?thesis by (simp add: float_sort_le_def)
    qed
    have "fst ` set ?g = fst ` set xs" using st by (simp add: group_min_rows_def keep_first_keys)
    then show "sorted_wrt (<) (map fst ?g) \<and> fst ` set ?g = fst ` set xs \<and> set ?g \<subseteq> set xs \<and>
        (\<forall>s m e. (s, m) \<in> set ?g \<longrightarrow> (s, e) \<in> set xs \<longrightarrow> float_le m e)"
      using asc sub least by blast
  qed
qed

section \<open>Sequence-number rollover\<close>

lemma sort_values_unique:
  fixes key :: "packet \<Rightarrow> rat"
  assumes "sort_values_spec sort_values" "mset df = mset rows"
    and "\<forall>p \<in> set rows. p_time p = Fin (key p)" "sorted_wrt (<) (map key rows)"
  shows "sort_values time_le df = rows"
proof (rule map_sorted_distinct_set_unique[where f = key])
  let ?s = "sort_values time_le df"
  have m: "mset ?s = mset rows" and s: "sorted_wrt time_le ?s"
    using assms(1,2) time_le_preorder unfolding sort_values_spec_def by metis+
  then have set: "set ?s = set rows" using mset_eq_setD by blast
  then show "set ?s = set rows" .
  show "sorted (map key rows)" "distinct (map key rows)"
    using assms(4) strict_sorted_iff by blast+
  then show "distinct (map key ?s)" using m by (metis mset_eq_imp_distinct_iff mset_map)
  have "sorted_wrt (\<lambda>p q. key p \<le> key q) ?s"
    by (rule sorted_wrt_mono_rel[OF _ s]) (use assms(3) set in \<open>auto simp: time_le_def float_sort_le_def\<close>)
  then show "sorted (map key ?s)" by (simp add: sorted_map)
  show "inj_on key (set ?s \<union> set rows)"
    using \<open>distinct (map key rows)\<close> set by (simp add: distinct_map)
qed

lemma wrap_step:
  fixes u v M H :: int
  assumes "M = 2 * H" "u \<le> v" "v - u < H"
  shows "v div M = (if v mod M - u mod M < - H then u div M + 1 else u div M)"
proof -
  define q r d where "q = u div M" and "r = u mod M" and "d = v - u"
  have M: "0 < M" using assms by linarith
  have v: "v = M * q + (r + d)" by (simp add: q_def r_def d_def)
  have r: "0 \<le> r" "r < M" using M by (simp_all add: r_def)
  have d: "0 \<le> d" "d < H" using assms by (simp_all add: d_def)
  show ?thesis
  proof (cases "r + d < M")
    case True
    then have "v div M = q" "v mod M = r + d"
      using int_div_pos_eq[OF v] int_mod_pos_eq[OF v] r assms d by simp_all
    then show ?thesis unfolding r_def[symmetric] q_def[symmetric] using d by simp
  next
    case False
    have v': "v = M * (q + 1) + (r + d - M)" using v by (simp add: algebra_simps)
    have "0 \<le> r + d - M" "r + d - M < M" using False r d assms(1) by linarith+
    then have "v div M = q + 1" "v mod M = r + d - M"
      using int_div_pos_eq[OF v'] int_mod_pos_eq[OF v'] by simp_all
    then show ?thesis
      unfolding r_def[symmetric] q_def[symmetric] using assms(1) r d by simp
  qed
qed

lemma rollover_loop_count:
  assumes "sorted_wrt (\<le>) (u # us)" "successively (\<lambda>a b. b - a < 2 ^ 31) (u # us)"
    and "map p_seq ps = map (\<lambda>v. v mod 2 ^ 32) us"
  shows "int (length (rollover_loop (u mod 2 ^ 32) ps)) = last (u # us) div 2 ^ 32 - u div 2 ^ 32"
  using assms
proof (induction us arbitrary: u ps)
  case (Cons v us)
  then obtain p ps' where ps: "ps = p # ps'" "p_seq p = v mod 2 ^ 32" "map p_seq ps' = map (\<lambda>v. v mod 2 ^ 32) us"
    by (cases ps) auto
  have IH: "int (length (rollover_loop (v mod 2 ^ 32) ps')) = last (v # us) div 2 ^ 32 - v div 2 ^ 32"
    using Cons.prems ps by (intro Cons.IH) auto
  have step: "u \<le> v" "v - u < 2 ^ 31" using Cons.prems by auto
  have "v div 2 ^ 32 = (if v mod 2 ^ 32 - u mod 2 ^ 32 < - (2 ^ 31) then u div 2 ^ 32 + 1 else u div 2 ^ 32)"
    using step wrap_step[of "2 ^ 32" "2 ^ 31" u v] by simp
  then show ?case using IH ps by (auto split: if_splits)
qed simp

text \<open>Rollover detection: if the packets, ordered by time, carry the
  low 32 bits of a nondecreasing byte count \<open>us\<close> that advances by less
  than \<open>2 ^ 31\<close> from packet to packet, then, whatever the order of the
  rows, \<open>check_rollover\<close> reports exactly as many points as the count
  passes multiples of \<open>2 ^ 32\<close>.\<close>

lemma check_rollover_counts:
  assumes "sort_values_spec sort_values" "mset df = mset rows" "us \<noteq> []"
    and "\<forall>p \<in> set rows. p_time p = Fin (key p)" "sorted_wrt (<) (map key rows)"
    and "map p_seq rows = map (\<lambda>v. v mod 2 ^ 32) us"
    and "sorted us" "successively (\<lambda>a b. b - a < 2 ^ 31) us"
  shows "int (length (check_rollover sort_values df)) = last us div 2 ^ 32 - hd us div 2 ^ 32"
proof -
  have srt: "sort_values time_le df = rows" by (rule sort_values_unique[OF assms(1,2,4,5)])
  obtain u us' where us: "us = u # us'" using assms(3) by (cases us) auto
  obtain p ps where rows: "rows = p # ps" using assms(6) us by (cases rows) auto
  have "p_seq p = u mod 2 ^ 32" "map p_seq ps = map (\<lambda>v. v mod 2 ^ 32) us'"
    using assms(6) by (simp_all add: us rows)
  then show ?thesis
    using rollover_loop_count[of u us' ps] assms(7,8)
    by (simp add: check_rollover_def srt rows us)
qed

definition demo_packet :: "rat \<Rightarrow> int \<Rightarrow> int \<Rightarrow> packet" where
  "demo_packet t s l = \<lparr>p_epoch = Fin t, p_time = Fin t, p_port = 80, p_seq = s, p_ack = 0, p_len = l\<rparr>"

section \<open>Transit times\<close>

text \<open>The least epoch of a sequence number.\<close>

definition least_epoch :: "packet list \<Rightarrow> int \<Rightarrow> pyfloat \<Rightarrow> bool" where
  "least_epoch df s e \<longleftrightarrow> (s, e) \<in> (\<lambda>p. (p_seq p, p_epoch p)) ` set df
     \<and> (\<forall>p \<in> set df. p_seq p = s \<longrightarrow> float_le e (p_epoch p))"

lemma group_min_least:
  assumes "group_min_spec gm" "\<forall>p \<in> set df. p_epoch p \<noteq> NaN"
  shows "sorted_wrt (<) (map fst (gm (map (\<lambda>p. (p_seq p, p_epoch p)) df)))"
    and "fst ` set (gm (map (\<lambda>p. (p_seq p, p_epoch p)) df)) = p_seq ` set df"
    and "(s, e) \<in> set (gm (map (\<lambda>p. (p_seq p, p_epoch p)) df)) \<Longrightarrow> least_epoch df s e"
proof -
  let ?xs = "map (\<lambda>p. (p_seq p, p_epoch p)) df"
  have "NaN \<notin> snd ` set ?xs" using assms(2) by auto
  then have g: "sorted_wrt (<) (map fst (gm ?xs))" "fst ` set (gm ?xs) = fst ` set ?xs" "set (gm ?xs) \<subseteq> set ?xs"
      "\<And>s m e. (s, m) \<in> set (gm ?xs) \<Longrightarrow> (s, e) \<in> set ?xs \<Longrightarrow> float_le m e"
    using assms(1) unfolding group_min_spec_def by blast+
  show "sorted_wrt (<) (map fst (gm ?xs))" by (rule g(1))
  show "fst ` set (gm ?xs) = p_seq ` set df" using g(2) by (simp add: image_image)
  show "least_epoch df s e" if h: "(s, e) \<in> set (gm ?xs)"
    unfolding least_epoch_def
  proof (intro conjI ballI impI)
    show "(s, e) \<in> (\<lambda>p. (p_seq p, p_epoch p)) ` set df" using h g(3) by auto
    fix p assume "p \<in> set df" "p_seq p = s"
    then show "float_le e (p_epoch p)" using g(4)[OF h, of "p_epoch p"] by force
  qed
qed

lemma inner_join:
  fixes ls rs :: seq_epochs
  assumes "sorted_wrt (<) (map fst ls)" "distinct (map fst rs)"
  defines "j \<equiv> concat (map (\<lambda>(s, a). map (\<lambda>(s', b). (s, a, b)) (filter (\<lambda>(s', b). s' = s) rs)) ls)"
  shows "sorted_wrt (<) (map fst j)" "fst ` set j = fst ` set ls \<inter> fst ` set rs"
    and "(s, a, b) \<in> set j \<longleftrightarrow> (s, a) \<in> set ls \<and> (s, b) \<in> set rs"
proof -
  show "(s, a, b) \<in> set j \<longleftrightarrow> (s, a) \<in> set ls \<and> (s, b) \<in> set rs" for s a b
    unfolding j_def by (force simp: image_iff)
  then show "fst ` set j = fst ` set ls \<inter> fst ` set rs" by (force simp: image_iff)
  have one: "length (filter (\<lambda>(s', b). s' = s) rs) \<le> 1" for s
    using assms(2)
  proof (induction rs)
    case (Cons r rs)
    have "fst r = s \<Longrightarrow> filter (\<lambda>(s', b). s' = s) rs = []"
      using Cons.prems by (auto simp: filter_empty_conv intro: rev_image_eqI)
    then show ?case using Cons by (cases r) auto
  qed simp
  show "sorted_wrt (<) (map fst j)"
    using assms(1) unfolding j_def
  proof (induction ls)
    case (Cons l ls)
    let ?m = "filter (\<lambda>(s', b). s' = fst l) rs"
    have "sorted_wrt (<) (map fst (map (\<lambda>(s', b). (fst l, snd l, b)) ?m))"
      using one[of "fst l"] by (cases ?m; cases "tl ?m") auto
    then show ?case using Cons by (cases l) (force simp: sorted_wrt_append)
  qed simp
qed


lemma calculate_transit_cases:
  assumes "group_min_spec group_min" "merge_spec merge"
    and "\<forall>p \<in> set df_server \<union> set df_client. \<exists>x. p_epoch p = Fin x"
  shows "if p_seq ` set df_server \<inter> p_seq ` set df_client = {}
    then calculate_transit group_min merge df_server df_client = Raise IndexError
    else \<exists>rows. calculate_transit group_min merge df_server df_client = Ok rows
      \<and> sorted_wrt (<) (map fst rows)
      \<and> fst ` set rows = p_seq ` set df_server \<inter> p_seq ` set df_client
      \<and> (\<forall>(s, es, ec, tr, t) \<in> set rows. least_epoch df_server s es \<and> least_epoch df_client s ec
           \<and> tr = float_sub ec es \<and> t = float_sub ec (fst (snd (snd (rows ! 0)))))"
proof -
  let ?S = "group_min (map (\<lambda>p. (p_seq p, p_epoch p)) df_server)"
  let ?C = "group_min (map (\<lambda>p. (p_seq p, p_epoch p)) df_client)"
  let ?j = "merge ?S ?C"
  have fin: "\<forall>p \<in> set df_server. p_epoch p \<noteq> NaN" "\<forall>p \<in> set df_client. p_epoch p \<noteq> NaN"
    using assms(3) by (metis UnCI pyfloat.distinct(5))+
  note S = group_min_least[OF assms(1) fin(1)] and C = group_min_least[OF assms(1) fin(2)]
  have dC: "distinct (map fst ?C)" using C(1) strict_sorted_iff by blast
  have j: "?j = concat (map (\<lambda>(s, a). map (\<lambda>(s', b). (s, a, b)) (filter (\<lambda>(s', b). s' = s) ?C)) ?S)"
    using assms(2) unfolding merge_spec_def by blast
  note join = inner_join[OF S(1) dC, folded j]
  have keys: "fst ` set ?j = p_seq ` set df_server \<inter> p_seq ` set df_client"
    using join(2) S(2) C(2) by simp
  have row: "least_epoch df_server s es \<and> least_epoch df_client s ec" if "(s, es, ec) \<in> set ?j" for s es ec
    using that join(3) S(3) C(3) by blast
  have fin_le: "\<exists>x. e = Fin x" if "least_epoch df s e" "set df \<subseteq> set df_server \<union> set df_client" for df s e
    using that assms(3) by (force simp: least_epoch_def)
  let ?m = "map (\<lambda>(s, es, ec). (s, es, ec, float_sub ec es)) ?j"
  have nonan: "float_sub (Fin x) (Fin y) \<noteq> NaN" for x y
    by (simp add: float_sub_Fin mk_float_def Let_def)
  have "es \<noteq> NaN \<and> ec \<noteq> NaN \<and> float_sub ec es \<noteq> NaN" if h: "(s, es, ec) \<in> set ?j" for s es ec
  proof -
    obtain x y where "es = Fin x" "ec = Fin y"
      using row[OF h] fin_le[of df_server s es] fin_le[of df_client s ec] by auto
    then show ?thesis using nonan by simp
  qed
  then have "filter (\<lambda>(s, es, ec, tr). es \<noteq> NaN \<and> ec \<noteq> NaN \<and> tr \<noteq> NaN) ?m = ?m"
    unfolding filter_id_conv by auto
  then have ct: "calculate_transit group_min merge df_server df_client =
     (case ?m of [] \<Rightarrow> Raise IndexError
      | (s0, es0, ec0, tr0) # _ \<Rightarrow> Ok (map (\<lambda>(s, es, ec, tr). (s, es, ec, tr, float_sub ec ec0)) ?m))"
    unfolding calculate_transit_def Let_def by (simp only:)
  show ?thesis
  proof (cases ?j)
    case Nil
    then show ?thesis using keys ct by simp
  next
    case (Cons r0 rest)
    obtain s0 es0 ec0 where r0: "r0 = (s0, es0, ec0)" by (cases r0) auto
    let ?rows = "map (\<lambda>(s, es, ec). (s, es, ec, float_sub ec es, float_sub ec ec0)) ?j"
    have "calculate_transit group_min merge df_server df_client = Ok ?rows"
      using ct by (simp add: Cons r0 case_prod_unfold)
    moreover have "map fst ?rows = map fst ?j" by (simp add: case_prod_unfold)
    then have "sorted_wrt (<) (map fst ?rows)" "fst ` set ?rows = fst ` set ?j"
      using join(1) by (metis, metis list.set_map)
    moreover have "\<forall>(s, es, ec, tr, t) \<in> set ?rows. least_epoch df_server s es \<and> least_epoch df_client s ec
           \<and> tr = float_sub ec es \<and> t = float_sub ec (fst (snd (snd (?rows ! 0))))"
      using row by (auto simp: Cons r0)
    moreover have "p_seq ` set df_server \<inter> p_seq ` set df_client \<noteq> {}" using keys Cons by auto
    ultimately show ?thesis using keys by (simp only: if_False) (intro exI[of _ ?rows], simp)
  qed
qed

lemma calculate_transit_shared:
  assumes "group_min_spec group_min" "merge_spec merge"
    and "\<forall>p \<in> set df_server \<union> set df_client. \<exists>x. p_epoch p = Fin x"
    and "p_seq ` set df_server \<inter> p_seq ` set df_client \<noteq> {}"
  shows "\<exists>rows. calculate_transit group_min merge df_server df_client = Ok rows
    \<and> sorted_wrt (<) (map fst rows) \<and> fst ` set rows = p_seq ` set df_server \<inter> p_seq ` set df_client"
  using calculate_transit_cases[OF assms(1-3)] unfolding if_not_P[OF assms(4)] by blast

text \<open>(C29) Transit times: with no missing epoch, \<open>calculate_transit\<close>
  raises exactly when the two captures share no sequence number; otherwise its
  rows have the shared sequence numbers in strictly ascending order, each with
  the least epoch of that number on either side, their difference as transit
  time, and the time since the first row's arrival.\<close>

theorem calculate_transit_rows:
  assumes "group_min_spec group_min" "merge_spec merge"
    and "\<forall>p \<in> set df_server \<union> set df_client. \<exists>x. p_epoch p = Fin x"
  shows "if p_seq ` set df_server \<inter> p_seq ` set df_client = {}
    then calculate_transit group_min merge df_server df_client = Raise IndexError
    else \<exists>rows. calculate_transit group_min merge df_server df_client = Ok rows
      \<and> sorted_wrt (<) (map fst rows)
      \<and> fst ` set rows = p_seq ` set df_server \<inter> p_seq ` set df_client
      \<and> (\<forall>(s, es, ec, tr, t) \<in> set rows. least_epoch df_server s es \<and> least_epoch df_client s ec
           \<and> tr = float_sub ec es \<and> t = float_sub ec (fst (snd (snd (rows ! 0)))))"
  using assms by (rule calculate_transit_cases)

theorem calculate_transit_rows_witness:
  "\<exists>rows. calculate_transit group_min_rows merge_rows
       [demo_packet 1 7 0, demo_packet 2 7 0] [demo_packet 5 7 0, demo_packet 6 8 0] = Ok rows
     \<and> map fst rows = [7]"
proof -
  let ?S = "[demo_packet 1 7 0, demo_packet 2 7 0]" and ?C = "[demo_packet 5 7 0, demo_packet 6 8 0]"
  have "\<forall>p \<in> set ?S \<union> set ?C. \<exists>x. p_epoch p = Fin x" by (simp add: demo_packet_def)
  note rows = calculate_transit_rows[OF group_min_rows_spec merge_rows_spec this]
  have "p_seq ` set ?S \<inter> p_seq ` set ?C = {7}" by (simp add: demo_packet_def)
  with rows obtain rows where r: "calculate_transit group_min_rows merge_rows ?S ?C = Ok rows"
      "sorted_wrt (<) (map fst rows)" "fst ` set rows = {7}"
    by (simp only: insert_not_empty if_False) blast
  have "sorted_wrt (<) [7 :: int]" by simp
  then have "map fst rows = [7]"
    using strict_sorted_equal[OF r(2), of "[7]"] r(3) by simp
  then show ?thesis using r(1) by (intro exI[of _ rows] conjI)
qed

section \<open>Completed frames\<close>

lemma frame_loop_length:
  assumes "0 < fs" "0 \<le> acc" "acc < fs" "\<forall>r \<in> set rs. 0 \<le> p_len r \<and> p_len r \<le> fs"
  shows "int (length (frame_loop fs acc n prev rs)) = (acc + sum_list (map p_len rs)) div fs"
  using assms(2-)
proof (induction rs arbitrary: acc n prev)
  case Nil
  then show ?case by simp
next
  case (Cons r rs)
  show ?case
  proof (cases "fs \<le> acc + p_len r")
    case True
    have "int (length (frame_loop fs (acc + p_len r - fs) k q rs))
        = (acc + p_len r - fs + sum_list (map p_len rs)) div fs" for k q
      using Cons.prems True by (intro Cons.IH) auto
    moreover have "(acc + p_len r - fs + sum_list (map p_len rs)) div fs
        = (acc + sum_list (map p_len (r # rs))) div fs - 1"
      using div_mult_self1[of fs "acc + p_len r - fs + sum_list (map p_len rs)" 1] assms(1)
      by (simp add: algebra_simps)
    ultimately show ?thesis using True by (simp add: Let_def)
  next
    case False
    then show ?thesis using Cons by (simp add: Let_def add.assoc)
  qed
qed

lemma frame_loop_numbers:
  "map fst (frame_loop fs acc n prev rs) = [n..<n + length (frame_loop fs acc n prev rs)]"
proof (induction rs arbitrary: acc n prev)
  case (Cons r rs)
  show ?case
    by (simp add: Let_def Cons.IH upt_conv_Cons del: upt_Suc)
qed simp

text \<open>Completion times never go back, and none is before its packet's time.\<close>

lemma frame_loop_times:
  assumes "\<forall>r \<in> set rs. \<exists>x. p_time r = Fin x" "prev = Fin p"
  shows "sorted_wrt (\<lambda>f g. float_le (fst (snd f)) (fst (snd g))) (frame_loop fs acc n prev rs)
    \<and> (\<forall>f \<in> set (frame_loop fs acc n prev rs). \<exists>t r. snd f = (Fin t, Fin r) \<and> p \<le> t \<and> r \<le> t
         \<and> (\<exists>q \<in> set rs. p_time q = Fin r))"
  using assms
proof (induction rs arbitrary: acc n prev p)
  case (Cons r rs)
  obtain x where x: "p_time r = Fin x" using Cons.prems by auto
  show ?case
  proof (cases "fs \<le> acc + p_len r")
    case True
    have "(if float_lt (p_time r) prev then prev else p_time r) = Fin (max p x)"
      using Cons.prems x by (simp add: max_def)
    moreover have "sorted_wrt (\<lambda>f g. float_le (fst (snd f)) (fst (snd g)))
        (frame_loop fs (acc + p_len r - fs) (n + 1) (Fin (max p x)) rs)
      \<and> (\<forall>f \<in> set (frame_loop fs (acc + p_len r - fs) (n + 1) (Fin (max p x)) rs).
          \<exists>t r. snd f = (Fin t, Fin r) \<and> max p x \<le> t \<and> r \<le> t \<and> (\<exists>q \<in> set rs. p_time q = Fin r))"
      using Cons.prems by (intro Cons.IH) auto
    ultimately show ?thesis using True x by (fastforce simp: Let_def)
  next
    case False
    then show ?thesis using Cons.IH[of prev p "acc + p_len r" n] Cons.prems
      by (fastforce simp: Let_def)
  qed
qed simp

lemma with_intervals_map:
  "map (\<lambda>f. (f_number f, f_completion f, f_raw f)) (with_intervals prev fs) = fs"
  by (induction prev fs rule: with_intervals.induct) auto

lemma with_intervals_nth:
  "i < length fs \<Longrightarrow> f_interval (with_intervals prev fs ! i) =
     (if i = 0 then map_option (\<lambda>p. float_sub (fst (snd (fs ! 0))) p) prev
      else Some (float_sub (fst (snd (fs ! i))) (fst (snd (fs ! (i - 1))))))"
proof (induction prev fs arbitrary: i rule: with_intervals.induct)
  case (2 prev n t raw fs)
  then show ?case by (cases i) (auto simp: nth_Cons')
qed simp

lemma sum_first_lengths:
  assumes "drop_duplicates_spec dd" "\<forall>p \<in> set xs. p_len p = len_of (p_seq p)"
  shows "sum_list (map p_len (dd p_seq xs)) = (\<Sum>s \<in> p_seq ` set xs. len_of s)"
    and "set (dd p_seq xs) \<subseteq> set xs"
proof -
  have d: "distinct (map p_seq (dd p_seq xs))"
    and st: "set (dd p_seq xs) = {r. \<exists>ys zs. xs = ys @ r # zs \<and> p_seq r \<notin> p_seq ` set ys}"
    using assms(1) unfolding drop_duplicates_spec_def by blast+
  show sub: "set (dd p_seq xs) \<subseteq> set xs" unfolding st by auto
  have "set (dd p_seq xs) = set (keep_first p_seq xs)" by (simp add: st keep_first_set)
  then have keys: "p_seq ` set (dd p_seq xs) = p_seq ` set xs" by (simp add: keep_first_keys)
  have "sum_list (map p_len (dd p_seq xs)) = sum_list (map len_of (map p_seq (dd p_seq xs)))"
    using sub assms(2) by (auto simp: subset_iff intro!: arg_cong[of _ _ sum_list])
  also have "\<dots> = (\<Sum>s \<in> set (map p_seq (dd p_seq xs)). len_of s)"
    using d by (rule sum_list_distinct_conv_sum_set)
  finally show "sum_list (map p_len (dd p_seq xs)) = (\<Sum>s \<in> p_seq ` set xs. len_of s)"
    using keys by simp
qed

text \<open>(C28) Frame estimation: if every packet of a sequence number carries the
  same length and no packet is longer than a frame, \<open>estimate_frame\<close>
  completes exactly as many frames as whole frames fit into the distinct
  payload (and raises when that is none), numbers them from 1, gives them
  completion times that never decrease and are never before the completing
  packet, and gives every frame after the first its distance to the frame
  before.\<close>

theorem estimate_frame_counts:
  assumes "sort_values_spec sort_values" "drop_duplicates_spec drop_duplicates" "0 < frame_size"
    and "\<forall>p \<in> set df. p_len p = len_of (p_seq p) \<and> 0 \<le> p_len p \<and> p_len p \<le> frame_size"
    and "\<forall>p \<in> set df. \<exists>x. p_time p = Fin x"
  defines "n \<equiv> nat ((\<Sum>s \<in> p_seq ` set df. len_of s) div frame_size)"
  shows "if n = 0 then estimate_frame sort_values drop_duplicates df frame_size = Raise KeyError
    else \<exists>fs. estimate_frame sort_values drop_duplicates df frame_size = Ok fs
      \<and> map f_number fs = [1..<Suc n] \<and> f_interval (fs ! 0) = None
      \<and> (\<forall>f \<in> set fs. float_le (f_raw f) (f_completion f) \<and> (\<exists>p \<in> set df. p_time p = f_raw f))
      \<and> (\<forall>i. Suc i < n \<longrightarrow> float_le (f_completion (fs ! i)) (f_completion (fs ! Suc i))
           \<and> f_interval (fs ! Suc i) = Some (float_sub (f_completion (fs ! Suc i)) (f_completion (fs ! i))))"
proof -
  let ?s = "sort_values seq_time_le df"
  have set_s: "set ?s = set df"
    using assms(1) seq_time_le_preorder unfolding sort_values_spec_def by (metis mset_eq_setD)
  define rs where "rs = drop_duplicates p_seq ?s"
  have sub: "set rs \<subseteq> set df" and sum: "sum_list (map p_len rs) = (\<Sum>s \<in> p_seq ` set df. len_of s)"
    using sum_first_lengths[OF assms(2), of ?s len_of] assms(4) set_s unfolding rs_def by auto
  let ?fl = "frame_loop frame_size 0 1 (Fin 0) rs"
  have "int (length ?fl) = (0 + sum_list (map p_len rs)) div frame_size"
    using sub assms(3,4) by (intro frame_loop_length) auto
  then have len: "length ?fl = n" using sum by (simp add: n_def)
  have est: "estimate_frame sort_values drop_duplicates df frame_size =
      (if ?fl = [] then Raise KeyError else Ok (with_intervals None ?fl))"
    by (simp add: estimate_frame_def rs_def Let_def)
  show ?thesis
  proof (cases "n = 0")
    case True
    then show ?thesis using len est by simp
  next
    case False
    let ?fs = "with_intervals None ?fl"
    have ok: "estimate_frame sort_values drop_duplicates df frame_size = Ok ?fs"
      using False len est by auto
    note m = with_intervals_map[of None ?fl]
    have len_fs: "length ?fs = n" using len arg_cong[OF m, of length] by simp
    have at: "(f_number (?fs ! i), f_completion (?fs ! i), f_raw (?fs ! i)) = ?fl ! i" if "i < n" for i
      using that len_fs arg_cong[OF m, of "\<lambda>xs. xs ! i"] by simp
    have times: "sorted_wrt (\<lambda>f g. float_le (fst (snd f)) (fst (snd g))) ?fl
      \<and> (\<forall>f \<in> set ?fl. \<exists>t r. snd f = (Fin t, Fin r) \<and> 0 \<le> t \<and> r \<le> t \<and> (\<exists>q \<in> set rs. p_time q = Fin r))"
      using sub assms(5) by (intro frame_loop_times) auto
    have "map f_number ?fs = map fst ?fl" using arg_cong[OF m, of "map fst"] by (simp add: comp_def)
    then have nums: "map f_number ?fs = [1..<Suc n]" using frame_loop_numbers[of frame_size 0 1 "Fin 0" rs] len by simp
    have each: "float_le (f_raw f) (f_completion f) \<and> (\<exists>p \<in> set df. p_time p = f_raw f)" if "f \<in> set ?fs" for f
    proof -
      have "(f_number f, f_completion f, f_raw f) \<in> set ?fl" using that m by (metis (mono_tags, lifting) image_eqI list.set_map)
      then show ?thesis using times sub by fastforce
    qed
    have step: "float_le (f_completion (?fs ! i)) (f_completion (?fs ! Suc i))
       \<and> f_interval (?fs ! Suc i) = Some (float_sub (f_completion (?fs ! Suc i)) (f_completion (?fs ! i)))"
      if "Suc i < n" for i
    proof -
      have "float_le (fst (snd (?fl ! i))) (fst (snd (?fl ! Suc i)))"
        using times that len by (auto simp: sorted_wrt_iff_nth_less)
      moreover have "f_completion (?fs ! i) = fst (snd (?fl ! i))" "f_completion (?fs ! Suc i) = fst (snd (?fl ! Suc i))"
        using at[of i] at[of "Suc i"] that by (metis Suc_lessD fst_conv snd_conv)+
      ultimately show ?thesis using with_intervals_nth[of "Suc i" ?fl None] that len by simp
    qed
    have "f_interval (?fs ! 0) = None" using with_intervals_nth[of 0 ?fl None] False len by (cases ?fl) auto
    with ok nums each step show ?thesis unfolding if_not_P[OF False] by blast
  qed
qed

theorem estimate_frame_counts_witness:
  "\<exists>fs. estimate_frame sort_rows keep_first
       [demo_packet 2 20 6, demo_packet 1 10 6, demo_packet 3 10 6, demo_packet 4 30 6] 9 = Ok fs
     \<and> map f_number fs = [1, 2]"
proof -
  let ?df = "[demo_packet 2 20 6, demo_packet 1 10 6, demo_packet 3 10 6, demo_packet 4 30 6]"
  have "nat ((\<Sum>s \<in> p_seq ` set ?df. (\<lambda>_. 6) s) div 9) = 2" by (simp add: demo_packet_def)
  then show ?thesis
    using estimate_frame_counts[OF sort_rows_spec keep_first_spec, of 9 ?df "\<lambda>_. 6"]
    by (simp add: demo_packet_def) (auto simp: upt_conv_Cons)
qed

end
