(* ===== verification/SS_Log.thy ===== *)
theory SS_Log
  imports Packet_Frames "HOL-Library.Char_ord" "HOL-Library.List_Lexorder" "HOL-Library.Sublist"
begin

text \<open>
  The parsers of \<open>ss\<close> socket statistics: the class \<open>TCPLogParser\<close> of
  \<open>parse_ss.py\<close> and \<open>parse_ss\<close> of \<open>parse-logs.py\<close>. Each regular
  expression is a scanner that returns what \<open>re.search\<close> or
  \<open>re.findall\<close> return. A Python dict is an association list in insertion
  order; a CSV file is its table of cells. The local time zone enters through
  the parameter \<open>fromtimestamp\<close>.
\<close>

section \<open>Dictionaries in insertion order\<close>

fun dict_set :: "'k \<Rightarrow> 'v \<Rightarrow> ('k \<times> 'v) list \<Rightarrow> ('k \<times> 'v) list" where
  "dict_set k v [] = [(k, v)]"
| "dict_set k v ((k', v') # d) = (if k' = k then (k, v) # d else (k', v') # dict_set k v d)"

definition dict_pop :: "'k \<Rightarrow> ('k \<times> 'v) list \<Rightarrow> ('k \<times> 'v) list" where
  "dict_pop k d = filter (\<lambda>e. fst e \<noteq> k) d"

section \<open>Regular expressions\<close>

text \<open>\<open>(.*?)\)\<close>: up to the first closing parenthesis of the line.\<close>

fun until_paren :: "string \<Rightarrow> (string \<times> string) option" where
  "until_paren [] = None"
| "until_paren (c # cs) =
     (if c = CHR '')'' then Some ([], cs)
      else if c = newline then None
      else map_option (\<lambda>(t, r). (c # t, r)) (until_paren cs))"

text \<open>\<open>re.search(r"\((.*?)\)", s)\<close>: its group 1.\<close>

fun search_paren :: "string \<Rightarrow> string option" where
  "search_paren [] = None"
| "search_paren (c # cs) =
     (case (if c = CHR ''('' then until_paren cs else None) of
        Some (t, r) \<Rightarrow> Some t
      | None \<Rightarrow> search_paren cs)"

text \<open>\<open>re.search(r"bbr:\((.*?)\)", s)\<close>: its group 0.\<close>

fun search_bbr :: "string \<Rightarrow> string option" where
  "search_bbr [] = None"
| "search_bbr (c # cs) =
     (case (if starts_with ''bbr:('' (c # cs) then until_paren (drop 4 cs) else None) of
        Some (t, r) \<Rightarrow> Some (''bbr:('' @ t @ '')'')
      | None \<Rightarrow> search_bbr cs)"

text \<open>\<open>re.search(r"time:(\d+)", s)\<close>: its group 1.\<close>

fun search_time :: "string \<Rightarrow> string option" where
  "search_time [] = None"
| "search_time (c # cs) =
     (if starts_with ''time:'' (c # cs) \<and> takeWhile is_dec (drop 4 cs) \<noteq> []
      then Some (takeWhile is_dec (drop 4 cs))
      else search_time cs)"

text \<open>\<open>re.findall(r"(\w+):([^ ]+)", s)\<close>\<close>

definition match_pair :: "string \<Rightarrow> ((string \<times> string) \<times> string) option" where
  "match_pair s =
     (let k = takeWhile is_word_char s; r = dropWhile is_word_char s;
          v = takeWhile (\<lambda>c. c \<noteq> CHR '' '') (tl r)
      in if k \<noteq> [] \<and> r \<noteq> [] \<and> hd r = CHR '':'' \<and> v \<noteq> []
         then Some ((k, v), dropWhile (\<lambda>c. c \<noteq> CHR '' '') (tl r))
         else None)"

lemma match_pair_shorter: "match_pair s = Some (m, r) \<Longrightarrow> length r < length s"
proof -
  assume "match_pair s = Some (m, r)"
  then have r: "r = dropWhile (\<lambda>c. c \<noteq> CHR '' '') (tl (dropWhile is_word_char s))"
      and ne: "dropWhile is_word_char s \<noteq> []"
    by (auto simp: match_pair_def Let_def split: if_splits)
  have "length r \<le> length (tl (dropWhile is_word_char s))" unfolding r by (rule length_dropWhile_le)
  also have "\<dots> < length (dropWhile is_word_char s)" using ne by (cases "dropWhile is_word_char s") auto
  also have "\<dots> \<le> length s" by (rule length_dropWhile_le)
  finally show ?thesis .
qed

function findall_pairs :: "string \<Rightarrow> (string \<times> string) list" where
  "findall_pairs s =
     (if s = [] then []
      else case match_pair s of
             Some (m, r) \<Rightarrow> m # findall_pairs r
           | None \<Rightarrow> findall_pairs (tl s))"
  by pat_completeness auto
termination
  by (relation "measure length") (auto dest: match_pair_shorter)

declare findall_pairs.simps [simp del]

section \<open>Parsing a line\<close>

datatype metric = Num pyfloat | Text string

datatype 'd ss_value = Metric metric | Stamp int | Datetime 'd | Bbr "(string \<times> metric) list"

type_synonym 'd ss_entry = "(string \<times> 'd ss_value) list"

text \<open>\<open>parse_bbr_info\<close>: the loop over the parameters, each split at its
  colon into exactly two parts.\<close>

definition bbr_value :: "string \<Rightarrow> metric result" where
  "bbr_value value =
     (if contains ''Mbps'' value
      then and_then (py_float (replace_all ''Mbps'' [] value)) (\<lambda>x. Ok (Num x))
      else if isdigit (replace_all ''.'' [] value)
      then and_then (py_float value) (\<lambda>x. Ok (Num x))
      else Ok (Text value))"

fun bbr_loop :: "string list \<Rightarrow> (string \<times> metric) list \<Rightarrow> (string \<times> metric) list result" where
  "bbr_loop [] bbr_params = Ok bbr_params"
| "bbr_loop (param # params) bbr_params =
     (if \<not> contains '':'' param then bbr_loop params bbr_params
      else case split_on (CHR '':'') param of
             [key, value] \<Rightarrow>
               and_then (bbr_value value) (\<lambda>v.
                 bbr_loop params (dict_set (strip (replace_all ''bbr'' [] key)) v bbr_params))
           | _ \<Rightarrow> Raise ValueError)"

definition parse_bbr_info :: "string \<Rightarrow> (string \<times> metric) list result" where
  "parse_bbr_info bbr_str =
     (case search_paren bbr_str of
        None \<Rightarrow> Ok []
      | Some body \<Rightarrow> bbr_loop (split_on (CHR '','') body) [])"

text \<open>The value of a pair: a conversion that fails keeps the string.\<close>

definition pair_value :: "string \<Rightarrow> metric" where
  "pair_value value =
     (case (if isdigit (replace_all ''.'' [] value) then map_sum id Num (py_float value)
            else if contains ''%'' value then map_sum id Num (py_float (replace_all ''%'' [] value))
            else if contains ''Mbps'' value then map_sum id Num (py_float (replace_all ''Mbps'' [] value))
            else Ok (Text value)) of
        Inr v \<Rightarrow> v
      | Inl e \<Rightarrow> Text value)"

definition pairs_loop :: "(string \<times> string) list \<Rightarrow> 'd ss_entry \<Rightarrow> 'd ss_entry" where
  "pairs_loop pairs metrics = fold (\<lambda>(k, v). dict_set k (Metric (pair_value v))) pairs metrics"

text \<open>What follows the time stamp in \<open>parse_line\<close> and
  \<open>parse_ss_line\<close>: the BBR part, then the pairs of the rest.\<close>

definition parse_metrics :: "'d ss_entry \<Rightarrow> string \<Rightarrow> 'd ss_entry result" where
  "parse_metrics metrics line =
     (case search_bbr line of
        None \<Rightarrow> Ok (pairs_loop (findall_pairs line) metrics)
      | Some bbr \<Rightarrow>
          and_then (parse_bbr_info bbr) (\<lambda>bbr_info.
            Ok (pairs_loop (findall_pairs (replace_all bbr [] line))
                  (dict_set ''bbr'' (Bbr bbr_info) metrics))))"

text \<open>An int divided by \<open>1e9\<close>.\<close>

definition nano_to_sec :: "int \<Rightarrow> pyfloat result" where
  "nano_to_sec timestamp = and_then (float_of_int timestamp) (\<lambda>x. Ok (float_div_lit x 1000000000))"

text \<open>\<open>TCPLogParser.parse_line\<close> (\<open>parse_ss.py\<close>)\<close>

definition parse_line :: "(pyfloat \<Rightarrow> 'd result) \<Rightarrow> string \<Rightarrow> 'd ss_entry option result" where
  "parse_line fromtimestamp line =
     (case search_time line of
        None \<Rightarrow> Ok None
      | Some digits \<Rightarrow>
          and_then (py_int digits) (\<lambda>timestamp.
          and_then (nano_to_sec timestamp) (\<lambda>secs.
          and_then (fromtimestamp secs) (\<lambda>dt.
          and_then (parse_metrics [(''timestamp'', Stamp timestamp), (''datetime'', Datetime dt)] line) (\<lambda>m.
            Ok (Some m))))))"

text \<open>\<open>parse_ss_line\<close> (\<open>parse-logs.py\<close>)\<close>

definition parse_ss_line :: "string \<Rightarrow> unit ss_entry option result" where
  "parse_ss_line line =
     (case search_time line of
        None \<Rightarrow> Ok None
      | Some digits \<Rightarrow>
          and_then (py_int digits) (\<lambda>timestamp.
          and_then (nano_to_sec timestamp) (\<lambda>secs.
          and_then (parse_metrics [(''epoch'', Metric (Num secs))] line) (\<lambda>m. Ok (Some m)))))"

section \<open>Parsing a file\<close>

text \<open>The state of a \<open>TCPLogParser\<close> and its methods. A file that is not
  there makes \<open>parse_file\<close> return false; a line that raises is reported
  and skipped.\<close>

record 'd tcp_log_parser =
  log_file :: string
  parsed_data :: "'d ss_entry list"

fun parse_lines :: "(string \<Rightarrow> 'd ss_entry option result) \<Rightarrow> string list \<Rightarrow> 'd ss_entry list \<Rightarrow> 'd ss_entry list" where
  "parse_lines parse [] acc = acc"
| "parse_lines parse (l # ls) acc =
     (case parse (strip l) of
        Inl e \<Rightarrow> parse_lines parse ls acc
      | Inr None \<Rightarrow> parse_lines parse ls acc
      | Inr (Some m) \<Rightarrow> parse_lines parse ls (if m = [] then acc else acc @ [m]))"

definition parse_file ::
  "(pyfloat \<Rightarrow> 'd result) \<Rightarrow> (string \<rightharpoonup> string) \<Rightarrow> 'd tcp_log_parser \<Rightarrow> bool \<times> 'd tcp_log_parser"
where
  "parse_file fromtimestamp files self =
     (case files (log_file self) of
        None \<Rightarrow> (False, self)
      | Some content \<Rightarrow>
          (True, self\<lparr>parsed_data := parse_lines (parse_line fromtimestamp) (readlines content) (parsed_data self)\<rparr>))"

text \<open>Flattening of the BBR dictionary of an entry; a \<open>bbr\<close> value that is
  no dictionary has no \<open>items\<close>.\<close>

definition flatten_entry :: "'d ss_entry \<Rightarrow> 'd ss_entry result" where
  "flatten_entry entry =
     (case map_of entry ''bbr'' of
        None \<Rightarrow> Ok entry
      | Some (Bbr bbr_data) \<Rightarrow>
          Ok (fold (\<lambda>(k, v). dict_set (''bbr_'' @ k) (Metric v)) bbr_data (dict_pop ''bbr'' entry))
      | Some _ \<Rightarrow> Raise AttributeError)"

text \<open>\<open>save_csv\<close> returns \<open>None\<close> for false, and the table written
  otherwise: the sorted field names and, for every entry, its cells.\<close>

type_synonym 'd table = "string list \<times> 'd ss_value option list list"

definition csv_headers :: "'d ss_entry list \<Rightarrow> string list" where
  "csv_headers flattened_data = sort (remdups (concat (map (map fst) flattened_data)))"

text \<open>\<open>DictWriter.writerow\<close> refuses a key that is no field name.\<close>

definition write_row :: "string list \<Rightarrow> 'd ss_entry \<Rightarrow> 'd ss_value option list result" where
  "write_row fieldnames row =
     (if list_all (\<lambda>e. fst e \<in> set fieldnames) row then Ok (map (map_of row) fieldnames)
      else Raise ValueError)"

definition save_csv :: "'d tcp_log_parser \<Rightarrow> 'd table option result" where
  "save_csv self =
     (if parsed_data self = [] then Ok None
      else and_then (map_result flatten_entry (parsed_data self)) (\<lambda>flattened_data.
        let headers = csv_headers flattened_data
        in case map_result (write_row headers) flattened_data of
             Inl e \<Rightarrow> Ok None
           | Inr rows \<Rightarrow> Ok (Some (headers, rows))))"

text \<open>\<open>parse_ss\<close> of \<open>parse-logs.py\<close>: the first line that raises ends
  the loop; the column \<open>time\<close> is set where the frame has one.\<close>

fun parse_until_error :: "(string \<Rightarrow> 'd ss_entry option result) \<Rightarrow> string list \<Rightarrow> 'd ss_entry list \<Rightarrow> 'd ss_entry list" where
  "parse_until_error parse [] acc = acc"
| "parse_until_error parse (l # ls) acc =
     (case parse (strip l) of
        Inl e \<Rightarrow> acc
      | Inr None \<Rightarrow> parse_until_error parse ls acc
      | Inr (Some m) \<Rightarrow> parse_until_error parse ls (if m = [] then acc else acc @ [m]))"

definition entry_epoch :: "'d ss_entry \<Rightarrow> pyfloat result" where
  "entry_epoch entry =
     (case map_of entry ''epoch'' of Some (Metric (Num x)) \<Rightarrow> Ok x | _ \<Rightarrow> Raise TypeError)"

definition float_min :: "pyfloat list \<Rightarrow> pyfloat" where
  "float_min xs = fold (\<lambda>x m. if float_lt x m then x else m) xs PInf"

definition parse_ss :: "(string \<rightharpoonup> string) \<Rightarrow> string \<Rightarrow> unit ss_entry list result" where
  "parse_ss files ss_log =
     (let parsed_data = (case files ss_log of
                           None \<Rightarrow> []
                         | Some content \<Rightarrow> parse_until_error parse_ss_line (readlines content) [])
      in and_then (map_result flatten_entry parsed_data) (\<lambda>flattened_data.
         if flattened_data = [] then Raise AttributeError
         else and_then (map_result entry_epoch flattened_data) (\<lambda>epochs.
           if list_ex (\<lambda>e. map_of e ''time'' \<noteq> None) flattened_data
           then Ok (map (\<lambda>(entry, x). dict_set ''time'' (Metric (Num (float_sub x (float_min epochs)))) entry)
                     (zip flattened_data epochs))
           else Ok flattened_data)))"

section \<open>Dictionaries\<close>

lemma dict_set_map_of: "map_of (dict_set k v d) = (map_of d)(k \<mapsto> v)"
  by (induction k v d rule: dict_set.induct) (auto simp: fun_eq_iff)

lemma dict_set_keys: "fst ` set (dict_set k v d) = insert k (fst ` set d)"
  by (induction k v d rule: dict_set.induct) auto

lemma dict_set_new: "k \<notin> fst ` set d \<Longrightarrow> dict_set k v d = d @ [(k, v)]"
  by (induction k v d rule: dict_set.induct) auto

lemma dict_pop_map_of: "map_of (dict_pop k d) = (map_of d)(k := None)"
  by (induction d) (auto simp: dict_pop_def fun_eq_iff)

lemma fold_dict_set_new:
  assumes "distinct (map (f \<circ> fst) ps)" "\<forall>p \<in> set ps. f (fst p) \<notin> fst ` set d"
  shows "fold (\<lambda>(k, v). dict_set (f k) (g v)) ps d = d @ map (\<lambda>(k, v). (f k, g v)) ps"
  using assms
proof (induction ps arbitrary: d)
  case (Cons p ps)
  obtain k v where p: "p = (k, v)" by (cases p)
  have "fold (\<lambda>(k, v). dict_set (f k) (g v)) ps (d @ [(f k, g v)])
      = (d @ [(f k, g v)]) @ map (\<lambda>(k, v). (f k, g v)) ps"
    using Cons.prems by (intro Cons.IH) (force simp: p image_iff)+
  then show ?case using Cons.prems by (simp add: p dict_set_new)
qed simp

section \<open>Scanning a rendered line\<close>

text \<open>A line of \<open>ss\<close> output behind its time stamp: pairs, then the
  optional BBR part.\<close>

definition render_pairs :: "(string \<times> string) list \<Rightarrow> string" where
  "render_pairs ps = concat (map (\<lambda>(k, v). '' '' @ k @ '':'' @ v) ps)"

definition bbr_text :: "(string \<times> string) list \<Rightarrow> string" where
  "bbr_text bs = ''bbr:('' @ join_with (CHR '','') (map (\<lambda>(k, v). k @ '':'' @ v) bs) @ '')''"

definition render_ss :: "nat \<Rightarrow> (string \<times> string) list \<Rightarrow> (string \<times> string) list \<Rightarrow> string" where
  "render_ss t ps bs = ''time:'' @ string_of_nat t @ render_pairs ps @ (if bs = [] then [] else '' '' @ bbr_text bs)"

definition pair_ok :: "string \<times> string \<Rightarrow> bool" where
  "pair_ok p \<longleftrightarrow> fst p \<noteq> [] \<and> snd p \<noteq> [] \<and> list_all is_word_char (fst p)
     \<and> CHR '' '' \<notin> set (snd p) \<and> CHR ''('' \<notin> set (snd p)"

definition bbr_ok :: "string \<times> string \<Rightarrow> bool" where
  "bbr_ok p \<longleftrightarrow> list_all (\<lambda>c. c \<notin> {CHR '':'', CHR '','', CHR '')'', newline}) (fst p @ snd p)
     \<and> strip (replace_all ''bbr'' [] (fst p)) = fst p \<and> is_ok (bbr_value (snd p))"

lemma word_char_colon: "\<not> is_word_char (CHR '':'')" "\<not> is_word_char (CHR '' '')" "\<not> is_word_char (CHR ''('')"
  by (simp_all add: is_word_char_def is_dec_def code_pt_def)

lemma match_pair_rendered:
  assumes "pair_ok (k, v)" "rest = [] \<or> hd rest = CHR '' ''"
  shows "match_pair (k @ '':'' @ v @ rest) = Some ((k, v), rest)"
proof -
  have k: "takeWhile is_word_char (k @ CHR '':'' # v @ rest) = k"
      "dropWhile is_word_char (k @ CHR '':'' # v @ rest) = CHR '':'' # v @ rest"
    using assms(1) word_char_colon by (auto simp: pair_ok_def list_all_iff takeWhile_append2 dropWhile_append2)
  have "\<forall>c \<in> set v. c \<noteq> CHR '' ''" using assms(1) by (auto simp: pair_ok_def)
  then have v: "takeWhile (\<lambda>c. c \<noteq> CHR '' '') (v @ rest) = v" "dropWhile (\<lambda>c. c \<noteq> CHR '' '') (v @ rest) = rest"
    using assms(2) by (cases rest; simp add: takeWhile_append2 dropWhile_append2)+
  show ?thesis using assms(1) k v by (simp add: match_pair_def pair_ok_def)
qed

lemma findall_pairs_space: "findall_pairs (CHR '' '' # s) = findall_pairs s"
  by (subst findall_pairs.simps) (simp add: match_pair_def word_char_colon)

lemma findall_pairs_rendered:
  assumes "\<forall>p \<in> set ps. pair_ok p" "s = [] \<or> s = '' ''"
  shows "findall_pairs (render_pairs ps @ s) = ps"
  using assms(1)
proof (induction ps)
  case Nil
  then show ?case using assms(2) by (auto simp: render_pairs_def findall_pairs_space findall_pairs.simps[of "[]"])
next
  case (Cons p ps)
  obtain k v where p: "p = (k, v)" by (cases p)
  let ?rest = "render_pairs ps @ s"
  have rest: "?rest = [] \<or> hd ?rest = CHR '' ''"
    using assms(2) by (cases ps) (auto simp: render_pairs_def split: prod.splits)
  have kv: "pair_ok (k, v)" using Cons.prems p by simp
  have "render_pairs (p # ps) @ s = CHR '' '' # (k @ '':'' @ v @ ?rest)"
    by (simp add: render_pairs_def p)
  moreover have "findall_pairs (k @ '':'' @ v @ ?rest) = (k, v) # findall_pairs ?rest"
    using match_pair_rendered[OF kv rest] by (subst findall_pairs.simps) simp
  ultimately show ?case using Cons p by (simp add: findall_pairs_space)
qed

text \<open>Where no parenthesis is, no BBR part starts.\<close>

lemma starts_with_iff: "starts_with p s \<longleftrightarrow> (\<exists>r. s = p @ r)"
  unfolding starts_with_def by (metis append_eq_conv_conj append_take_drop_id)

lemma no_bbr_start:
  assumes "CHR ''('' \<notin> set p" "CHR ''('' \<notin> set (take 4 t)" "p \<noteq> []"
  shows "\<not> starts_with ''bbr:('' (p @ t)"
proof
  assume "starts_with ''bbr:('' (p @ t)"
  then have st: "take 5 (p @ t) = ''bbr:(''" unfolding starts_with_def by (simp add: eval_nat_numeral)
  have "length (take 5 (p @ t)) = 5" unfolding st by simp
  then have len: "4 < length (p @ t)" unfolding length_take by linarith
  have "(p @ t) ! 4 = take 5 (p @ t) ! 4" by (rule nth_take[symmetric]) simp
  then have at: "(p @ t) ! 4 = CHR ''(''" unfolding st by simp
  show False
  proof (cases "4 < length p")
    case True
    then show False using at assms(1) nth_mem[of 4 p] by (simp add: nth_append)
  next
    case False
    let ?i = "4 - length p"
    have "?i < 4" "?i < length t" using False len assms(3) by (cases p; auto)+
    then have "t ! ?i \<in> set (take 4 t)" by (metis in_set_conv_nth length_take min_less_iff_conj nth_take)
    then show False using at False assms(2) by (simp add: nth_append)
  qed
qed

lemma search_bbr_skip:
  assumes "CHR ''('' \<notin> set p" "CHR ''('' \<notin> set (take 4 t)"
  shows "search_bbr (p @ t) = search_bbr t"
  using assms(1)
proof (induction p)
  case (Cons x p)
  then show ?case using no_bbr_start[of "x # p" t] assms(2) by simp
qed simp

lemma search_bbr_none: "CHR ''('' \<notin> set p \<Longrightarrow> search_bbr p = None"
  using search_bbr_skip[of p "[]"] by simp

lemma until_paren_found:
  "list_all (\<lambda>c. c \<noteq> CHR '')'' \<and> c \<noteq> newline) t \<Longrightarrow> until_paren (t @ CHR '')'' # r) = Some (t, r)"
  by (induction t) auto

lemma replace_bbr_end:
  assumes "CHR ''('' \<notin> set p"
  shows "replace_all (''bbr:('' @ b) [] (p @ ''bbr:('' @ b) = p"
  using assms
proof (induction p)
  case Nil
  have "starts_with (CHR ''b'' # s) (CHR ''b'' # s)" for s by (simp add: starts_with_def)
  then show ?case by simp
next
  case (Cons x p)
  have "\<not> starts_with ''bbr:('' ((x # p) @ ''bbr:('' @ b)" using Cons.prems by (intro no_bbr_start) auto
  moreover have "starts_with ''bbr:('' s" if "starts_with (''bbr:('' @ b) s" for s
    using that by (auto simp: starts_with_iff)
  ultimately have "\<not> starts_with (''bbr:('' @ b) (x # p @ ''bbr:('' @ b)" by auto
  then show ?case using Cons by simp
qed

lemma join_chars:
  assumes "\<forall>t \<in> set ts. \<forall>c \<in> set t. P c" "P s"
  shows "\<forall>c \<in> set (join_with s ts). P c"
  using set_join[of s ts] assms by blast

lemma bbr_loop_rendered:
  assumes "\<forall>b \<in> set bs. bbr_ok b"
  shows "bbr_loop (map (\<lambda>(k, v). k @ '':'' @ v) bs) acc
    = Ok (fold (\<lambda>(k, v). dict_set k (projr (bbr_value v))) bs acc)"
  using assms
proof (induction bs arbitrary: acc)
  case (Cons b bs)
  obtain k v where b: "b = (k, v)" by (cases b)
  have ok: "bbr_ok (k, v)" using Cons.prems b by simp
  have sp: "split_on (CHR '':'') (k @ CHR '':'' # v) = [k, v]"
  proof -
    have "CHR '':'' \<notin> set k" "CHR '':'' \<notin> set v" using ok unfolding bbr_ok_def list_all_iff by auto
    then show ?thesis by (simp add: split_on_append split_on_single)
  qed
  have ct: "contains '':'' (s @ CHR '':'' # r)" for s r
    by (induction s) (auto simp: starts_with_def)
  have "is_ok (bbr_value v)" using ok by (simp add: bbr_ok_def)
  then obtain m where m: "bbr_value v = Inr m" by (cases "bbr_value v") simp_all
  have "strip (replace_all ''bbr'' [] k) = k" using ok by (simp add: bbr_ok_def)
  then show ?case using Cons sp ct m by (simp add: b)
qed simp

lemma parse_bbr_info_rendered:
  assumes "\<forall>b \<in> set bs. bbr_ok b" "bs \<noteq> []" "distinct (map fst bs)"
  shows "parse_bbr_info (bbr_text bs) = Ok (map (\<lambda>(k, v). (k, projr (bbr_value v))) bs)"
proof -
  let ?ts = "map (\<lambda>(k, v). k @ '':'' @ v) bs"
  have c: "\<forall>t \<in> set ?ts. \<forall>c \<in> set t. c \<noteq> CHR '')'' \<and> c \<noteq> newline \<and> c \<noteq> CHR '',''"
    using assms(1) by (fastforce simp: bbr_ok_def list_all_iff newline_def)
  have "\<forall>c \<in> set (join_with (CHR '','') ?ts). c \<noteq> CHR '')'' \<and> c \<noteq> newline"
    by (rule join_chars) (use c in \<open>auto simp: newline_def\<close>)
  then have "until_paren (join_with (CHR '','') ?ts @ '')'') = Some (join_with (CHR '','') ?ts, [])"
    by (intro until_paren_found) (auto simp: list_all_iff)
  then have "search_paren (bbr_text bs) = Some (join_with (CHR '','') ?ts)"
    by (simp add: bbr_text_def)
  moreover have "split_on (CHR '','') (join_with (CHR '','') ?ts) = ?ts"
    using assms(2) c by (intro split_join) auto
  ultimately show ?thesis
    using assms(3) fold_dict_set_new[of "\<lambda>k. k" bs "[]" "\<lambda>v. projr (bbr_value v)"]
      bbr_loop_rendered[OF assms(1), of "[]"]
    by (simp add: parse_bbr_info_def comp_def)
qed

section \<open>Parsing a rendered line\<close>

lemma search_time_rendered:
  "rest = [] \<or> hd rest = CHR '' '' \<Longrightarrow> search_time (''time:'' @ string_of_nat t @ rest) = Some (string_of_nat t)"
proof -
  assume rest: "rest = [] \<or> hd rest = CHR '' ''"
  have dec: "\<forall>c \<in> set (string_of_nat t). is_dec c" using string_of_nat_dec[of t] by (simp add: list_all_iff)
  have "\<not> is_dec (CHR '' '')" by (simp add: is_dec_def code_pt_def)
  then have "takeWhile is_dec (string_of_nat t @ rest) = string_of_nat t"
    using rest dec by (cases rest) (auto simp: takeWhile_append2)
  then show ?thesis by (simp add: starts_with_def)
qed

lemma render_pairs_no_paren: "\<forall>p \<in> set ps. pair_ok p \<Longrightarrow> CHR ''('' \<notin> set (render_pairs ps)"
  using word_char_colon by (fastforce simp: render_pairs_def pair_ok_def list_all_iff)

lemma digits_no_paren: "CHR ''('' \<notin> set (string_of_nat t)" "CHR '' '' \<notin> set (string_of_nat t)"
  using string_of_nat_dec[of t] by (auto simp: list_all_iff is_dec_def code_pt_def)

lemma time_pair_ok: "pair_ok (''time'', string_of_nat t)"
  using digits_no_paren[of t] by (simp add: pair_ok_def is_word_char_def is_dec_def code_pt_def)

lemma parse_metrics_rendered:
  assumes "\<forall>p \<in> set ps. pair_ok p" "\<forall>b \<in> set bs. bbr_ok b" "distinct (map fst bs)"
  shows "parse_metrics metrics (render_ss t ps bs) =
    Ok (pairs_loop ((''time'', string_of_nat t) # ps)
         (if bs = [] then metrics
          else dict_set ''bbr'' (Bbr (map (\<lambda>(k, v). (k, projr (bbr_value v))) bs)) metrics))"
proof -
  let ?p = "render_pairs ((''time'', string_of_nat t) # ps)"
  have ok: "\<forall>p \<in> set ((''time'', string_of_nat t) # ps). pair_ok p" using assms(1) time_pair_ok by simp
  have lead: "CHR '' '' # render_ss t ps bs = ?p @ (if bs = [] then [] else '' '' @ bbr_text bs)"
    by (simp add: render_ss_def render_pairs_def)
  obtain q where q: "?p = CHR '' '' # q" "CHR ''('' \<notin> set q"
    using render_pairs_no_paren[OF ok] by (auto simp: render_pairs_def)
  have r: "render_ss t ps bs = q @ (if bs = [] then [] else '' '' @ bbr_text bs)"
    using lead q(1) by (auto split: if_splits)
  have pairs: "findall_pairs (q @ s) = (''time'', string_of_nat t) # ps" if "s = [] \<or> s = '' ''" for s
    using findall_pairs_rendered[OF ok that] q(1) by (simp add: findall_pairs_space)
  show ?thesis
  proof (cases "bs = []")
    case True
    then show ?thesis using r search_bbr_none[OF q(2)] pairs[of "[]"] by (simp add: parse_metrics_def)
  next
    case False
    let ?b = "join_with (CHR '','') (map (\<lambda>(k, v). k @ '':'' @ v) bs) @ '')''"
    have bt: "bbr_text bs = ''bbr:('' @ ?b" by (simp add: bbr_text_def)
    have p4: "CHR ''('' \<notin> set (take 4 (bbr_text bs))" by (simp add: bbr_text_def)
    have "CHR ''('' \<notin> set (q @ '' '')" using q(2) by simp
    note skip = search_bbr_skip[OF this p4]
    have un: "until_paren ?b = Some (join_with (CHR '','') (map (\<lambda>(k, v). k @ '':'' @ v) bs), [])"
    proof (rule until_paren_found)
      have "\<forall>t \<in> set (map (\<lambda>(k, v). k @ '':'' @ v) bs). \<forall>c \<in> set t. c \<noteq> CHR '')'' \<and> c \<noteq> newline"
        using assms(2) by (fastforce simp: bbr_ok_def list_all_iff newline_def)
      then have "\<forall>c \<in> set (join_with (CHR '','') (map (\<lambda>(k, v). k @ '':'' @ v) bs)). c \<noteq> CHR '')'' \<and> c \<noteq> newline"
        by (rule join_chars) (simp add: newline_def)
      then show "list_all (\<lambda>c. c \<noteq> CHR '')'' \<and> c \<noteq> newline) (join_with (CHR '','') (map (\<lambda>(k, v). k @ '':'' @ v) bs))"
        by (simp add: list_all_iff)
    qed
    have "search_bbr (bbr_text bs) = Some (bbr_text bs)"
      unfolding bt using un by (simp add: starts_with_def)
    then have "search_bbr (render_ss t ps bs) = Some (bbr_text bs)" using r skip False by simp
    moreover have "replace_all (bbr_text bs) [] (render_ss t ps bs) = q @ '' ''"
      using replace_bbr_end[of "q @ '' ''" ?b] q(2) r False by (simp add: bt)
    ultimately show ?thesis
      using parse_bbr_info_rendered[OF assms(2) False assms(3)] pairs[of "'' ''"] False
      by (simp add: parse_metrics_def)
  qed
qed

lemma nano_to_sec_small: "t \<le> 2 ^ 53 \<Longrightarrow> nano_to_sec (int t) = Ok (mk_float (of_nat t / 1000000000))"
  using float_of_int_small[of "int t"] by (simp add: nano_to_sec_def)

lemma render_ss_time: "search_time (render_ss t ps bs) = Some (string_of_nat t)"
  unfolding render_ss_def
  by (rule search_time_rendered) (cases ps; auto simp: render_pairs_def)



section \<open>Files\<close>

lemma parse_lines_collects:
  "parse_lines parse ls acc = acc @ concat (map (\<lambda>l. case parse (strip l) of
     Inr (Some m) \<Rightarrow> (if m = [] then [] else [m]) | _ \<Rightarrow> []) ls)"
  by (induction parse ls acc rule: parse_lines.induct) (auto split: sum.splits option.splits)

lemma parse_until_error_collects:
  "parse_until_error parse ls acc = parse_lines parse (takeWhile (\<lambda>l. is_ok (parse (strip l))) ls) acc"
  by (induction parse ls acc rule: parse_until_error.induct) (auto split: sum.splits option.splits)

lemma fold_dict_set_keys: "fst ` set (fold (\<lambda>(k, v). dict_set (f k) (g v)) ps d) = fst ` set d \<union> (f \<circ> fst) ` set ps"
proof (induction ps arbitrary: d)
  case (Cons p ps)
  then show ?case by (cases p) (simp add: dict_set_keys insert_commute)
qed simp

lemma pairs_loop_keys: "fst ` set (pairs_loop ps d) = fst ` set d \<union> fst ` set ps"
  using fold_dict_set_keys[of "\<lambda>k. k" "\<lambda>v. Metric (pair_value v)" ps d]
  by (simp add: pairs_loop_def comp_def)

lemma parse_metrics_keeps:
  "parse_metrics metrics line = Inr m \<Longrightarrow> fst ` set metrics \<subseteq> fst ` set m"
proof (cases "search_bbr line")
  case (Some bbr)
  assume "parse_metrics metrics line = Inr m"
  then obtain info where "m = pairs_loop (findall_pairs (replace_all bbr [] line)) (dict_set ''bbr'' (Bbr info) metrics)"
    using Some by (auto simp: parse_metrics_def and_then_eq_Ok)
  then show ?thesis by (simp only: pairs_loop_keys dict_set_keys) blast
next
  case None
  assume "parse_metrics metrics line = Inr m"
  then have "m = pairs_loop (findall_pairs line) metrics" using None by (simp add: parse_metrics_def)
  then show ?thesis by (simp only: pairs_loop_keys) blast
qed

lemma parse_line_nonempty: "parse_line ft line = Inr (Some m) \<Longrightarrow> m \<noteq> []"
  by (auto simp: parse_line_def and_then_eq_Ok split: option.splits dest: parse_metrics_keeps)

text \<open>\<open>parse_file\<close> appends to the parsed data, for every line of the
  file that carries a time stamp and parses, its entry, in order; a line that
  raises is skipped and changes nothing else, and without the file the parser
  keeps its state and the result is false.\<close>

lemma parse_file_collects:
  "parse_file fromtimestamp files self =
    (case files (log_file self) of
       None \<Rightarrow> (False, self)
     | Some content \<Rightarrow> (True, self\<lparr>parsed_data := parsed_data self @
         concat (map (\<lambda>l. case parse_line fromtimestamp (strip l) of Inr (Some m) \<Rightarrow> [m] | _ \<Rightarrow> [])
                   (readlines content))\<rparr>))"
proof -
  have "(case parse_line fromtimestamp s of Inr (Some m) \<Rightarrow> (if m = [] then [] else [m]) | _ \<Rightarrow> [])
      = (case parse_line fromtimestamp s of Inr (Some m) \<Rightarrow> [m] | _ \<Rightarrow> [])" for s
    by (auto dest: parse_line_nonempty split: sum.splits option.splits)
  then show ?thesis by (simp add: parse_file_def parse_lines_collects split: option.splits)
qed

text \<open>The two file loops on the same line parser: stopping at the first
  line that raises (\<open>parse_ss\<close>) yields a prefix of what skipping such
  lines (\<open>parse_file\<close>) yields, and the same if no line raises.\<close>

lemma parse_until_error_prefix:
  "prefix (parse_until_error parse ls acc) (parse_lines parse ls acc)
   \<and> (list_all (\<lambda>l. is_ok (parse (strip l))) ls \<longrightarrow> parse_until_error parse ls acc = parse_lines parse ls acc)"
proof -
  let ?P = "\<lambda>l. is_ok (parse (strip l))"
  have "parse_lines parse (xs @ ys) acc = parse_lines parse ys (parse_lines parse xs acc)" for xs ys
    by (simp add: parse_lines_collects)
  from this[of "takeWhile ?P ls" "dropWhile ?P ls"]
  have "prefix (parse_until_error parse ls acc) (parse_lines parse ls acc)"
    by (simp add: parse_until_error_collects parse_lines_collects)
  moreover have "parse_until_error parse ls acc = parse_lines parse ls acc" if "list_all ?P ls"
  proof -
    have "takeWhile ?P ls = ls" using that by (simp add: list_all_iff)
    then show ?thesis by (simp only: parse_until_error_collects)
  qed
  ultimately show ?thesis by blast
qed

section \<open>Tables\<close>

definition has_bbr_dict :: "'d ss_entry \<Rightarrow> bool" where
  "has_bbr_dict entry \<longleftrightarrow> (case map_of entry ''bbr'' of None \<Rightarrow> True | Some (Bbr b) \<Rightarrow> True | _ \<Rightarrow> False)"

lemma flatten_entry_error: "flatten_entry entry = Inl e \<longleftrightarrow> e = AttributeError \<and> \<not> has_bbr_dict entry"
  by (auto simp: flatten_entry_def has_bbr_dict_def split: option.splits ss_value.splits)

lemma fold_dict_set_lookup:
  assumes "inj f" "distinct (map fst ps)"
  shows "map_of (fold (\<lambda>(k, v). dict_set (f k) (g v)) ps d) (f k)
     = (case map_of ps k of Some v \<Rightarrow> Some (g v) | None \<Rightarrow> map_of d (f k))"
    and "x \<notin> range f \<Longrightarrow> map_of (fold (\<lambda>(k, v). dict_set (f k) (g v)) ps d) x = map_of d x"
proof -
  show "map_of (fold (\<lambda>(k, v). dict_set (f k) (g v)) ps d) (f k)
     = (case map_of ps k of Some v \<Rightarrow> Some (g v) | None \<Rightarrow> map_of d (f k))"
    using assms(2)
  proof (induction ps arbitrary: d)
    case (Cons p ps)
    obtain k' v' where p: "p = (k', v')" by (cases p)
    have "map_of ps k' = None" using Cons.prems p by (simp add: map_of_eq_None_iff)
    then show ?case using Cons assms(1)
      by (auto simp: p dict_set_map_of inj_eq split: option.splits)
  qed simp
  show "x \<notin> range f \<Longrightarrow> map_of (fold (\<lambda>(k, v). dict_set (f k) (g v)) ps d) x = map_of d x"
    by (induction ps arbitrary: d) (auto simp: dict_set_map_of)
qed

text \<open>Flattening an entry moves the BBR dictionary to the top level and
  loses nothing: every BBR parameter \<open>k\<close> is found as \<open>bbr_k\<close>, every
  other key whose name does not start with \<open>bbr_\<close> keeps its value, and no
  key \<open>bbr\<close> is left.\<close>

lemma flatten_entry_lookup:
  assumes "map_of entry ''bbr'' = Some (Bbr bbr_data)" "distinct (map fst bbr_data)"
  shows "\<exists>flat. flatten_entry entry = Ok flat
    \<and> (\<forall>k v. map_of bbr_data k = Some v \<longrightarrow> map_of flat (''bbr_'' @ k) = Some (Metric v))
    \<and> (\<forall>k. \<not> starts_with ''bbr_'' k \<and> k \<noteq> ''bbr'' \<longrightarrow> map_of flat k = map_of entry k)
    \<and> map_of flat ''bbr'' = None"
proof -
  let ?f = "\<lambda>k. ''bbr_'' @ k"
  let ?flat = "fold (\<lambda>(k, v). dict_set (?f k) (Metric v)) bbr_data (dict_pop ''bbr'' entry)"
  have ok: "flatten_entry entry = Ok ?flat" using assms(1) by (simp add: flatten_entry_def)
  have inj: "inj ?f" by (simp add: inj_def)
  have range: "k \<in> range ?f \<longleftrightarrow> starts_with ''bbr_'' k" for k
    unfolding starts_with_iff image_iff by blast
  have "map_of ?flat (?f k) = Some (Metric v)" if "map_of bbr_data k = Some v" for k v
    unfolding fold_dict_set_lookup(1)[OF inj assms(2)] using that by simp
  moreover have "map_of ?flat k = map_of (dict_pop ''bbr'' entry) k" if "\<not> starts_with ''bbr_'' k" for k
    by (rule fold_dict_set_lookup(2)[OF inj assms(2)]) (use that range in blast)
  ultimately show ?thesis using ok
    by (intro exI[of _ ?flat]) (auto simp: dict_pop_map_of starts_with_def)
qed

text \<open>(C31) \<open>save_csv\<close> writes a table exactly when there are data and every
  \<open>bbr\<close> value is a dictionary (another one raises): its field names are
  the keys of the flattened entries, each once and in ascending order, so that
  no row is refused, and the cell of an entry under a name is the entry's value
  for it, empty where it has none.\<close>

theorem save_csv_table:
  "save_csv self =
    (if parsed_data self = [] then Ok None
     else if list_all has_bbr_dict (parsed_data self)
     then let flat = map (projr \<circ> flatten_entry) (parsed_data self);
              headers = sorted_list_of_set (\<Union>entry \<in> set flat. fst ` set entry)
          in Ok (Some (headers, map (\<lambda>entry. map (map_of entry) headers) flat))
     else Raise AttributeError)"
proof (cases "list_all has_bbr_dict (parsed_data self)")
  case True
  let ?flat = "map (projr \<circ> flatten_entry) (parsed_data self)"
  have "flatten_entry entry = Inr (projr (flatten_entry entry))" if "entry \<in> set (parsed_data self)" for entry
    using True that flatten_entry_error[of entry] by (cases "flatten_entry entry") (auto simp: list_all_iff)
  then have flat: "map_result flatten_entry (parsed_data self) = Inr ?flat"
    using map_result_pure[of "parsed_data self" flatten_entry "projr \<circ> flatten_entry"] by simp
  have headers: "csv_headers fs = sorted_list_of_set (\<Union>entry \<in> set fs. fst ` set entry)" for fs :: "'a ss_entry list"
    by (simp add: csv_headers_def sorted_list_of_set_sort_remdups[symmetric] image_image)
  have "map_result (write_row (csv_headers ?flat)) ?flat = Inr (map (\<lambda>entry. map (map_of entry) (csv_headers ?flat)) ?flat)"
    by (rule map_result_pure) (force simp: write_row_def list_all_iff csv_headers_def)
  then show ?thesis using True flat headers[of ?flat] by (simp add: save_csv_def Let_def)
next
  case False
  then obtain entry where bad: "entry \<in> set (parsed_data self)" "\<not> has_bbr_dict entry"
    by (auto simp: list_all_iff)
  have "flatten_entry entry = Inl AttributeError" using bad(2) flatten_entry_error by blast
  then have "\<exists>e. map_result flatten_entry (parsed_data self) = Inl e"
    using bad(1) map_result_raises by blast
  moreover have "e = AttributeError" if "map_result flatten_entry xs = Inl e" for e and xs :: "'a ss_entry list"
    using that by (induction xs) (auto simp: and_then_eq_Raise flatten_entry_error)
  ultimately have "map_result flatten_entry (parsed_data self) = Inl AttributeError" by blast
  then show ?thesis using False bad(1) by (auto simp: save_csv_def)
qed

end
