(* ===== verification/Handover_Metrics.thy ===== *)
theory Handover_Metrics
  imports PyFloat "HOL-Library.Multiset"
begin

text \<open>
  The analysis functions of \<open>scripts/processing/metrics.py\<close>: windows of a
  throughput series, handovers by type, the time spent on each link, the
  samples nearest to the handovers, ramp-up times, precision and recall, and
  the empirical distribution function. Times and throughputs are Python
  floats; integers of the source that meet a float are the floats of the same
  value. NumPy's \<open>unique\<close> and \<open>random.random\<close> are parameters.
\<close>

section \<open>Windows of a series\<close>

text \<open>The loop of \<open>filter_time_range\<close> (the same code is
  \<open>filter_time_range_iperf\<close> in \<open>parse-logs.py\<close>).\<close>

fun filter_time_loop ::
  "pyfloat \<Rightarrow> pyfloat \<Rightarrow> (pyfloat \<times> 'a) list \<Rightarrow> pyfloat list \<Rightarrow> 'a list \<Rightarrow> pyfloat list \<times> 'a list"
where
  "filter_time_loop lo hi [] ft fd = (ft, fd)"
| "filter_time_loop lo hi ((t, tp) # ps) ft fd =
     (if float_le lo t \<and> float_le t hi
      then filter_time_loop lo hi ps (ft @ [t]) (fd @ [tp])
      else filter_time_loop lo hi ps ft fd)"

definition filter_time_range ::
  "pyfloat list \<Rightarrow> 'a list \<Rightarrow> pyfloat \<Rightarrow> pyfloat \<Rightarrow> pyfloat list \<times> 'a list"
where
  "filter_time_range data_times data start_time end_time =
     filter_time_loop start_time end_time (zip data_times data) [] []"

text \<open>\<open>sum(xs) / len(xs)\<close>\<close>

definition float_mean :: "pyfloat list \<Rightarrow> pyfloat result" where
  "float_mean xs = float_div (float_sum xs) (Fin (of_nat (length xs)))"

definition calculate_ho_thuput ::
  "pyfloat list \<Rightarrow> pyfloat list \<Rightarrow> pyfloat list \<Rightarrow> pyfloat \<Rightarrow> pyfloat list result"
where
  "calculate_ho_thuput ho_times thuput_times thuput windowsz =
     map_result (\<lambda>t. float_mean (snd (filter_time_range thuput_times thuput
        (float_sub t windowsz) (float_add t windowsz)))) ho_times"

section \<open>Handovers by type\<close>

fun ho_type_loop :: "int \<times> int \<Rightarrow> int \<Rightarrow> 'a list \<Rightarrow> int list \<Rightarrow> 'a list \<Rightarrow> 'a list result" where
  "ho_type_loop ho_type prev_link [] links ho_spec = Ok ho_spec"
| "ho_type_loop ho_type prev_link (t # ts) [] ho_spec = Raise IndexError"
| "ho_type_loop ho_type prev_link (t # ts) (l # ls) ho_spec =
     ho_type_loop ho_type l ts ls
       (if prev_link = fst ho_type \<and> l = snd ho_type then ho_spec @ [t] else ho_spec)"

definition filter_ho_types :: "'a list \<Rightarrow> int list \<Rightarrow> int \<times> int \<Rightarrow> int \<Rightarrow> 'a list result" where
  "filter_ho_types ho_times target_links ho_type initial_link =
     (if fst ho_type = 0 \<and> snd ho_type = 0 then Ok ho_times
      else ho_type_loop ho_type initial_link ho_times target_links [])"

section \<open>Time on each link\<close>

type_synonym durations = "int \<rightharpoonup> (pyfloat \<times> pyfloat) list"

definition dd_get :: "durations \<Rightarrow> int \<Rightarrow> (pyfloat \<times> pyfloat) list" where
  "dd_get d l = (case d l of None \<Rightarrow> [] | Some xs \<Rightarrow> xs)"

text \<open>\<open>duration[l].append([start, -1])\<close> and \<open>duration[l][-1][1] = end\<close> on the
  \<open>defaultdict(list)\<close>.\<close>

definition dd_append :: "durations \<Rightarrow> int \<Rightarrow> pyfloat \<Rightarrow> durations" where
  "dd_append d l start = d(l \<mapsto> dd_get d l @ [(start, Fin (- 1))])"

definition dd_close :: "durations \<Rightarrow> int \<Rightarrow> pyfloat \<Rightarrow> durations result" where
  "dd_close d l end_time =
     (let xs = dd_get d l
      in if xs = [] then Raise IndexError
         else Ok (d(l \<mapsto> butlast xs @ [(fst (last xs), end_time)])))"

fun link_duration_loop ::
  "int \<Rightarrow> pyfloat list \<Rightarrow> int list \<Rightarrow> durations \<Rightarrow> (int \<times> durations) result"
where
  "link_duration_loop prev_link [] links d = Ok (prev_link, d)"
| "link_duration_loop prev_link (t # ts) [] d = Raise IndexError"
| "link_duration_loop prev_link (t # ts) (l # ls) d =
     (if l \<noteq> prev_link
      then and_then (dd_close d prev_link t) (\<lambda>d'. link_duration_loop l ts ls (dd_append d' l t))
      else link_duration_loop prev_link ts ls d)"

definition filter_link_duration ::
  "pyfloat list \<Rightarrow> int list \<Rightarrow> pyfloat \<Rightarrow> int \<Rightarrow> durations result"
where
  "filter_link_duration ho_times target_links time_end initial_link =
     and_then (link_duration_loop initial_link ho_times target_links
        (dd_append Map.empty initial_link (Fin 0)))
       (\<lambda>(prev_link, d). dd_close d prev_link time_end)"

text \<open>The samples of the main program's \<open>sub6_thuputs\<close> and
  \<open>mmw_thuputs\<close>: those in the intervals of one link.\<close>

definition link_thuputs :: "durations \<Rightarrow> int \<Rightarrow> pyfloat list \<Rightarrow> 'a list \<Rightarrow> 'a list" where
  "link_thuputs d l thuput_times thuputs =
     concat (map (\<lambda>dur. snd (filter_time_range thuput_times thuputs (fst dur) (snd dur))) (dd_get d l))"

section \<open>Nearest samples\<close>

text \<open>\<open>min(xs, key=k)\<close>: the first element whose key no later key is less than.\<close>

fun min_key_loop :: "('a \<Rightarrow> pyfloat) \<Rightarrow> 'a \<Rightarrow> 'a list \<Rightarrow> 'a" where
  "min_key_loop k m [] = m"
| "min_key_loop k m (x # xs) = min_key_loop k (if float_lt (k x) (k m) then x else m) xs"

definition py_min_key :: "('a \<Rightarrow> pyfloat) \<Rightarrow> 'a list \<Rightarrow> 'a result" where
  "py_min_key k xs = (case xs of [] \<Rightarrow> Raise ValueError | x # ys \<Rightarrow> Ok (min_key_loop k x ys))"

fun max_loop :: "pyfloat \<Rightarrow> pyfloat list \<Rightarrow> pyfloat" where
  "max_loop m [] = m"
| "max_loop m (x # xs) = max_loop (if float_lt m x then x else m) xs"

definition py_max :: "pyfloat list \<Rightarrow> pyfloat result" where
  "py_max xs = (case xs of [] \<Rightarrow> Raise ValueError | x # ys \<Rightarrow> Ok (max_loop x ys))"

fun list_index :: "'a list \<Rightarrow> 'a \<Rightarrow> nat result" where
  "list_index [] x = Raise ValueError"
| "list_index (y # ys) x =
     (if y = x then Ok 0 else and_then (list_index ys x) (\<lambda>i. Ok (Suc i)))"

definition find_closest_values :: "pyfloat list \<Rightarrow> pyfloat list \<Rightarrow> pyfloat list result" where
  "find_closest_values list_a list_b =
     map_result (\<lambda>a. py_min_key (\<lambda>b. float_abs (float_sub b a)) list_b) list_a"

definition find_closest_indices :: "pyfloat list \<Rightarrow> pyfloat list \<Rightarrow> nat list result" where
  "find_closest_indices list_a list_b =
     map_result (\<lambda>v. let differences = map (\<lambda>b. float_abs (float_sub v b)) list_b
        in and_then (py_min_key (\<lambda>x. x) differences) (\<lambda>m. list_index differences m)) list_a"

section \<open>Ramp-up times\<close>

text \<open>The inner \<open>while\<close> loop from sample \<open>i\<close> on; the last two
  arguments are what is left of the times and the throughputs.\<close>

fun ramp_loop ::
  "pyfloat \<Rightarrow> pyfloat \<Rightarrow> pyfloat \<Rightarrow> pyfloat \<Rightarrow> pyfloat list \<Rightarrow> pyfloat list \<Rightarrow> (bool \<times> pyfloat) result"
where
  "ramp_loop stable_tp thresh start_t rampup_t [] ys = Ok (False, rampup_t)"
| "ramp_loop stable_tp thresh start_t rampup_t (t # ts) ys =
     (if float_lt rampup_t thresh
      then (case ys of
              [] \<Rightarrow> Raise IndexError
            | y # ys' \<Rightarrow>
                (if float_le stable_tp y then Ok (True, float_sub t start_t)
                 else ramp_loop stable_tp thresh start_t (float_sub t start_t) ts ys'))
      else Ok (False, rampup_t))"

text \<open>The ramp-up time from sample \<open>i\<close>, measured from the time of sample
  \<open>j\<close>; \<open>-1\<close> when the stable throughput is not reached.\<close>

definition ramp_from ::
  "pyfloat list \<Rightarrow> pyfloat list \<Rightarrow> pyfloat \<Rightarrow> pyfloat \<Rightarrow> nat \<Rightarrow> nat \<Rightarrow> pyfloat result"
where
  "ramp_from thuput_times thuputs stable_tp thresh i j =
     and_then (py_index thuput_times (int j)) (\<lambda>start_t.
     and_then (ramp_loop stable_tp thresh start_t (Fin 0) (drop i thuput_times) (drop i thuputs)) (\<lambda>(found, rampup_t).
       Ok (if found then rampup_t else Fin (- 1))))"

text \<open>The final pass: an unreached ramp-up takes the largest one, a zero one a
  random value (the \<open>k\<close>-th call of \<open>random.random\<close>) plus a half.\<close>

fun replace_loop :: "(nat \<Rightarrow> pyfloat) \<Rightarrow> pyfloat \<Rightarrow> nat \<Rightarrow> pyfloat list \<Rightarrow> pyfloat list" where
  "replace_loop rand max_ramp_t k [] = []"
| "replace_loop rand max_ramp_t k (t # ts) =
     (if float_lt t (Fin 0) then max_ramp_t # replace_loop rand max_ramp_t k ts
      else if t = Fin 0
      then float_add t (float_add (rand k) (Fin (1 / 2))) # replace_loop rand max_ramp_t (Suc k) ts
      else t # replace_loop rand max_ramp_t k ts)"

definition raw_rampups ::
  "pyfloat list \<Rightarrow> pyfloat list \<Rightarrow> pyfloat list \<Rightarrow> pyfloat \<Rightarrow> pyfloat \<Rightarrow> pyfloat list result"
where
  "raw_rampups ho_times thuput_times thuputs stable_tp thresh =
     and_then (find_closest_indices ho_times thuput_times) (\<lambda>starts.
     and_then (map_result (\<lambda>i. ramp_from thuput_times thuputs stable_tp thresh i i) (butlast starts)) (\<lambda>firsts.
     and_then (py_index starts (- 1)) (\<lambda>i.
     and_then (ramp_from thuput_times thuputs stable_tp thresh i (i + 1)) (\<lambda>l.
       Ok (firsts @ [l])))))"

definition calculate_rampup_time ::
  "(nat \<Rightarrow> pyfloat) \<Rightarrow> pyfloat list \<Rightarrow> pyfloat list \<Rightarrow> pyfloat list \<Rightarrow> pyfloat \<Rightarrow> pyfloat \<Rightarrow> pyfloat list result"
where
  "calculate_rampup_time rand ho_times thuput_times thuputs stable_thuput thresh =
     and_then (raw_rampups ho_times thuput_times thuputs stable_thuput thresh) (\<lambda>rampup_times.
     and_then (py_max rampup_times) (\<lambda>m.
       Ok (replace_loop rand (if float_lt m (Fin 0) then thresh else m) 0 rampup_times)))"

section \<open>Precision and recall, distribution function\<close>

definition rounded_ratio :: "int \<Rightarrow> int \<Rightarrow> pyfloat result" where
  "rounded_ratio a b = and_then (int_truediv a b) (\<lambda>x. Ok (round_digits 4 x))"

text \<open>What \<open>calculate_p_r\<close> prints: a pair per type, then the totals.\<close>

definition calculate_p_r ::
  "int list \<Rightarrow> int list \<Rightarrow> int list \<Rightarrow> ((pyfloat \<times> pyfloat) list \<times> (pyfloat \<times> pyfloat)) result"
where
  "calculate_p_r tap tp tpp =
     and_then (map_result (\<lambda>i.
         and_then (py_index tp (int i)) (\<lambda>n.
         and_then (py_index tpp (int i)) (\<lambda>d.
         and_then (rounded_ratio n d) (\<lambda>p.
         and_then (rounded_ratio n (tap ! i)) (\<lambda>r. Ok (p, r)))))) [0..<length tap]) (\<lambda>rows.
     and_then (rounded_ratio (sum_list tp) (sum_list tpp)) (\<lambda>p.
     and_then (rounded_ratio (sum_list tp) (sum_list tap)) (\<lambda>r. Ok (rows, (p, r)))))"

fun running_sums :: "nat \<Rightarrow> nat list \<Rightarrow> nat list" where
  "running_sums acc [] = []"
| "running_sums acc (x # xs) = (acc + x) # running_sums (acc + x) xs"

text \<open>\<open>ecdf\<close>, with \<open>np.unique(a, return_counts=True)\<close> a parameter.\<close>

definition ecdf ::
  "('a list \<Rightarrow> 'a list \<times> nat list) \<Rightarrow> 'a list \<Rightarrow> ('a list \<times> pyfloat list) result"
where
  "ecdf np_unique a =
     (case np_unique a of (x, counts) \<Rightarrow>
        let cusum = running_sums 0 counts
        in if cusum = [] then Raise IndexError
           else Ok (x, map (\<lambda>c. mk_float (of_nat c / of_nat (last cusum))) cusum))"

section \<open>Selecting by a strict order\<close>

text \<open>What \<open>min\<close>, \<open>max\<close> and \<open>index\<close> rely on of the comparison:
  a strict partial order (NaN is below and above nothing).\<close>

locale strict_selection =
  fixes lt :: "'k \<Rightarrow> 'k \<Rightarrow> bool"
  assumes lt_irrefl: "\<not> lt x x"
    and lt_trans: "lt x y \<Longrightarrow> lt y z \<Longrightarrow> lt x z"
begin

text \<open>The left-to-right selection: the position of the running minimum.\<close>

fun pick :: "'k list \<Rightarrow> nat \<Rightarrow> 'k \<Rightarrow> nat \<Rightarrow> nat" where
  "pick [] p m i = p"
| "pick (x # xs) p m i = (if lt x m then pick xs i x (Suc i) else pick xs p m (Suc i))"

definition first_min :: "'k list \<Rightarrow> nat \<Rightarrow> bool" where
  "first_min ks p \<longleftrightarrow> p < length ks \<and> (\<forall>j < length ks. \<not> lt (ks ! j) (ks ! p)) \<and> (\<forall>j < p. ks ! j \<noteq> ks ! p)"

lemma first_min_snoc_less:
  assumes "first_min ks p" "lt x (ks ! p)"
  shows "first_min (ks @ [x]) (length ks)"
proof -
  have "\<not> lt (ks ! j) x" if "j < length ks" for j
    using assms that lt_trans unfolding first_min_def by blast
  moreover have "ks ! j \<noteq> x" if "j < length ks" for j
    using assms that unfolding first_min_def by blast
  ultimately show ?thesis
    unfolding first_min_def by (auto simp: nth_append lt_irrefl less_Suc_eq)
qed

lemma first_min_snoc_not_less:
  assumes "first_min ks p" "\<not> lt x (ks ! p)"
  shows "first_min (ks @ [x]) p"
  using assms unfolding first_min_def by (auto simp: nth_append less_Suc_eq)

lemma pick_first_min:
  "first_min ks p \<Longrightarrow> first_min (ks @ xs) (pick xs p (ks ! p) (length ks))"
proof (induction xs arbitrary: ks p)
  case Nil
  then show ?case by simp
next
  case (Cons x xs)
  have p: "p < length ks" using Cons.prems by (simp add: first_min_def)
  show ?case
  proof (cases "lt x (ks ! p)")
    case True
    from Cons.IH[OF first_min_snoc_less[OF Cons.prems True]] True show ?thesis by simp
  next
    case False
    from Cons.IH[OF first_min_snoc_not_less[OF Cons.prems False]] False p show ?thesis
      by (simp add: nth_append)
  qed
qed

lemma pick_from_head: "first_min (x # xs) (pick xs 0 x (Suc 0))"
  using pick_first_min[of "[x]" 0 xs] by (simp add: first_min_def lt_irrefl)

lemma first_min_unique: "first_min ks p \<Longrightarrow> first_min ks q \<Longrightarrow> ks ! p = ks ! q \<Longrightarrow> p = q"
  unfolding first_min_def by (metis linorder_neqE_nat)

end

interpretation float_order: strict_selection float_lt
proof
  fix x y z :: pyfloat
  show "\<not> float_lt x x" by (cases x) auto
  show "float_lt x y \<Longrightarrow> float_lt y z \<Longrightarrow> float_lt x z"
    by (cases x; cases y; cases z) auto
qed

interpretation float_order_rev: strict_selection "\<lambda>x y. float_lt y x"
  by unfold_locales (use float_order.lt_irrefl float_order.lt_trans in blast)+

lemma min_key_loop_pick:
  "p < length ks \<Longrightarrow> m = ks ! p \<Longrightarrow>
     min_key_loop k m xs = (ks @ xs) ! float_order.pick (map k xs) p (k m) (length ks)
     \<and> float_order.pick (map k xs) p (k m) (length ks) < length (ks @ xs)"
proof (induction xs arbitrary: ks p m)
  case Nil
  then show ?case by simp
next
  case (Cons x xs)
  show ?case
  proof (cases "float_lt (k x) (k m)")
    case True
    with Cons.IH[of "length ks" "ks @ [x]" x] show ?thesis by simp
  next
    case False
    with Cons.IH[of p "ks @ [x]" m] Cons.prems show ?thesis by (simp add: nth_append)
  qed
qed

text \<open>\<open>min\<close> with a key returns the element at the first position whose key
  is minimal.\<close>

lemma py_min_key_first:
  assumes "py_min_key k xs = Inr x"
  shows "\<exists>p. float_order.first_min (map k xs) p \<and> x = xs ! p"
proof -
  obtain y ys where xs: "xs = y # ys" using assms by (cases xs) (auto simp: py_min_key_def)
  let ?p = "float_order.pick (map k ys) 0 (k y) (Suc 0)"
  have "x = xs ! ?p"
    using assms min_key_loop_pick[of 0 "[y]" y k ys] by (simp add: xs py_min_key_def)
  moreover have "float_order.first_min (map k xs) ?p"
    using float_order.pick_from_head[of "k y" "map k ys"] by (simp add: xs)
  ultimately show ?thesis by blast
qed

lemma py_min_key_nonempty: "xs \<noteq> [] \<Longrightarrow> \<exists>x. py_min_key k xs = Inr x"
  by (cases xs) (auto simp: py_min_key_def)

lemma py_min_key_Nil [simp]: "py_min_key k [] = Inl ValueError"
  by (simp add: py_min_key_def)

lemma list_index_nth:
  "p < length ks \<Longrightarrow> \<forall>j < p. ks ! j \<noteq> ks ! p \<Longrightarrow> list_index ks (ks ! p) = Inr p"
proof (induction ks arbitrary: p)
  case (Cons k ks)
  show ?case
  proof (cases p)
    case (Suc q)
    have "\<forall>j < q. ks ! j \<noteq> ks ! q"
    proof (intro allI impI)
      fix j assume "j < q"
      with Cons.prems(2) Suc have "(k # ks) ! Suc j \<noteq> (k # ks) ! p" by blast
      then show "ks ! j \<noteq> ks ! q" by (simp add: Suc)
    qed
    moreover have "k \<noteq> ks ! q" using Cons.prems(2) Suc by (metis nth_Cons_0 nth_Cons_Suc zero_less_Suc)
    ultimately show ?thesis using Cons Suc by simp
  qed simp
qed simp

lemma closest_index:
  assumes "list_b \<noteq> []"
  shows "\<exists>p. and_then (py_min_key (\<lambda>x. x) (map k list_b)) (\<lambda>m. list_index (map k list_b) m) = Inr p
    \<and> float_order.first_min (map k list_b) p
    \<and> py_min_key k list_b = Inr (list_b ! p)"
proof -
  obtain m where m: "py_min_key (\<lambda>x. x) (map k list_b) = Inr m"
    using py_min_key_nonempty[of "map k list_b" "\<lambda>x. x"] assms by auto
  obtain p where p: "float_order.first_min (map k list_b) p" "m = map k list_b ! p"
    using py_min_key_first[OF m] by auto
  obtain x where x: "py_min_key k list_b = Inr x" using py_min_key_nonempty assms by blast
  obtain q where q: "float_order.first_min (map k list_b) q" "x = list_b ! q"
    using py_min_key_first[OF x] by auto
  have "p = q"
  proof -
    obtain y ys where b: "list_b = y # ys" using assms by (cases list_b) auto
    have "m = min_key_loop (\<lambda>x. x) (k y) (map k ys)" using m b by (simp add: py_min_key_def)
    moreover have "min_key_loop (\<lambda>x. x) (k y) (map k ys) = k (min_key_loop k y ys)" for y
      by (induction ys arbitrary: y) auto
    moreover have "x = min_key_loop k y ys" using x b by (simp add: py_min_key_def)
    ultimately have "map k list_b ! p = map k list_b ! q"
      using p q by (simp add: float_order.first_min_def)
    then show ?thesis using p q float_order.first_min_unique by blast
  qed
  moreover have "list_index (map k list_b) m = Inr p"
    unfolding p(2) using p(1) unfolding float_order.first_min_def by (intro list_index_nth) blast+
  ultimately show ?thesis using m p q x by auto
qed

lemma float_abs_sub_commute: "float_abs (float_sub x y) = float_abs (float_sub y x)"
proof (cases "(\<exists>a. x = Fin a) \<and> (\<exists>b. y = Fin b)")
  case True
  then obtain a b where xy: "x = Fin a" "y = Fin b" by auto
  have "fl (b - a) = - fl (a - b)" using fl_minus[of "a - b"] by simp
  then show ?thesis by (auto simp: xy float_sub_Fin mk_float_def Let_def)
next
  case False
  then show ?thesis by (cases x; cases y) (auto simp: float_sub_def)
qed

lemma find_closest_values_map:
  "find_closest_values list_a list_b =
     map_result (\<lambda>a. py_min_key (\<lambda>b. float_abs (float_sub a b)) list_b) list_a"
  unfolding find_closest_values_def by (simp only: float_abs_sub_commute)

lemma find_closest_both:
  assumes "list_b \<noteq> []"
  shows "\<exists>is. find_closest_indices list_a list_b = Inr is
    \<and> list_all2 (\<lambda>a i. float_order.first_min (map (\<lambda>b. float_abs (float_sub a b)) list_b) i) list_a is
    \<and> find_closest_values list_a list_b = Inr (map ((!) list_b) is)"
proof (induction list_a)
  case Nil
  then show ?case by (simp add: find_closest_indices_def find_closest_values_map)
next
  case (Cons a list_a)
  then obtain "is" where "is": "find_closest_indices list_a list_b = Inr is"
    "list_all2 (\<lambda>a i. float_order.first_min (map (\<lambda>b. float_abs (float_sub a b)) list_b) i) list_a is"
    "find_closest_values list_a list_b = Inr (map ((!) list_b) is)" by blast
  obtain p where p: "and_then (py_min_key (\<lambda>x. x) (map (\<lambda>b. float_abs (float_sub a b)) list_b))
        (\<lambda>m. list_index (map (\<lambda>b. float_abs (float_sub a b)) list_b) m) = Inr p"
    "float_order.first_min (map (\<lambda>b. float_abs (float_sub a b)) list_b) p"
    "py_min_key (\<lambda>b. float_abs (float_sub a b)) list_b = Inr (list_b ! p)"
    using closest_index[OF assms] by blast
  show ?case
    using "is" p by (intro exI[of _ "p # is"]) (simp add: find_closest_indices_def find_closest_values_map)
qed

text \<open>(C20) For a nonempty series, \<open>find_closest_indices\<close> returns for every time
  the first index of the series at which the rounded distance is minimal, and
  \<open>find_closest_values\<close> returns the samples at exactly these indices;
  NaN and infinite samples included.\<close>

theorem find_closest_correct:
  assumes "list_b \<noteq> []"
  shows "\<exists>is. find_closest_indices list_a list_b = Inr is
    \<and> find_closest_values list_a list_b = Inr (map (\<lambda>i. list_b ! i) is)
    \<and> list_all2 (\<lambda>a i. i < length list_b
        \<and> (\<forall>j < length list_b. \<not> float_lt (float_abs (float_sub a (list_b ! j))) (float_abs (float_sub a (list_b ! i))))
        \<and> (\<forall>j < i. float_abs (float_sub a (list_b ! j)) \<noteq> float_abs (float_sub a (list_b ! i)))) list_a is"
proof -
  obtain "is" where "is": "find_closest_indices list_a list_b = Inr is"
    "list_all2 (\<lambda>a i. float_order.first_min (map (\<lambda>b. float_abs (float_sub a b)) list_b) i) list_a is"
    "find_closest_values list_a list_b = Inr (map ((!) list_b) is)"
    using find_closest_both[OF assms] by blast
  from "is"(2) have "list_all2 (\<lambda>a i. i < length list_b
        \<and> (\<forall>j < length list_b. \<not> float_lt (float_abs (float_sub a (list_b ! j))) (float_abs (float_sub a (list_b ! i))))
        \<and> (\<forall>j < i. float_abs (float_sub a (list_b ! j)) \<noteq> float_abs (float_sub a (list_b ! i)))) list_a is"
    by (rule list_all2_mono) (auto simp: float_order.first_min_def)
  then show ?thesis using "is"(1,3) by auto
qed

theorem find_closest_correct_witness:
  "\<exists>is. find_closest_indices [Fin 3] [Fin 1, Fin 4, Fin 2] = Inr is
    \<and> find_closest_values [Fin 3] [Fin 1, Fin 4, Fin 2] = Inr (map (\<lambda>i. [Fin 1, Fin 4, Fin 2] ! i) is)
    \<and> length is = 1"
  using find_closest_correct[of "[Fin 1, Fin 4, Fin 2]" "[Fin 3]"] list_all2_lengthD by fastforce

section \<open>Windows and means\<close>

lemma filter_time_loop_eq:
  "filter_time_loop lo hi ps ft fd =
     (let qs = filter (\<lambda>p. float_le lo (fst p) \<and> float_le (fst p) hi) ps
      in (ft @ map fst qs, fd @ map snd qs))"
  by (induction lo hi ps ft fd rule: filter_time_loop.induct) (auto simp: Let_def)

lemma filter_time_range_eq:
  "filter_time_range ts xs lo hi =
     (let qs = filter (\<lambda>p. float_le lo (fst p) \<and> float_le (fst p) hi) (zip ts xs)
      in (map fst qs, map snd qs))"
  by (simp add: filter_time_range_def filter_time_loop_eq Let_def)

text \<open>\<open>filter_time_range\<close> keeps times and data aligned: the pairs it
  returns are exactly the pairs of the series whose time lies in the closed
  window, in their order (a NaN time is in no window).\<close>

lemma filter_time_range_pairs:
  "case filter_time_range ts xs lo hi of (ft, fd) \<Rightarrow>
     length ft = length fd
     \<and> zip ft fd = filter (\<lambda>(t, _). float_le lo t \<and> float_le t hi) (zip ts xs)"
  by (simp add: filter_time_range_eq Let_def zip_map_fst_snd_filter case_prod_beta' zip_map_fst_snd)

lemma mk_float_nonneg: "0 \<le> x \<Longrightarrow> float_le (Fin 0) (mk_float x)"
  using double.rnd_nonneg[of x] by (auto simp: mk_float_def Let_def)

lemma float_add_nonneg:
  "float_le (Fin 0) x \<Longrightarrow> float_le (Fin 0) y \<Longrightarrow> float_le (Fin 0) (float_add x y)"
  by (cases x; cases y) (auto simp: mk_float_nonneg)

lemma float_sum_nonneg:
  assumes "\<forall>x \<in> set xs. float_le (Fin 0) x"
  shows "float_le (Fin 0) (float_sum xs)"
proof -
  have "float_le (Fin 0) (foldl float_add a xs)" if "float_le (Fin 0) a" for a
    using assms that by (induction xs arbitrary: a) (auto intro: float_add_nonneg)
  then show ?thesis by (simp add: float_sum_def)
qed

lemma float_mean_cases:
  "float_mean xs = (if xs = [] then Inl ZeroDivisionError else Inr (case float_sum xs of
      Fin a \<Rightarrow> mk_float (a / of_nat (length xs)) | x \<Rightarrow> x))"
  by (auto simp: float_mean_def signed_inf_def split: pyfloat.splits)

lemma float_mean_nonneg:
  assumes "float_mean xs = Inr m" "\<forall>x \<in> set xs. float_le (Fin 0) x"
  shows "float_le (Fin 0) m"
  using assms(1) float_sum_nonneg[OF assms(2)]
  by (auto simp: float_mean_cases mk_float_nonneg split: if_splits pyfloat.splits)

text \<open>The samples around a handover.\<close>

abbreviation ho_window :: "pyfloat list \<Rightarrow> pyfloat list \<Rightarrow> pyfloat \<Rightarrow> pyfloat \<Rightarrow> pyfloat list" where
  "ho_window thuput_times thuput windowsz t \<equiv>
     snd (filter_time_range thuput_times thuput (float_sub t windowsz) (float_add t windowsz))"

lemma ho_window_subset: "set (ho_window ts xs w t) \<subseteq> set xs"
  by (auto simp: filter_time_range_eq Let_def dest: set_zip_rightD)

text \<open>(C23) \<open>calculate_ho_thuput\<close> divides by zero exactly when some handover
  has no sample in its window; otherwise it returns one mean per handover, and
  means of nonnegative throughputs are nonnegative.\<close>

theorem calculate_ho_thuput_result:
  "(if \<exists>t \<in> set ho_times. ho_window thuput_times thuput windowsz t = []
    then calculate_ho_thuput ho_times thuput_times thuput windowsz = Inl ZeroDivisionError
    else \<exists>ms. calculate_ho_thuput ho_times thuput_times thuput windowsz = Inr ms
           \<and> list_all2 (\<lambda>t m. float_mean (ho_window thuput_times thuput windowsz t) = Inr m) ho_times ms
           \<and> (list_all (float_le (Fin 0)) thuput \<longrightarrow> list_all (float_le (Fin 0)) ms))"
proof (cases "\<exists>t \<in> set ho_times. ho_window thuput_times thuput windowsz t = []")
  case True
  then have "\<exists>e. calculate_ho_thuput ho_times thuput_times thuput windowsz = Inl e"
    unfolding calculate_ho_thuput_def map_result_raises by (auto simp: float_mean_cases)
  moreover have "map_result f xs = Inl e \<Longrightarrow> \<exists>x \<in> set xs. f x = Inl e" for f :: "pyfloat \<Rightarrow> pyfloat result" and xs e
    by (induction xs) (auto simp: and_then_eq_Raise)
  ultimately show ?thesis using True
    unfolding calculate_ho_thuput_def by (fastforce simp: float_mean_cases split: if_splits)
next
  case False
  then have "\<nexists>e. calculate_ho_thuput ho_times thuput_times thuput windowsz = Inl e"
    unfolding calculate_ho_thuput_def map_result_raises by (auto simp: float_mean_cases)
  then obtain ms where ms: "calculate_ho_thuput ho_times thuput_times thuput windowsz = Inr ms"
    by (cases "calculate_ho_thuput ho_times thuput_times thuput windowsz") auto
  then have all: "list_all2 (\<lambda>t m. float_mean (ho_window thuput_times thuput windowsz t) = Inr m) ho_times ms"
    by (simp add: calculate_ho_thuput_def map_result_Ok_iff)
  have "float_le (Fin 0) m" if nn: "list_all (float_le (Fin 0)) thuput" and m: "m \<in> set ms" for m
  proof -
    obtain t where "float_mean (ho_window thuput_times thuput windowsz t) = Inr m"
      using all m by (auto simp: list_all2_conv_all_nth in_set_conv_nth)
    then show ?thesis
      using nn ho_window_subset[of thuput_times thuput t windowsz]
      by (intro float_mean_nonneg[of "ho_window thuput_times thuput windowsz t" m])
        (auto simp: list_all_iff)
  qed
  then have "list_all (float_le (Fin 0)) thuput \<longrightarrow> list_all (float_le (Fin 0)) ms"
    unfolding list_all_iff by blast
  then show ?thesis using False ms all by auto
qed

theorem calculate_ho_thuput_result_witness:
  "calculate_ho_thuput [Fin 1, Fin 9] [Fin 1] [Fin 5] (Fin 3) = Inl ZeroDivisionError"
proof -
  have "mk_float (9 - 3) = Fin 6" by simp
  then have "\<exists>t \<in> set [Fin 1, Fin 9]. ho_window [Fin 1] [Fin 5] (Fin 3) t = []"
    by (auto simp: filter_time_range_def float_sub_Fin)
  then show ?thesis
    using calculate_ho_thuput_result[of "[Fin 1, Fin 9]" "[Fin 1]" "[Fin 5]" "Fin 3"] by (simp only: if_True)
qed

section \<open>Handovers by type\<close>

text \<open>The handovers with the link they leave and the link they enter.\<close>

fun transitions :: "int \<Rightarrow> 'a list \<Rightarrow> int list \<Rightarrow> ((int \<times> int) \<times> 'a) list" where
  "transitions prev (t # ts) (l # ls) = ((prev, l), t) # transitions l ts ls"
| "transitions prev _ _ = []"

lemma ho_type_loop_eq:
  "length ts \<le> length ls \<Longrightarrow>
     ho_type_loop ho_type prev ts ls acc
       = Inr (acc @ map snd (filter (\<lambda>x. fst x = ho_type) (transitions prev ts ls)))"
  by (induction ho_type prev ts ls acc rule: ho_type_loop.induct) (auto simp: prod_eq_iff)

lemma ho_type_loop_short:
  "length ls < length ts \<Longrightarrow> ho_type_loop ho_type prev ts ls acc = Inl IndexError"
  by (induction ho_type prev ts ls acc rule: ho_type_loop.induct) auto

lemma transitions_snd: "length ts \<le> length ls \<Longrightarrow> map snd (transitions prev ts ls) = ts"
  by (induction prev ts ls rule: transitions.induct) auto

lemma transitions_links:
  "x \<in> set (transitions prev ts ls) \<Longrightarrow> fst (fst x) \<in> insert prev (set ls) \<and> snd (fst x) \<in> set ls"
  by (induction prev ts ls rule: transitions.induct) auto

lemma filter_ho_types_eq:
  assumes "ho_type \<noteq> (0, 0)" "length ts \<le> length ls"
  shows "filter_ho_types ts ls ho_type init
    = Inr (map snd (filter (\<lambda>x. fst x = ho_type) (transitions init ts ls)))"
  using assms by (cases ho_type) (auto simp: filter_ho_types_def ho_type_loop_eq)

lemma four_types_mset:
  assumes "\<forall>x \<in> set xs. fst x \<in> {(1, 1), (1, 2), (2, 2), (2, 1)}"
  shows "mset (map snd (filter (\<lambda>x. fst x = (1 :: int, 1 :: int)) xs))
      + mset (map snd (filter (\<lambda>x. fst x = (1, 2)) xs))
      + mset (map snd (filter (\<lambda>x. fst x = (2, 2)) xs))
      + mset (map snd (filter (\<lambda>x. fst x = (2, 1)) xs)) = mset (map snd xs)"
  using assms by (induction xs) auto



section \<open>Time on each link\<close>

text \<open>The abstract view: the timeline as a list of segments, each on one link.\<close>

fun segments :: "int \<Rightarrow> 'a \<Rightarrow> 'a list \<Rightarrow> int list \<Rightarrow> 'a \<Rightarrow> (int \<times> 'a \<times> 'a) list" where
  "segments link start (t # ts) (l # ls) time_end =
     (if l \<noteq> link then (link, start, t) # segments l t ts ls time_end
      else segments link start ts ls time_end)"
| "segments link start _ _ time_end = [(link, start, time_end)]"

definition on_link :: "int \<Rightarrow> (int \<times> 'a \<times> 'a) list \<Rightarrow> ('a \<times> 'a) list" where
  "on_link l segs = map snd (filter (\<lambda>s. fst s = l) segs)"

lemma dd_get_update [simp]: "dd_get (d(l \<mapsto> xs)) k = (if k = l then xs else dd_get d k)"
  by (simp add: dd_get_def)

lemma link_duration_loop_segments:
  assumes "length ts \<le> length ls" "dd_get d prev = earlier @ [(start, Fin (- 1))]"
  shows "\<exists>d'. and_then (link_duration_loop prev ts ls d) (\<lambda>(p, d). dd_close d p time_end) = Inr d'
    \<and> (\<forall>l. dd_get d' l = (if l = prev then earlier else dd_get d l) @ on_link l (segments prev start ts ls time_end))"
  using assms
proof (induction prev ts ls d arbitrary: earlier start rule: link_duration_loop.induct)
  case (1 prev ls d)
  then show ?case by (auto simp: dd_close_def Let_def on_link_def)
next
  case (2 prev t ts d)
  then show ?case by simp
next
  case (3 prev t ts l ls d)
  show ?case
  proof (cases "l = prev")
    case True
    then show ?thesis using 3 by simp
  next
    case False
    define d1 where "d1 = d(prev \<mapsto> earlier @ [(start, t)])"
    have close: "dd_close d prev t = Inr d1"
      using 3(4) by (simp add: dd_close_def Let_def d1_def)
    have "dd_get (dd_append d1 l t) l = dd_get d l @ [(t, Fin (- 1))]"
      using False by (simp add: dd_append_def d1_def)
    from 3(1)[OF False _ this] 3(3) obtain d' where
      d': "and_then (link_duration_loop l ts ls (dd_append d1 l t)) (\<lambda>(p, d). dd_close d p time_end) = Inr d'"
      "\<forall>k. dd_get d' k = (if k = l then dd_get d l else dd_get (dd_append d1 l t) k)
          @ on_link k (segments l t ts ls time_end)" by auto
    have "dd_get d' k = (if k = prev then earlier else dd_get d k)
       @ on_link k (segments prev start (t # ts) (l # ls) time_end)" for k
      using d'(2) False by (auto simp: on_link_def dd_append_def d1_def)
    then show ?thesis using d'(1) close False by auto
  qed
qed

lemma filter_link_duration_segments:
  assumes "length ts \<le> length ls"
  shows "\<exists>d. filter_link_duration ts ls time_end init = Inr d
    \<and> (\<forall>l. dd_get d l = on_link l (segments init (Fin 0) ts ls time_end))"
  using link_duration_loop_segments[of ts ls "dd_append Map.empty init (Fin 0)" init "[]" "Fin 0" time_end] assms
  by (auto simp: filter_link_duration_def dd_append_def dd_get_def)

fun contiguous :: "'a \<Rightarrow> (int \<times> 'a \<times> 'a) list \<Rightarrow> 'a \<Rightarrow> bool" where
  "contiguous s [] e \<longleftrightarrow> s = e"
| "contiguous s ((l, a, b) # segs) e \<longleftrightarrow> a = s \<and> contiguous b segs e"

lemma segments_contiguous: "contiguous start (segments link start ts ls time_end) time_end"
  by (induction link start ts ls time_end rule: segments.induct) auto

lemma segments_Cons: "\<exists>b segs. segments link start ts ls time_end = (link, start, b) # segs"
  by (induction link start ts ls time_end rule: segments.induct) auto

lemma segments_alternate: "successively (\<lambda>x y. fst x \<noteq> fst y) (segments link start ts ls time_end)"
proof (induction link start ts ls time_end rule: segments.induct)
  case (1 link start t ts l ls time_end)
  then show ?case
    using segments_Cons[of l t ts ls time_end] by (auto simp: successively_Cons)
qed auto

lemma segments_links: "fst ` set (segments link start ts ls time_end) \<subseteq> insert link (set ls)"
  by (induction link start ts ls time_end rule: segments.induct) auto


subsection \<open>Every sample counts for one link\<close>

lemma segments_map:
  "segments link (f start) (map f ts) ls (f e)
     = map (\<lambda>(l, a, b). (l, f a, f b)) (segments link start ts ls e)"
  by (induction link start ts ls e rule: segments.induct) auto

abbreviation window :: "rat \<Rightarrow> rat \<Rightarrow> (rat \<times> 'a) list \<Rightarrow> 'a multiset" where
  "window a b ps \<equiv> mset (map snd (filter (\<lambda>p. a \<le> fst p \<and> fst p \<le> b) ps))"

lemma window_split:
  "a \<le> m \<Longrightarrow> m \<le> b \<Longrightarrow> \<forall>p \<in> set ps. fst p \<noteq> m \<Longrightarrow> window a m ps + window m b ps = window a b ps"
  by (induction ps) (auto simp: not_le)

lemma segments_window:
  assumes "length ts \<le> length ls" "sorted (start # ts @ [e])" "\<forall>p \<in> set ps. fst p \<notin> set ts"
  shows "(\<Sum>s \<leftarrow> segments link start ts ls e. window (fst (snd s)) (snd (snd s)) ps) = window start e ps"
  using assms
proof (induction link start ts ls e rule: segments.induct)
  case (1 link start t ts l ls e)
  then have "t \<le> e" by simp
  show ?case
  proof (cases "l = link")
    case True
    then show ?thesis using 1 by simp
  next
    case False
    then show ?thesis using 1 window_split[of start t e ps] \<open>t \<le> e\<close> by simp
  qed
qed auto

lemma concat_on_link_mset:
  assumes "fst ` set segs \<subseteq> {1, 2}"
  shows "mset (concat (map f (on_link 1 segs))) + mset (concat (map f (on_link 2 segs)))
    = (\<Sum>s \<leftarrow> segs. mset (f (snd s)))"
  using assms by (induction segs) (auto simp: on_link_def)

lemma filter_time_range_Fin:
  "mset (snd (filter_time_range (map Fin ts) xs (Fin a) (Fin b))) = window a b (zip ts xs)"
proof -
  have "zip (map Fin ts) xs = map (map_prod Fin id) (zip ts xs)"
    by (simp add: zip_map1 map_prod_def id_def)
  then show ?thesis by (simp add: filter_time_range_eq Let_def filter_map o_def)
qed

text \<open>(C16) The per-link throughput averages count every sample once: on the two
  links, with handovers in order within the run and no sample taken at the
  very instant of a handover, the samples of link 1 and of link 2 are together
  exactly the samples between zero and the end.\<close>

theorem link_thuputs_partition:
  assumes "length hs \<le> length target_links" "set target_links \<subseteq> {1, 2}" "init \<in> {1, 2}"
    and "sorted (0 # hs @ [e])" "set ts \<inter> set hs = {}"
    and "filter_link_duration (map Fin hs) target_links (Fin e) init = Inr d"
  shows "mset (link_thuputs d 1 (map Fin ts) xs) + mset (link_thuputs d 2 (map Fin ts) xs)
    = mset (snd (filter_time_range (map Fin ts) xs (Fin 0) (Fin e)))"
proof -
  let ?segs = "segments init 0 hs target_links e"
  let ?F = "\<lambda>(l, a, b). (l :: int, Fin a, Fin b)"
  have "\<forall>l. dd_get d l = on_link l (map ?F ?segs)"
    using filter_link_duration_segments[of "map Fin hs" target_links "Fin e" init] assms(1,6)
    by (auto simp: segments_map[of init Fin 0 hs target_links e])
  moreover have "fst ` set (map ?F ?segs) \<subseteq> {1, 2}"
  proof -
    have "fst ` set ?segs \<subseteq> {1, 2}"
      using segments_links[of init 0 hs target_links e] assms(2,3) by blast
    then show ?thesis by (simp add: image_image case_prod_beta')
  qed
  ultimately have "mset (link_thuputs d 1 (map Fin ts) xs) + mset (link_thuputs d 2 (map Fin ts) xs)
    = (\<Sum>s \<leftarrow> map ?F ?segs. mset (snd (filter_time_range (map Fin ts) xs (fst (snd s)) (snd (snd s)))))"
    unfolding link_thuputs_def by (subst concat_on_link_mset[symmetric]) auto
  also have "\<dots> = (\<Sum>s \<leftarrow> ?segs. window (fst (snd s)) (snd (snd s)) (zip ts xs))"
    by (simp add: o_def case_prod_beta' filter_time_range_Fin)
  also have "\<dots> = window 0 e (zip ts xs)"
    using assms(1,4,5) by (intro segments_window) (auto dest: set_zip_leftD)
  also have "\<dots> = mset (snd (filter_time_range (map Fin ts) xs (Fin 0) (Fin e)))"
    by (rule filter_time_range_Fin[symmetric])
  finally show ?thesis .
qed

lemma demo_durations:
  "\<exists>d. filter_link_duration (map Fin [3, 7]) [2, 1] (Fin 10) 1 = Inr d"
  using filter_link_duration_segments[of "map Fin [3, 7]" "[2, 1]" "Fin 10" 1] by auto

theorem link_thuputs_partition_witness:
  "\<exists>d. mset (link_thuputs d 1 (map Fin [1, 4, 8]) [''a'', ''b'', ''c''])
      + mset (link_thuputs d 2 (map Fin [1, 4, 8]) [''a'', ''b'', ''c'']) = mset [''a'', ''b'', ''c'']"
proof -
  obtain d where d: "filter_link_duration (map Fin [3, 7]) [2, 1] (Fin 10) 1 = Inr d"
    using demo_durations by blast
  have "mset (snd (filter_time_range (map Fin [1, 4, 8]) [''a'', ''b'', ''c''] (Fin 0) (Fin 10)))
     = mset [''a'', ''b'', ''c'']" by (simp add: filter_time_range_def)
  then show ?thesis
    using link_thuputs_partition[OF _ _ _ _ _ d, of "[1, 4, 8]" "[''a'', ''b'', ''c'']"] by auto
qed

section \<open>Ramp-up times\<close>

lemma ramp_loop_found:
  "ramp_loop stable_tp thresh start_t r0 ts ys = Inr (True, r) \<Longrightarrow>
     \<exists>k < length ts. k < length ys \<and> r = float_sub (ts ! k) start_t \<and> float_le stable_tp (ys ! k)
       \<and> (\<forall>j < k. \<not> float_le stable_tp (ys ! j) \<and> float_lt (float_sub (ts ! j) start_t) thresh)"
proof (induction stable_tp thresh start_t r0 ts ys rule: ramp_loop.induct)
  case (2 stable_tp thresh start_t r0 t ts ys)
  from "2.prems" have lt: "float_lt r0 thresh" by (auto split: if_splits)
  then obtain y ys' where ys: "ys = y # ys'" using "2.prems" by (cases ys) auto
  show ?case
  proof (cases "float_le stable_tp y")
    case True
    then show ?thesis using "2.prems" lt ys by (intro exI[of _ 0]) auto
  next
    case False
    then have rec: "ramp_loop stable_tp thresh start_t (float_sub t start_t) ts ys' = Inr (True, r)"
      using "2.prems" lt ys by simp
    then obtain k where k: "k < length ts" "k < length ys'" "r = float_sub (ts ! k) start_t"
      "float_le stable_tp (ys' ! k)"
      "\<forall>j < k. \<not> float_le stable_tp (ys' ! j) \<and> float_lt (float_sub (ts ! j) start_t) thresh"
      using "2.IH"[OF lt ys False] by blast
    have "float_lt (float_sub t start_t) thresh" using rec by (cases ts) (auto split: if_splits)
    then show ?thesis
      using k False ys by (intro exI[of _ "Suc k"]) (auto simp: nth_Cons split: nat.split)
  qed
qed auto

lemma ramp_from_Ok:
  assumes "ramp_from tt tp stable_tp thresh i j = Inr r"
  shows "j < length tt \<and> (r = Fin (- 1) \<or>
     (\<exists>k. i \<le> k \<and> k < length tt \<and> k < length tp \<and> r = float_sub (tt ! k) (tt ! j)
        \<and> float_le stable_tp (tp ! k)
        \<and> (\<forall>n. i \<le> n \<and> n < k \<longrightarrow> \<not> float_le stable_tp (tp ! n))))"
proof -
  obtain start_t found r' where st: "py_index tt (int j) = Inr start_t"
    and loop: "ramp_loop stable_tp thresh start_t (Fin 0) (drop i tt) (drop i tp) = Inr (found, r')"
    and r: "r = (if found then r' else Fin (- 1))"
    using assms by (auto simp: ramp_from_def and_then_eq_Ok)
  have j: "j < length tt" "start_t = tt ! j"
    using st by (auto simp: py_index_def split: if_splits)
  show ?thesis
  proof (cases found)
    case True
    then obtain k where k: "k < length (drop i tt)" "k < length (drop i tp)"
      "r = float_sub (drop i tt ! k) start_t" "float_le stable_tp (drop i tp ! k)"
      "\<forall>n < k. \<not> float_le stable_tp (drop i tp ! n)"
      using ramp_loop_found[of stable_tp thresh start_t "Fin 0" "drop i tt" "drop i tp" r'] loop r by auto
    have "\<not> float_le stable_tp (tp ! n)" if "i \<le> n" "n < i + k" for n
      using k(2,5) that by (auto dest!: spec[of _ "n - i"])
    then show ?thesis using k j by (auto intro!: exI[of _ "i + k"])
  qed (use r j in simp)
qed

lemma raw_rampups_Ok:
  assumes "raw_rampups ho tt tp stable_tp thresh = Inr rs"
  shows "\<exists>starts. find_closest_indices ho tt = Inr starts \<and> starts \<noteq> []
    \<and> length rs = length starts
    \<and> (\<forall>n < length starts - 1. ramp_from tt tp stable_tp thresh (starts ! n) (starts ! n) = Inr (rs ! n))
    \<and> ramp_from tt tp stable_tp thresh (last starts) (last starts + 1) = Inr (last rs)"
proof -
  obtain starts firsts i l where s: "find_closest_indices ho tt = Inr starts"
    "map_result (\<lambda>i. ramp_from tt tp stable_tp thresh i i) (butlast starts) = Inr firsts"
    "py_index starts (- 1) = Inr i" "ramp_from tt tp stable_tp thresh i (i + 1) = Inr l"
    "rs = firsts @ [l]"
    using assms by (auto simp: raw_rampups_def and_then_eq_Ok)
  have ne: "starts \<noteq> []" using s(3) by (auto simp: py_index_def)
  have "i = last starts"
    using s(3) ne by (simp add: py_index_def last_conv_nth nat_diff_distrib split: if_splits)
      (metis One_nat_def add.commute diff_conv_add_uminus int_ops(2) nat_int nat_minus_as_int)
  moreover have "length firsts = length starts - 1"
    using map_result_length[OF s(2)] by simp
  moreover have "ramp_from tt tp stable_tp thresh (starts ! n) (starts ! n) = Inr (firsts ! n)"
    if "n < length starts - 1" for n
    using s(2) that by (auto simp: map_result_Ok_iff list_all2_conv_all_nth nth_butlast)
  ultimately show ?thesis using s ne by (auto simp: nth_append)
qed

lemma find_closest_indices_length:
  "find_closest_indices la lb = Inr is \<Longrightarrow> length is = length la"
  by (auto simp: find_closest_indices_def dest: map_result_length)

lemma replace_loop_length [simp]: "length (replace_loop rand m k ts) = length ts"
  by (induction rand m k ts rule: replace_loop.induct) auto

lemma replace_loop_nonneg:
  assumes "float_le (Fin 0) m" "\<forall>k. float_le (Fin 0) (rand k)" "\<forall>t \<in> set ts. t \<noteq> NaN"
  shows "\<forall>r \<in> set (replace_loop rand m k ts). float_le (Fin 0) r"
  using assms
proof (induction rand m k ts rule: replace_loop.induct)
  case (2 rand m k t ts)
  have "float_le (Fin 0) (float_add (Fin 0) (float_add (rand k) (Fin (1 / 2))))"
    using "2.prems" by (intro float_add_nonneg) auto
  moreover have "float_le (Fin 0) t" if "\<not> float_lt t (Fin 0)"
    using that "2.prems" by (cases t) auto
  ultimately show ?case using 2 by auto
qed auto

lemma max_loop_in: "max_loop m xs \<in> insert m (set xs)"
  by (induction m xs rule: max_loop.induct) auto

lemma py_max_in: "py_max xs = Inr m \<Longrightarrow> m \<in> set xs"
  using max_loop_in by (cases xs) (auto simp: py_max_def)

text \<open>Times a difference of which is again finite.\<close>

definition moderate :: "pyfloat \<Rightarrow> bool" where
  "moderate x \<longleftrightarrow> (\<exists>r. x = Fin r \<and> \<bar>r\<bar> \<le> 2 ^ 1000)"

lemma moderate_sub: "moderate x \<Longrightarrow> moderate y \<Longrightarrow> \<exists>r. float_sub x y = Fin r"
proof -
  assume "moderate x" "moderate y"
  then obtain a b where ab: "x = Fin a" "y = Fin b" "\<bar>a\<bar> \<le> 2 ^ 1000" "\<bar>b\<bar> \<le> 2 ^ 1000"
    by (auto simp: moderate_def)
  have "(2::rat) ^ 1000 + 2 ^ 1000 = 2 ^ 1001" by simp
  also have "\<dots> \<le> 2 ^ 1023" by (rule power_increasing) auto
  finally have "\<bar>a - b\<bar> \<le> 2 ^ 1023" using ab(3,4) by linarith
  then show ?thesis by (simp add: ab float_sub_Fin mk_float_Fin)
qed

lemma raw_rampups_not_nan:
  assumes "raw_rampups ho tt tp stable_tp thresh = Inr rs" "list_all moderate tt"
  shows "\<forall>t \<in> set rs. t \<noteq> NaN"
proof
  fix t assume t: "t \<in> set rs"
  obtain starts where s: "starts \<noteq> []" "length rs = length starts"
    "\<forall>n < length starts - 1. ramp_from tt tp stable_tp thresh (starts ! n) (starts ! n) = Inr (rs ! n)"
    "ramp_from tt tp stable_tp thresh (last starts) (last starts + 1) = Inr (last rs)"
    using raw_rampups_Ok[OF assms(1)] by blast
  obtain n where n: "n < length rs" "t = rs ! n" using t by (auto simp: in_set_conv_nth)
  have last: "last rs = rs ! (length rs - 1)" using s(1,2) by (intro last_conv_nth) auto
  have "\<exists>i j. ramp_from tt tp stable_tp thresh i j = Inr t"
  proof (cases "n < length starts - 1")
    case False
    then have "n = length rs - 1" using n(1) s(2) by simp
    then show ?thesis using s(4) last n(2) by metis
  qed (use s(3) n(2) in metis)
  then obtain i j where "ramp_from tt tp stable_tp thresh i j = Inr t" by blast
  then consider "t = Fin (- 1)" | k where "j < length tt" "k < length tt" "t = float_sub (tt ! k) (tt ! j)"
    using ramp_from_Ok by blast
  then show "t \<noteq> NaN"
  proof cases
    case 2
    then have "moderate (tt ! k)" "moderate (tt ! j)" using assms(2) by (auto simp: list_all_length)
    then show ?thesis using moderate_sub 2(3) by fastforce
  qed simp
qed

text \<open>(C21) When \<open>calculate_rampup_time\<close> returns, it returns one ramp-up time
  per handover and none is negative: the marker \<open>-1\<close> of a ramp-up that
  was not reached never leaves the function.\<close>

theorem calculate_rampup_time_nonneg:
  assumes "calculate_rampup_time rand ho_times thuput_times thuputs stable_tp thresh = Inr rs"
    and "float_le (Fin 0) thresh" "\<forall>k. float_le (Fin 0) (rand k)" "list_all moderate thuput_times"
  shows "length rs = length ho_times \<and> list_all (float_le (Fin 0)) rs"
proof -
  obtain raw m where raw: "raw_rampups ho_times thuput_times thuputs stable_tp thresh = Inr raw"
    and m: "py_max raw = Inr m"
    and rs: "rs = replace_loop rand (if float_lt m (Fin 0) then thresh else m) 0 raw"
    using assms(1) by (auto simp: calculate_rampup_time_def and_then_eq_Ok)
  have nn: "\<forall>t \<in> set raw. t \<noteq> NaN" using raw_rampups_not_nan[OF raw assms(4)] .
  then have "m \<noteq> NaN" using py_max_in[OF m] by blast
  then have "float_le (Fin 0) (if float_lt m (Fin 0) then thresh else m)"
    using assms(2) by (cases m) auto
  moreover have "length raw = length ho_times"
    using raw_rampups_Ok[OF raw] find_closest_indices_length by auto
  ultimately show ?thesis
    using replace_loop_nonneg[OF _ assms(3) nn] by (simp add: rs list_all_iff)
qed


lemma demo_fraction: "mk_float (3 / 4) = Fin (3 / 4)"
  using mk_float_dyadic[of 3 2] by simp

lemmas rampup_eval = calculate_rampup_time_def raw_rampups_def find_closest_indices_def py_min_key_def
  ramp_from_def py_index_def py_max_def float_sub_Fin Let_def demo_fraction

lemma demo_rampup:
  "calculate_rampup_time (\<lambda>_. Fin (1 / 4)) [Fin 1, Fin 2] [Fin 1, Fin 2, Fin 3] [Fin 100, Fin 90, Fin 200]
     (Fin 170) (Fin 40) = Inr [Fin 2, Fin (3 / 4)]"
  by (simp add: rampup_eval)

theorem calculate_rampup_time_nonneg_witness:
  "length [Fin 2, Fin (3 / 4)] = length [Fin 1, Fin 2] \<and> list_all (float_le (Fin 0)) [Fin 2, Fin (3 / 4)]"
  by (rule calculate_rampup_time_nonneg[OF demo_rampup]) (auto simp: moderate_def)

text \<open>A ramp-up time before replacement, for every handover but the last, is
  the time from the sample nearest to the handover to the first sample from
  there on that reaches the stable throughput, or the marker \<open>-1\<close>.\<close>

lemma raw_rampups_first_stable:
  assumes "raw_rampups ho_times thuput_times thuputs stable_tp thresh = Inr rs"
  shows "\<exists>starts. find_closest_indices ho_times thuput_times = Inr starts
    \<and> length rs = length ho_times
    \<and> (\<forall>n < length ho_times - 1.
          rs ! n = Fin (- 1)
          \<or> (\<exists>k \<ge> starts ! n. k < length thuput_times \<and> k < length thuputs
               \<and> rs ! n = float_sub (thuput_times ! k) (thuput_times ! (starts ! n))
               \<and> float_le stable_tp (thuputs ! k)
               \<and> (\<forall>j \<in> {starts ! n ..< k}. \<not> float_le stable_tp (thuputs ! j))))"
proof -
  obtain starts where s: "find_closest_indices ho_times thuput_times = Inr starts"
    "length rs = length starts"
    "\<forall>n < length starts - 1. ramp_from thuput_times thuputs stable_tp thresh (starts ! n) (starts ! n) = Inr (rs ! n)"
    using raw_rampups_Ok[OF assms] by blast
  have len: "length starts = length ho_times" using find_closest_indices_length[OF s(1)] .
  have "rs ! n = Fin (- 1)
      \<or> (\<exists>k \<ge> starts ! n. k < length thuput_times \<and> k < length thuputs
           \<and> rs ! n = float_sub (thuput_times ! k) (thuput_times ! (starts ! n))
           \<and> float_le stable_tp (thuputs ! k)
           \<and> (\<forall>j \<in> {starts ! n ..< k}. \<not> float_le stable_tp (thuputs ! j)))"
    if "n < length ho_times - 1" for n
    using ramp_from_Ok[of thuput_times thuputs stable_tp thresh "starts ! n" "starts ! n" "rs ! n"] s(3) that len
    by auto
  then show ?thesis using s len by auto
qed

text \<open>The last handover is measured from the sample after the nearest one, so a
  link that is at full throughput at once is reported as never ramped up.\<close>

lemma rampup_last_handover_offset:
  "calculate_rampup_time (\<lambda>_. Fin (1 / 4)) [Fin 1] [Fin 1, Fin 2] [Fin 200, Fin 200] (Fin 170) (Fin 40)
     = Inr [Fin 40]"
  by (simp add: rampup_eval)

text \<open>When the largest ramp-up is zero, a handover whose ramp-up was never
  reached is reported with a ramp-up time of zero.\<close>

lemma rampup_unreached_zero:
  "calculate_rampup_time (\<lambda>_. Fin (1 / 4)) [Fin 1, Fin 2] [Fin 1, Fin 2, Fin 3] [Fin 200, Fin 9, Fin 9]
     (Fin 170) (Fin 40) = Inr [Fin (3 / 4), Fin 0]"
  by (simp add: rampup_eval)

text \<open>If the last handover is nearest to the last sample of the series,
  \<open>calculate_rampup_time\<close> raises: it reads the sample after it.\<close>

lemma rampup_last_sample_raises:
  assumes "find_closest_indices ho_times thuput_times = Inr starts" "starts \<noteq> []"
    and "last starts = length thuput_times - 1" "length thuputs = length thuput_times"
    and "thuput_times \<noteq> []"
  shows "calculate_rampup_time rand ho_times thuput_times thuputs stable_tp thresh = Inl IndexError"
proof -
  have loop: "\<exists>x. ramp_loop stable_tp thresh st r0 ts ys = Inr x" if "length ts \<le> length ys" for st r0 ts ys
    using that by (induction stable_tp thresh st r0 ts ys rule: ramp_loop.induct) (auto split: list.splits)
  obtain "is" where "is": "is = starts"
    "list_all2 (\<lambda>a i. float_order.first_min (map (\<lambda>b. float_abs (float_sub a b)) thuput_times) i) ho_times is"
    using find_closest_both[OF assms(5), of ho_times] assms(1) by auto
  then have lt: "i < length thuput_times" if "i \<in> set starts" for i
    using that by (auto simp: list_all2_conv_all_nth in_set_conv_nth float_order.first_min_def)
  have "\<exists>x. ramp_from thuput_times thuputs stable_tp thresh i i = Inr x" if "i \<in> set (butlast starts)" for i
    using lt[OF in_set_butlastD[OF that]] loop[of "drop i thuput_times" "drop i thuputs" "thuput_times ! i" "Fin 0"]
      assms(4) by (auto simp: ramp_from_def)
  then have "\<nexists>e. map_result (\<lambda>i. ramp_from thuput_times thuputs stable_tp thresh i i) (butlast starts) = Inl e"
    unfolding map_result_raises by fastforce
  then obtain firsts where "map_result (\<lambda>i. ramp_from thuput_times thuputs stable_tp thresh i i) (butlast starts) = Inr firsts"
    by (cases "map_result (\<lambda>i. ramp_from thuput_times thuputs stable_tp thresh i i) (butlast starts)") auto
  moreover have "py_index starts (- 1) = Inr (last starts)"
    using assms(2) by (cases starts rule: rev_cases) (auto simp: py_index_def nat_diff_distrib nth_append)
  moreover have "ramp_from thuput_times thuputs stable_tp thresh (last starts) (last starts + 1) = Inl IndexError"
    using assms(3,5) by (simp add: ramp_from_def py_index_def)
  ultimately show ?thesis using assms(1) by (simp add: calculate_rampup_time_def raw_rampups_def)
qed

section \<open>Distribution function and ratios\<close>

text \<open>What NumPy documents of \<open>unique\<close> with \<open>return_counts\<close>: the
  distinct values in increasing order, and how often each occurs.\<close>

definition unique_counts_spec :: "('a::linorder list \<Rightarrow> 'a list \<times> nat list) \<Rightarrow> bool" where
  "unique_counts_spec u \<longleftrightarrow>
     (\<forall>a. sorted_wrt (<) (fst (u a)) \<and> set (fst (u a)) = set a \<and> snd (u a) = map (count_list a) (fst (u a)))"

lemma count_split:
  "x \<notin> set xs \<Longrightarrow> length (filter (\<lambda>b. b \<notin> insert x (set xs)) a) + count_list a x
     = length (filter (\<lambda>b. b \<notin> set xs) a)"
  by (induction a) auto

lemma running_sums_counts:
  fixes a xs :: "'a::linorder list"
  assumes "sorted_wrt (<) xs" "\<forall>b \<in> set a. b \<in> set xs \<or> (\<forall>x \<in> set xs. b < x)"
  shows "running_sums (length (filter (\<lambda>b. b \<notin> set xs) a)) (map (count_list a) xs)
    = map (\<lambda>v. length (filter (\<lambda>b. b \<le> v) a)) xs"
  using assms
proof (induction xs)
  case (Cons x xs)
  have "\<forall>y \<in> set xs. x < y" using Cons.prems(1) by simp
  then have x: "x \<notin> set xs" by auto
  have "(b \<notin> set xs) = (b \<le> x)" if "b \<in> set a" for b
    using Cons.prems that by force
  then have eq: "filter (\<lambda>b. b \<notin> set xs) a = filter (\<lambda>b. b \<le> x) a" by (intro filter_cong) auto
  have "\<forall>b \<in> set a. b \<in> set xs \<or> (\<forall>y \<in> set xs. b < y)"
    using Cons.prems by force
  then show ?case
    using Cons count_split[OF x, of a] eq by simp
qed simp

lemma running_sums_last: "xs \<noteq> [] \<Longrightarrow> last (running_sums acc xs) = acc + sum_list xs"
proof (induction acc xs rule: running_sums.induct)
  case (2 acc x xs)
  then show ?case by (cases xs) auto
qed simp

lemma running_sums_Nil_iff [simp]: "running_sums acc xs = [] \<longleftrightarrow> xs = []"
  by (cases xs) auto

text \<open>(C22) \<open>ecdf\<close> is the empirical distribution function: next to each distinct
  value stands the correctly rounded share of the data at or below it, and an
  empty input raises; NumPy's \<open>unique\<close> is a parameter of which only the
  documented behaviour is used.\<close>

theorem ecdf_correct:
  assumes "unique_counts_spec np_unique"
  shows "ecdf np_unique a = (if a = [] then Inl IndexError
     else Inr (fst (np_unique a),
        map (\<lambda>v. mk_float (of_nat (length (filter (\<lambda>b. b \<le> v) a)) / of_nat (length a))) (fst (np_unique a))))"
proof -
  obtain x c where u: "np_unique a = (x, c)" by fastforce
  then have x: "sorted_wrt (<) x" "set x = set a" "c = map (count_list a) x"
    using assms unfolding unique_counts_spec_def by (metis fst_conv snd_conv)+
  have sums: "running_sums 0 c = map (\<lambda>v. length (filter (\<lambda>b. b \<le> v) a)) x"
    using running_sums_counts[OF x(1), of a] x(2,3) by simp
  show ?thesis
  proof (cases "a = []")
    case True
    then show ?thesis using u x by (simp add: ecdf_def)
  next
    case False
    then have ne: "x \<noteq> []" using x(2) by auto
    have "distinct x" using x(1) by (simp add: strict_sorted_iff)
    have "sum_list (map (count_list a) x) = (\<Sum>v \<in> set x. count_list a v)"
      using \<open>distinct x\<close> by (rule sum_list_distinct_conv_sum_set)
    then have "last (running_sums 0 c) = length a"
      using ne x running_sums_last[of c 0] by (simp add: sum_count_set)
    moreover have "c \<noteq> []" using ne x(3) by simp
    ultimately show ?thesis using False u sums by (simp add: ecdf_def Let_def o_def)
  qed
qed

lemma unique_counts_sorted: "unique_counts_spec (\<lambda>a. (sort (remdups a), map (count_list a) (sort (remdups a))))"
  by (simp add: unique_counts_spec_def strict_sorted_iff)

theorem ecdf_correct_witness:
  "ecdf (\<lambda>a. (sort (remdups a), map (count_list a) (sort (remdups a)))) [3, 1, 3, 2 :: nat]
    = Inr ([1, 2, 3], [mk_float (1 / 4), mk_float (2 / 4), mk_float (4 / 4)])"
  using ecdf_correct[OF unique_counts_sorted, of "[3, 1, 3, 2 :: nat]"] by simp

lemma rounded_ratio_unit:
  assumes "0 \<le> a" "a \<le> b" "0 < b"
  shows "\<exists>x. rounded_ratio a b = Inr (Fin x) \<and> 0 \<le> x \<and> x \<le> 1"
proof -
  define q where "q = rat_of_int a / of_int b"
  have q: "0 \<le> q" "q \<le> 1" using assms by (simp_all add: q_def)
  have unit: "mk_float y = Fin (fl y) \<and> 0 \<le> fl y \<and> fl y \<le> 1" if "0 \<le> y" "y \<le> 1" for y
  proof -
    have "(1::rat) \<le> 2 ^ 1023" by (rule one_le_power) simp
    then have "mk_float y = Fin (fl y)" using that by (intro mk_float_Fin) simp
    moreover have "is_double 1" using is_double_int[of 1] by simp
    ultimately show ?thesis using that double.rnd_nonneg double.rnd_le_repr by blast
  qed
  let ?r = "round_even (fl q * 10000)"
  have "0 \<le> fl q * 10000" "fl q * 10000 \<le> 10000" using unit[OF q] by simp_all
  then have "0 \<le> ?r" "?r \<le> 10000"
    using round_even_half[of "fl q * 10000"] unfolding abs_le_iff by linarith+
  then have "0 \<le> rat_of_int ?r / 10000" "rat_of_int ?r / 10000 \<le> 1" by simp_all
  from unit[OF this] unit[OF q] show ?thesis
    using assms(3) by (auto simp: rounded_ratio_def int_truediv_def simp flip: q_def)
qed

text \<open>The precision and recall that \<open>calculate_p_r\<close> prints lie between
  zero and one, for the totals too, whenever no count of true positives exceeds
  its totals; a zero total divides by zero.\<close>

lemma calculate_p_r_unit:
  assumes "length tp = length tap" "length tpp = length tap" "tap \<noteq> []"
    and "\<forall>i < length tap. 0 \<le> tp ! i \<and> tp ! i \<le> tap ! i \<and> tp ! i \<le> tpp ! i \<and> 0 < tap ! i \<and> 0 < tpp ! i"
  shows "\<exists>rows total. calculate_p_r tap tp tpp = Inr (rows, total) \<and> length rows = length tap
    \<and> (\<forall>(p, r) \<in> set (total # rows). \<exists>x y. p = Fin x \<and> r = Fin y \<and> 0 \<le> x \<and> x \<le> 1 \<and> 0 \<le> y \<and> y \<le> 1)"
proof -
  let ?unit = "\<lambda>(p, r). \<exists>x y. p = Fin x \<and> r = Fin y \<and> 0 \<le> x \<and> x \<le> 1 \<and> 0 \<le> y \<and> y \<le> 1"
  let ?row = "\<lambda>i. and_then (py_index tp (int i)) (\<lambda>n. and_then (py_index tpp (int i)) (\<lambda>d.
         and_then (rounded_ratio n d) (\<lambda>p. and_then (rounded_ratio n (tap ! i)) (\<lambda>r. Ok (p, r)))))"
  have row: "\<exists>pr. ?row i = Inr pr \<and> ?unit pr" if "i < length tap" for i
    using that assms(1,2,4) rounded_ratio_unit[of "tp ! i" "tpp ! i"] rounded_ratio_unit[of "tp ! i" "tap ! i"]
    by auto
  then have "\<nexists>e. map_result ?row [0..<length tap] = Inl e"
    unfolding map_result_raises by fastforce
  then obtain rows where rows: "map_result ?row [0..<length tap] = Inr rows"
    by (cases "map_result ?row [0..<length tap]") auto
  then have len: "length rows = length tap" using map_result_length by fastforce
  have urows: "?unit pr" if pr: "pr \<in> set rows" for pr
  proof -
    obtain i where i: "i < length rows" "pr = rows ! i" using pr by (auto simp: in_set_conv_nth)
    then have "?row i = Inr pr"
      using rows len by (auto simp: map_result_Ok_iff list_all2_conv_all_nth)
    then show ?thesis using row[of i] i len by auto
  qed
  have sums: "0 \<le> sum_list tp" "sum_list tp \<le> sum_list tap" "sum_list tp \<le> sum_list tpp" "0 < sum_list tap"
    using assms by (auto simp: sum_list_sum_nth intro: sum_nonneg sum_mono sum_pos)
  have "0 < sum_list tpp" using assms by (auto simp: sum_list_sum_nth intro: sum_pos)
  then obtain x y where "rounded_ratio (sum_list tp) (sum_list tpp) = Inr (Fin x)" "0 \<le> x" "x \<le> 1"
    "rounded_ratio (sum_list tp) (sum_list tap) = Inr (Fin y)" "0 \<le> y" "y \<le> 1"
    using rounded_ratio_unit sums by meson
  then show ?thesis
    using rows len urows by (intro exI[of _ rows] exI[of _ "(Fin x, Fin y)"]) (auto simp: calculate_p_r_def)
qed

end
