(* ===== verification/Iperf.thy ===== *)
theory Iperf
  imports Handover_Metrics Packet_Frames
begin

text \<open>
  The readers of iperf3 reports: \<open>parse_iperf3_log\<close> (\<open>metrics.py\<close> and
  \<open>parse-logs.py\<close>, the same code), \<open>filter_time_range_iperf\<close>, and
  \<open>read_iperf\<close>, \<open>set_df_range\<close> and the field separation of
  \<open>read_handover\<close> in \<open>util.py\<close>. A report is the value that
  \<open>json.load\<close> returns; subscripts, iteration and arithmetic on such a
  value follow Python and raise where Python raises.
\<close>

section \<open>JSON values\<close>

datatype json =
    JNull
  | JBool bool
  | JInt int
  | JFloat pyfloat
  | JStr string
  | JArr "json list"
  | JObj "(string \<times> json) list"

fun json_get :: "json \<Rightarrow> string \<Rightarrow> json result" where
  "json_get (JObj kvs) k = (case map_of kvs k of Some v \<Rightarrow> Ok v | None \<Rightarrow> Raise KeyError)"
| "json_get _ k = Raise TypeError"

text \<open>The subscript \<open>[0]\<close>.\<close>

fun json_first :: "json \<Rightarrow> json result" where
  "json_first (JArr xs) = (case xs of x # _ \<Rightarrow> Ok x | [] \<Rightarrow> Raise IndexError)"
| "json_first (JStr s) = (case s of c # _ \<Rightarrow> Ok (JStr [c]) | [] \<Rightarrow> Raise IndexError)"
| "json_first (JObj _) = Raise KeyError"
| "json_first _ = Raise TypeError"

fun json_iter :: "json \<Rightarrow> json list result" where
  "json_iter (JArr xs) = Ok xs"
| "json_iter (JObj kvs) = Ok (map (JStr \<circ> fst) kvs)"
| "json_iter (JStr s) = Ok (map (\<lambda>c. JStr [c]) s)"
| "json_iter _ = Raise TypeError"

text \<open>Numbers: an int or a float, a bool being an int.\<close>

datatype pynum = PyInt int | PyFloat pyfloat

fun json_num :: "json \<Rightarrow> pynum result" where
  "json_num (JInt i) = Ok (PyInt i)"
| "json_num (JBool b) = Ok (PyInt (if b then 1 else 0))"
| "json_num (JFloat x) = Ok (PyFloat x)"
| "json_num _ = Raise TypeError"

fun num_add :: "pynum \<Rightarrow> pynum \<Rightarrow> pynum result" where
  "num_add (PyInt a) (PyInt b) = Ok (PyInt (a + b))"
| "num_add (PyFloat x) (PyFloat y) = Ok (PyFloat (float_add x y))"
| "num_add (PyInt a) (PyFloat y) = and_then (float_of_int a) (\<lambda>x. Ok (PyFloat (float_add x y)))"
| "num_add (PyFloat x) (PyInt b) = and_then (float_of_int b) (\<lambda>y. Ok (PyFloat (float_add x y)))"

text \<open>\<open>x / 2\<close> and \<open>x / 1e6\<close>: the first divisor is an int, the second
  a float.\<close>

fun num_half :: "pynum \<Rightarrow> pyfloat result" where
  "num_half (PyInt a) = int_truediv a 2"
| "num_half (PyFloat x) = Ok (float_div_lit x 2)"

fun num_mega :: "pynum \<Rightarrow> pyfloat result" where
  "num_mega (PyInt a) = and_then (float_of_int a) (\<lambda>x. Ok (float_div_lit x 1000000))"
| "num_mega (PyFloat x) = Ok (float_div_lit x 1000000)"

text \<open>\<open>round(x, 1)\<close> and \<open>round(x)\<close>\<close>

fun num_round1 :: "pynum \<Rightarrow> pynum" where
  "num_round1 (PyInt a) = PyInt a"
| "num_round1 (PyFloat x) = PyFloat (round_digits 1 x)"

fun num_round :: "pynum \<Rightarrow> pynum result" where
  "num_round (PyInt a) = Ok (PyInt a)"
| "num_round (PyFloat x) = and_then (round_float x) (\<lambda>i. Ok (PyInt i))"

section \<open>Throughput of a run\<close>

definition iperf_interval :: "json \<Rightarrow> (pyfloat \<times> pyfloat) result" where
  "iperf_interval interval =
     and_then (json_get interval ''sum'') (\<lambda>sm1. and_then (json_get sm1 ''start'') (\<lambda>start_time.
     and_then (json_get interval ''sum'') (\<lambda>sm2. and_then (json_get sm2 ''end'') (\<lambda>end_time.
     and_then (json_get interval ''sum'') (\<lambda>sm3. and_then (json_get sm3 ''bits_per_second'') (\<lambda>bits_per_second.
     and_then (json_num start_time) (\<lambda>s. and_then (json_num end_time) (\<lambda>e.
     and_then (num_add s e) (\<lambda>se. and_then (num_half se) (\<lambda>t.
     and_then (json_num bits_per_second) (\<lambda>b. and_then (num_mega b) (\<lambda>mb. Ok (t, mb)))))))))))))"

definition parse_iperf3_log :: "json \<Rightarrow> (pyfloat list \<times> pyfloat list) result" where
  "parse_iperf3_log data =
     and_then (json_get data ''intervals'') (\<lambda>intervals.
     and_then (json_iter intervals) (\<lambda>ivs.
     and_then (map_result iperf_interval ivs) (\<lambda>samples.
       Ok (map fst samples, map snd samples))))"

text \<open>The same loop as \<open>filter_time_range\<close> of \<open>metrics.py\<close>.\<close>

definition filter_time_range_iperf ::
  "pyfloat list \<Rightarrow> 'b list \<Rightarrow> pyfloat \<Rightarrow> pyfloat \<Rightarrow> pyfloat list \<times> 'b list"
where
  "filter_time_range_iperf time_intervals data start_time end_time =
     filter_time_loop start_time end_time (zip time_intervals data) [] []"

text \<open>The defaults of the time range on every command line.\<close>

definition time_range :: "pyfloat option \<Rightarrow> pyfloat option \<Rightarrow> pyfloat \<times> pyfloat" where
  "time_range begin_time end_time =
     ((case begin_time of None \<Rightarrow> Fin 0 | Some b \<Rightarrow> b), (case end_time of None \<Rightarrow> Fin 1200 | Some e \<Rightarrow> e))"

text \<open>The iPerf3 branch of \<open>parse-logs.py\<close>: the printed average and the
  rows of the CSV file.\<close>

definition iperf_throughput ::
  "json \<Rightarrow> pyfloat option \<Rightarrow> pyfloat option \<Rightarrow> (pyfloat \<times> (pyfloat \<times> pyfloat) list) result"
where
  "iperf_throughput data b e =
     (case time_range b e of (begin_time, end_time) \<Rightarrow>
        and_then (parse_iperf3_log data) (\<lambda>(ts, tps).
          case filter_time_range_iperf ts tps begin_time end_time of (time_intervals, throughputs) \<Rightarrow>
            and_then (float_mean throughputs) (\<lambda>average.
              Ok (average, zip time_intervals throughputs))))"

section \<open>Reports as data frames\<close>

type_synonym columns = "(string \<times> json list) list"

fun num_json :: "pynum \<Rightarrow> json" where
  "num_json (PyInt i) = JInt i"
| "num_json (PyFloat x) = JFloat x"

definition get_round1 :: "json \<Rightarrow> string \<Rightarrow> json result" where
  "get_round1 j k = and_then (json_get j k) (\<lambda>v. and_then (json_num v) (\<lambda>x. Ok (num_json (num_round1 x))))"

definition get_round :: "json \<Rightarrow> string \<Rightarrow> json result" where
  "get_round j k = and_then (json_get j k) (\<lambda>v. and_then (json_num v) (\<lambda>x.
     and_then (num_round x) (\<lambda>r. Ok (num_json r))))"

text \<open>The samples of one interval, one value per column, in each of the
  three branches.\<close>

definition udp_sample :: "json \<Rightarrow> json list result" where
  "udp_sample interval =
     and_then (json_get interval ''sum'') (\<lambda>sm.
     and_then (get_round1 sm ''start'') (\<lambda>sec. and_then (get_round1 sm ''jitter_ms'') (\<lambda>jit.
     and_then (get_round sm ''bits_per_second'') (\<lambda>thp. and_then (json_get sm ''lost_percent'') (\<lambda>los.
       Ok [sec, thp, jit, los])))))"

definition tcp_sender_sample :: "json \<Rightarrow> json list result" where
  "tcp_sender_sample interval =
     and_then (json_get interval ''streams'') (\<lambda>ss. and_then (json_first ss) (\<lambda>sample.
     and_then (get_round1 sample ''start'') (\<lambda>sec. and_then (get_round sample ''bits_per_second'') (\<lambda>thp.
     and_then (json_get sample ''snd_cwnd'') (\<lambda>cwnd. and_then (json_get sample ''rtt'') (\<lambda>rtt.
       Ok [sec, thp, cwnd, rtt]))))))"

definition tcp_receiver_sample :: "json \<Rightarrow> json list result" where
  "tcp_receiver_sample interval =
     and_then (json_get interval ''sum'') (\<lambda>sm.
     and_then (get_round1 sm ''start'') (\<lambda>sec. and_then (get_round sm ''bits_per_second'') (\<lambda>thp.
       Ok [sec, thp])))"

definition frame_of :: "string list \<Rightarrow> json list list \<Rightarrow> columns" where
  "frame_of names rows = map (\<lambda>i. (names ! i, map (\<lambda>r. r ! i) rows)) [0..<length names]"

definition read_branch :: "string list \<Rightarrow> (json \<Rightarrow> json list result) \<Rightarrow> json \<Rightarrow> columns result" where
  "read_branch names sample data =
     and_then (json_get data ''intervals'') (\<lambda>intervals. and_then (json_iter intervals) (\<lambda>ivs.
     and_then (map_result sample ivs) (\<lambda>rows. Ok (frame_of names rows))))"

text \<open>A protocol that is neither leaves the frame unassigned.\<close>

definition read_iperf :: "json \<Rightarrow> bool \<Rightarrow> (columns \<times> json) result" where
  "read_iperf data sender =
     and_then (json_get data ''start'') (\<lambda>start. and_then (json_get start ''timestamp'') (\<lambda>ts.
     and_then (json_get ts ''timesecs'') (\<lambda>start_time.
     and_then (json_get start ''test_start'') (\<lambda>test. and_then (json_get test ''protocol'') (\<lambda>protocol.
     and_then (if protocol = JStr ''UDP''
               then read_branch [''seconds'', ''throughput'', ''jitter'', ''loss_rate''] udp_sample data
               else if protocol = JStr ''TCP''
               then (if sender
                     then read_branch [''seconds'', ''throughput'', ''snd_cwnd'', ''rtt''] tcp_sender_sample data
                     else read_branch [''seconds'', ''throughput''] tcp_receiver_sample data)
               else Raise UnboundLocalError) (\<lambda>df.
       Ok (df, start_time)))))))"

text \<open>\<open>set_df_range\<close>: rows with a column of seconds; the first label of
  an empty frame is a missing key.\<close>

definition set_df_range ::
  "(pyfloat \<times> 'r) list \<Rightarrow> pyfloat \<times> pyfloat \<Rightarrow> bool \<Rightarrow> (pyfloat \<times> 'r) list result"
where
  "set_df_range df rng reset_ts =
     (let d = filter (\<lambda>r. float_lt (fst r) (snd rng)) (filter (\<lambda>r. float_lt (fst rng) (fst r)) df)
      in if reset_ts
         then (case d of
                 [] \<Rightarrow> Raise KeyError
               | (s0, _) # _ \<Rightarrow> Ok (map (\<lambda>(s, r). (float_sub s s0, r)) d))
         else Ok d)"

text \<open>\<open>re.sub(r",", "|", line.rstrip(), count=6)\<close> in
  \<open>read_handover\<close>.\<close>

fun sub_commas :: "nat \<Rightarrow> string \<Rightarrow> string" where
  "sub_commas n [] = []"
| "sub_commas n (c # cs) =
     (if n > 0 \<and> c = CHR '','' then CHR ''|'' # sub_commas (n - 1) cs else c # sub_commas n cs)"

definition handover_lines :: "string \<Rightarrow> string" where
  "handover_lines content = concat (map (\<lambda>line. sub_commas 6 (rstrip line) @ [newline]) (readlines content))"

text \<open>\<open>read_handover\<close>: what pandas makes of the text, of a time of day and of the date
  are parameters; a row gets its seconds as a further column.\<close>

definition handover_columns :: "string list" where
  "handover_columns = [''Time'', ''Chipset Time'', ''UE-NET'', ''Channel'', ''Tech'', ''Message'', ''Info'']"

definition read_handover ::
  "(string \<Rightarrow> string list \<Rightarrow> (string \<rightharpoonup> string) list result) \<Rightarrow> (string option \<Rightarrow> 't result) \<Rightarrow>
   ('t \<Rightarrow> int \<Rightarrow> int \<Rightarrow> int \<Rightarrow> pyfloat result) \<Rightarrow> (string \<rightharpoonup> string) \<Rightarrow> string \<Rightarrow> int \<Rightarrow> int \<Rightarrow> int \<Rightarrow>
   ((string \<rightharpoonup> string) \<times> pyfloat) list result"
where
  "read_handover read_bars to_time timestamp files fname m d y =
     (case files fname of
        None \<Rightarrow> Raise FileNotFoundError
      | Some content \<Rightarrow>
          and_then (read_bars (handover_lines content) handover_columns) (\<lambda>df.
          and_then (map_result (\<lambda>r. to_time (r ''Time'')) df) (\<lambda>ts.
          and_then (map_result (\<lambda>t. timestamp t m d y) ts) (\<lambda>seconds. Ok (zip df seconds)))))"

lemma read_handover_rows:
  assumes "read_handover read_bars to_time timestamp files fname m d y = Ok rows"
  shows "\<exists>content. files fname = Some content \<and> read_bars (handover_lines content) handover_columns = Ok (map fst rows) \<and>
    list_all (\<lambda>(r, s). \<exists>t. to_time (r ''Time'') = Ok t \<and> timestamp t m d y = Ok s) rows"
proof -
  obtain content df ts seconds where c: "files fname = Some content"
    "read_bars (handover_lines content) handover_columns = Ok df"
    "map_result (\<lambda>r. to_time (r ''Time'')) df = Ok ts" "map_result (\<lambda>t. timestamp t m d y) ts = Ok seconds"
    "rows = zip df seconds"
    using assms by (auto simp: read_handover_def and_then_eq_Ok split: option.splits)
  then have "length ts = length df" "length seconds = length df" by (auto dest!: map_result_length)
  with c show ?thesis
    by (auto simp: map_result_Ok_iff list_all2_conv_all_nth list_all_length)
qed

section \<open>Midpoints of intervals\<close>

lemma is_double_twice: "is_double x \<Longrightarrow> is_double (2 * x)"
proof -
  assume "is_double x"
  then obtain m e where x: "x = of_int m * 2 powi e" "\<bar>m\<bar> \<le> 2 ^ 53" "- 1074 \<le> e"
    unfolding is_double_def by blast
  then have "2 * x = of_int m * 2 powi (e + 1)" by (simp add: power_int_add_1')
  then show ?thesis unfolding is_double_def using x by (intro exI[of _ m] exI[of _ "e + 1"]) auto
qed

definition midpoint :: "rat \<Rightarrow> rat \<Rightarrow> rat" where
  "midpoint s e = fl (fl (s + e) / 2)"

lemma midpoint_between:
  assumes "is_double s" "is_double e" "s \<le> e"
  shows "s \<le> midpoint s e" "midpoint s e \<le> e"
proof -
  have "2 * s \<le> fl (s + e)" using assms by (intro double.rnd_ge_repr is_double_twice) auto
  then show "s \<le> midpoint s e" unfolding midpoint_def using assms by (intro double.rnd_ge_repr) auto
  have "fl (s + e) \<le> 2 * e" using assms by (intro double.rnd_le_repr is_double_twice) auto
  then show "midpoint s e \<le> e" unfolding midpoint_def using assms by (intro double.rnd_le_repr) auto
qed

text \<open>An interval of a report with float fields.\<close>

definition interval_fields :: "json \<Rightarrow> rat \<times> rat \<times> rat \<Rightarrow> bool" where
  "interval_fields j f = (case f of (s, e, b) \<Rightarrow>
     (\<exists>sm. json_get j ''sum'' = Ok sm \<and> json_get sm ''start'' = Ok (JFloat (Fin s))
        \<and> json_get sm ''end'' = Ok (JFloat (Fin e)) \<and> json_get sm ''bits_per_second'' = Ok (JFloat (Fin b))))"

lemma iperf_interval_fields:
  assumes "interval_fields j (s, e, b)" "\<bar>s\<bar> \<le> 2 ^ 1000" "\<bar>e\<bar> \<le> 2 ^ 1000" "is_double s" "is_double e" "s \<le> e"
  shows "iperf_interval j = Ok (Fin (midpoint s e), mk_float (b / 1000000))"
proof -
  have big: "(2::rat) ^ 1000 + 2 ^ 1000 \<le> 2 ^ 1023" by simp
  have se: "mk_float (s + e) = Fin (fl (s + e))"
    using assms(2,3) big by (intro mk_float_Fin) linarith
  have "2 * s \<le> fl (s + e)" "fl (s + e) \<le> 2 * e"
    using assms(4-6) by (auto intro: double.rnd_ge_repr double.rnd_le_repr is_double_twice)
  then have "\<bar>fl (s + e) / 2\<bar> \<le> 2 ^ 1000" using assms(2,3) by (simp add: abs_le_iff)
  then have "mk_float (fl (s + e) / 2) = Fin (midpoint s e)"
    using big unfolding midpoint_def by (intro mk_float_Fin) linarith
  then show ?thesis using assms(1) se by (auto simp: iperf_interval_def interval_fields_def)
qed

text \<open>Throughput samples of an iperf3 report: for intervals that follow
  one another, \<open>parse_iperf3_log\<close> returns one time and one throughput per
  interval; every time, computed in rounded arithmetic, lies within its own
  interval, the times are in ascending order, and every throughput is the
  correctly rounded number of megabits per second.\<close>

lemma parse_iperf3_log_samples:
  assumes "json_get data ''intervals'' = Ok (JArr js)" "list_all2 interval_fields js ivs"
    and "\<forall>(s, e, b) \<in> set ivs. is_double s \<and> is_double e \<and> s \<le> e \<and> - (2 ^ 1000) \<le> s \<and> e \<le> 2 ^ 1000"
    and "sorted_wrt (\<lambda>(s, e, b) (s', e', b'). e \<le> s') ivs"
  shows "\<exists>ts. parse_iperf3_log data = Ok (map Fin ts, map (\<lambda>(s, e, b). mk_float (b / 1000000)) ivs)
    \<and> list_all2 (\<lambda>t (s, e, b). s \<le> t \<and> t \<le> e) ts ivs \<and> sorted ts"
proof -
  let ?m = "\<lambda>(s, e, b :: rat). midpoint s e"
  have small: "\<bar>s\<bar> \<le> 2 ^ 1000" "\<bar>e\<bar> \<le> 2 ^ 1000"
    if "s \<le> e" "- (2 ^ 1000) \<le> s" "e \<le> 2 ^ 1000" for s e :: rat
    using that unfolding abs_le_iff by linarith+
  have "list_all2 (\<lambda>j y. iperf_interval j = Inr y) js (map (\<lambda>(s, e, b). (Fin (midpoint s e), mk_float (b / 1000000))) ivs)"
    unfolding list_all2_map2
    using assms(2)
  proof (rule list.rel_mono_strong)
    fix j iv assume "iv \<in> set ivs" "interval_fields j iv"
    moreover obtain s e b where "iv = (s, e, b)" by (cases iv) auto
    ultimately show "iperf_interval j = Inr (case iv of (s, e, b) \<Rightarrow> (Fin (midpoint s e), mk_float (b / 1000000)))"
      using assms(3) iperf_interval_fields[of j s e b] small[of s e] by auto
  qed
  then have "map_result iperf_interval js = Inr (map (\<lambda>(s, e, b). (Fin (midpoint s e), mk_float (b / 1000000))) ivs)"
    by (simp add: map_result_Ok_iff)
  then have ok: "parse_iperf3_log data = Ok (map Fin (map ?m ivs), map (\<lambda>(s, e, b). mk_float (b / 1000000)) ivs)"
    using assms(1) by (simp add: parse_iperf3_log_def case_prod_unfold)
  have between: "s \<le> midpoint s e \<and> midpoint s e \<le> e" if "(s, e, b) \<in> set ivs" for s e b
    using assms(3) that midpoint_between[of s e] by auto
  have "list_all2 (\<lambda>t (s, e, b). s \<le> t \<and> t \<le> e) (map ?m ivs) ivs"
    using between by (auto simp: list_all2_map1 list_all2_same)
  moreover have "sorted (map ?m ivs)"
    unfolding sorted_map
  proof (rule sorted_wrt_mono_rel[OF _ assms(4)])
    show "?m x \<le> ?m y" if h: "x \<in> set ivs" "y \<in> set ivs" "(\<lambda>(s, e, b) (s', e', b'). e \<le> s') x y" for x y
    proof -
      obtain s e b s' e' b' where xy: "x = (s, e, b)" "y = (s', e', b')" by (cases x; cases y) auto
      then have "midpoint s e \<le> e" "e \<le> s'" "s' \<le> midpoint s' e'"
        using h between by auto
      then show ?thesis using xy by simp
    qed
  qed
  ultimately show ?thesis using ok by blast
qed

section \<open>Frames of reports\<close>

lemma read_branch_columns:
  assumes "read_branch names sample data = Inr df"
  shows "map fst df = names"
    and "\<exists>intervals ivs. json_get data ''intervals'' = Inr intervals \<and> json_iter intervals = Inr ivs
           \<and> (\<forall>c \<in> set df. length (snd c) = length ivs)"
proof -
  obtain intervals ivs rows where r: "json_get data ''intervals'' = Inr intervals" "json_iter intervals = Inr ivs"
      "map_result sample ivs = Inr rows" "df = frame_of names rows"
    using assms by (auto simp: read_branch_def and_then_eq_Ok)
  show "map fst df = names" by (simp add: r(4) frame_of_def comp_def map_nth)
  have "\<forall>c \<in> set df. length (snd c) = length ivs"
    using map_result_length[OF r(3)] by (auto simp: r(4) frame_of_def)
  then show "\<exists>intervals ivs. json_get data ''intervals'' = Inr intervals \<and> json_iter intervals = Inr ivs
           \<and> (\<forall>c \<in> set df. length (snd c) = length ivs)"
    using r by blast
qed


definition demo_report :: "string \<Rightarrow> json" where
  "demo_report protocol = JObj [(''start'', JObj [(''timestamp'', JObj [(''timesecs'', JInt 5)]),
     (''test_start'', JObj [(''protocol'', JStr protocol)])]), (''intervals'', JArr [])]"


text \<open>\<open>set_df_range\<close> keeps exactly the rows strictly inside the range,
  in order; with \<open>reset_ts\<close> it raises on an empty selection, and on rows
  in ascending order of finite times it starts the result at 0, keeps the order
  and has no negative time.\<close>

lemma set_df_range_rows:
  fixes rows :: "(rat \<times> 'r) list" and lo hi :: rat
  assumes "sorted (map fst rows)" "\<forall>r \<in> set rows. \<bar>fst r\<bar> \<le> 2 ^ 1000"
  defines "kept \<equiv> filter (\<lambda>r. lo < fst r \<and> fst r < hi) rows"
  shows "set_df_range (map (map_prod Fin id) rows) (Fin lo, Fin hi) False = Ok (map (map_prod Fin id) kept)
    \<and> (if kept = [] then set_df_range (map (map_prod Fin id) rows) (Fin lo, Fin hi) True = Raise KeyError
       else \<exists>d. set_df_range (map (map_prod Fin id) rows) (Fin lo, Fin hi) True = Ok (map (map_prod Fin id) d)
            \<and> map snd d = map snd kept \<and> fst (hd d) = 0 \<and> sorted (map fst d) \<and> (\<forall>r \<in> set d. 0 \<le> fst r))"
proof -
  have sel: "filter (\<lambda>r. float_lt (fst r) (Fin hi)) (filter (\<lambda>r. float_lt (Fin lo) (fst r)) (map (map_prod Fin id) rows))
      = map (map_prod Fin id) kept"
    by (simp add: kept_def filter_map comp_def conj_commute)
  have big: "(2::rat) ^ 1000 + 2 ^ 1000 \<le> 2 ^ 1023" by simp
  show ?thesis
  proof (cases kept)
    case Nil
    then show ?thesis using sel by (simp add: set_df_range_def)
  next
    case (Cons r0 rest)
    have srt: "sorted (map fst kept)" using assms(1) by (simp add: kept_def sorted_map sorted_wrt_filter_imp)
    then have ge: "\<forall>r \<in> set kept. fst r0 \<le> fst r" by (simp add: Cons)
    have small: "\<bar>fst r\<bar> \<le> 2 ^ 1000" if "r \<in> set kept" for r using assms(2) that by (simp add: kept_def)
    let ?d = "map (\<lambda>r. (fl (fst r - fst r0), snd r)) kept"
    have sub: "float_sub (Fin (fst r)) (Fin (fst r0)) = Fin (fl (fst r - fst r0))" if "r \<in> set kept" for r
    proof -
      have "\<bar>fst r - fst r0\<bar> \<le> 2 ^ 1000 + 2 ^ 1000"
        using small[OF that] small[of r0] by (simp only: Cons) (simp add: abs_le_iff)
      then show ?thesis unfolding float_sub_Fin using big by (intro mk_float_Fin) linarith
    qed
    have "set_df_range (map (map_prod Fin id) rows) (Fin lo, Fin hi) True
        = Ok (map (\<lambda>(s, r). (float_sub s (Fin (fst r0)), r)) (map (map_prod Fin id) kept))"
      unfolding set_df_range_def Let_def fst_conv snd_conv sel by (cases r0) (simp add: Cons)
    also have "map (\<lambda>(s, r). (float_sub s (Fin (fst r0)), r)) (map (map_prod Fin id) kept) = map (map_prod Fin id) ?d"
      using sub by (auto simp: split_beta)
    finally have ok: "set_df_range (map (map_prod Fin id) rows) (Fin lo, Fin hi) True = Ok (map (map_prod Fin id) ?d)" .
    have "sorted (map fst ?d)"
    proof -
      have "sorted_wrt (\<lambda>a b. fl (fst a - fst r0) \<le> fl (fst b - fst r0)) kept"
        by (rule sorted_wrt_mono_rel[OF _ srt[unfolded sorted_map]]) (simp add: fl_mono)
      then show ?thesis by (simp add: sorted_map)
    qed
    moreover have "\<forall>r \<in> set ?d. 0 \<le> fst r" using ge by (force intro: double.rnd_nonneg)
    moreover have "map snd ?d = map snd kept" "fst (hd ?d) = 0" by (simp_all add: Cons)
    ultimately show ?thesis using ok sel Cons
      by (auto simp: set_df_range_def intro!: exI[of _ ?d])
  qed
qed

text \<open>Field separation of a handover log: when the first six fields of a
  line hold neither a comma nor a bar and the rest no bar, the rewritten line splits at the bars into
  exactly the six fields and the rest, whose own commas are kept.\<close>

lemma sub_commas_fields:
  assumes "length fs = n" "\<forall>f \<in> set fs. CHR '','' \<notin> set f \<and> CHR ''|'' \<notin> set f" "CHR ''|'' \<notin> set info"
  shows "split_on (CHR ''|'') (sub_commas n (concat (map (\<lambda>f. f @ '','') fs) @ info)) = fs @ [info]"
  using assms
proof (induction fs arbitrary: n)
  case Nil
  have "sub_commas 0 s = s" for s by (induction s) auto
  then show ?case using Nil by (simp add: split_on_single)
next
  case (Cons f fs)
  then obtain k where n: "n = Suc k" by (cases n) auto
  have "sub_commas (Suc k) (f @ CHR '','' # s) = f @ CHR ''|'' # sub_commas k s" if "CHR '','' \<notin> set f" for f s
    using that by (induction f) auto
  then show ?case using Cons by (simp add: n split_on_append)
qed

end
