(* ===== verification/Plot_Tools.thy ===== *)
theory Plot_Tools
  imports SS_Log Iperf
begin

text \<open>
  The decisions of the plotting scripts, up to the calls of matplotlib:
  \<open>plotting.py\<close> and \<open>plot.py\<close> (which rows and columns are drawn, what
  is refused, what is saved or shown), \<open>plot-logs.py\<close> (which inputs are
  found and which axes they use) and the distributions of
  \<open>plot_loss.py\<close>. A figure is the list of its series; a data frame read
  from a CSV file is its list of columns and its rows, with integer time
  stamps in nanoseconds.
\<close>

section \<open>plotting.py\<close>

datatype 'v cell = Cell 'v | Stamp_ns int | Offset pyfloat

type_synonym 'v row = "(string \<times> 'v cell) list"

text \<open>\<open>parse_time\<close>: \<open>strptime\<close> with \<open>%H:%M:%S\<close> takes one or two
  digits per field in their ranges; a second 60 or 61 passes its pattern and
  is then refused.\<close>

definition two_digits :: "nat \<Rightarrow> string \<Rightarrow> nat option" where
  "two_digits bound s =
     (if list_all is_dec s \<and> (length s = 1 \<or> length s = 2) \<and> digits_val s < bound
      then Some (digits_val s) else None)"

definition strptime_hms :: "string \<Rightarrow> (nat \<times> nat \<times> nat) result" where
  "strptime_hms s =
     (case split_on (CHR '':'') s of
        [h, m, sec] \<Rightarrow>
          (case (two_digits 24 h, two_digits 60 m, two_digits 60 sec) of
             (Some h', Some m', Some s') \<Rightarrow> Ok (h', m', s')
           | _ \<Rightarrow> Raise ValueError)
      | _ \<Rightarrow> Raise ValueError)"

definition parse_time :: "string option \<Rightarrow> pyfloat option result" where
  "parse_time time_str =
     (case time_str of
        None \<Rightarrow> Ok None
      | Some s \<Rightarrow>
          (case strptime_hms s of
             Inr (h, m, sec) \<Rightarrow> Ok (Some (Fin (of_nat (h * 3600 + m * 60 + sec))))
           | Inl _ \<Rightarrow>
               (case py_float s of
                  Inr x \<Rightarrow> Ok (Some x)
                | Inl _ \<Rightarrow> Raise ArgumentTypeError)))"

text \<open>\<open>MetricsPlotter.__init__\<close>: the offset of a row is the distance of its
  time stamp to the first, in seconds.\<close>

fun stamp_of :: "'v cell option \<Rightarrow> int result" where
  "stamp_of (Some (Stamp_ns n)) = Ok n"
| "stamp_of (Some _) = Raise ValueError"
| "stamp_of None = Raise KeyError"

definition offset_seconds :: "int \<Rightarrow> int \<Rightarrow> pyfloat" where
  "offset_seconds n0 n = float_div_lit (mk_float (of_int (n - n0))) 1000000000"

definition plotter_init :: "string list \<Rightarrow> 'v row list \<Rightarrow> 'v row list result" where
  "plotter_init columns rows =
     (if ''timestamp'' \<notin> set columns then Raise KeyError
      else and_then (map_result (\<lambda>r. stamp_of (map_of r ''timestamp'')) rows) (\<lambda>stamps.
        case stamps of
          [] \<Rightarrow> Raise IndexError
        | n0 # _ \<Rightarrow> Ok (map (\<lambda>(r, n). dict_set ''time_offset'' (Offset (offset_seconds n0 n))
                                (dict_set ''datetime'' (Stamp_ns n) r)) (zip rows stamps))))"

definition row_offset :: "'v row \<Rightarrow> pyfloat" where
  "row_offset r = (case map_of r ''time_offset'' of Some (Offset x) \<Rightarrow> x | _ \<Rightarrow> NaN)"

definition plotter_filter :: "'v row list \<Rightarrow> pyfloat option \<Rightarrow> pyfloat option \<Rightarrow> 'v row list" where
  "plotter_filter df start_time end_time =
     (let d1 = (case start_time of None \<Rightarrow> df | Some s \<Rightarrow> filter (\<lambda>r. float_le s (row_offset r)) df);
          d2 = (case end_time of None \<Rightarrow> d1 | Some e \<Rightarrow> filter (\<lambda>r. float_le (row_offset r) e) d1)
      in d2)"

text \<open>\<open>plot_metric\<close>: nothing, or the points drawn.\<close>

definition plotter_plot_metric ::
  "'v row list \<Rightarrow> string \<Rightarrow> pyfloat option \<Rightarrow> pyfloat option \<Rightarrow> (pyfloat \<times> 'v cell) list option"
where
  "plotter_plot_metric df metric_name start_time end_time =
     (case plotter_filter df start_time end_time of
        [] \<Rightarrow> None
      | r # rs \<Rightarrow>
          (if metric_name \<notin> fst ` set r then None
           else Some (map (\<lambda>x. (row_offset x, the (map_of x metric_name))) (r # rs))))"

definition get_available_metrics :: "'v row list \<Rightarrow> string list" where
  "get_available_metrics df = (case df of [] \<Rightarrow> [] | r # _ \<Rightarrow> sort (map fst r))"

datatype 'v plot_outcome =
    Listed "string list"
  | Nothing_drawn
  | Saved string "(pyfloat \<times> 'v cell) list"
  | Shown "(pyfloat \<times> 'v cell) list"

text \<open>\<open>main\<close> of \<open>plotting.py\<close>, after the arguments are parsed; an
  empty output path counts as none.\<close>

definition plotting_main ::
  "string list \<Rightarrow> 'v row list \<Rightarrow> bool \<Rightarrow> string \<Rightarrow> pyfloat option \<Rightarrow> pyfloat option \<Rightarrow> string option \<Rightarrow>
   'v plot_outcome result"
where
  "plotting_main columns rows list_metrics metric start_time end_time output =
     and_then (plotter_init columns rows) (\<lambda>df.
       if list_metrics then Ok (Listed (get_available_metrics df))
       else case plotter_plot_metric df metric start_time end_time of
              None \<Rightarrow> Ok Nothing_drawn
            | Some points \<Rightarrow>
                (case output of
                   Some path \<Rightarrow> (if path \<noteq> [] then Ok (Saved path points) else Ok (Shown points))
                 | None \<Rightarrow> Ok (Shown points)))"

section \<open>plot.py\<close>

record 'v figure =
  fig_title :: string
  fig_series :: "(string option \<times> (pyfloat \<times> 'v cell) list) list"
  fig_output :: "string option"

text \<open>A metric over the time stamps in seconds.\<close>

definition metric_series :: "string list \<Rightarrow> 'v row list \<Rightarrow> string \<Rightarrow> (pyfloat \<times> 'v cell) list result" where
  "metric_series columns data metric =
     (if ''timestamp'' \<notin> set columns then Raise KeyError
      else map_result (\<lambda>r. and_then (stamp_of (map_of r ''timestamp'')) (\<lambda>n.
        Ok (float_div_lit (mk_float (of_int n)) 1000000000, the (map_of r metric)))) data)"

definition nonempty_or :: "string option \<Rightarrow> string \<Rightarrow> string" where
  "nonempty_or s d = (case s of Some t \<Rightarrow> (if t \<noteq> [] then t else d) | None \<Rightarrow> d)"

definition output_path :: "string option \<Rightarrow> string option" where
  "output_path output = (case output of Some p \<Rightarrow> (if p \<noteq> [] then Some p else None) | None \<Rightarrow> None)"

definition plot_metric ::
  "string list \<Rightarrow> 'v row list \<Rightarrow> string \<Rightarrow> string option \<Rightarrow> string option \<Rightarrow> (bool \<times> 'v figure option) result"
where
  "plot_metric columns data metric title output =
     (if metric \<notin> set columns then Ok (False, None)
      else and_then (metric_series columns data metric) (\<lambda>points.
        Ok (True, Some \<lparr>fig_title = nonempty_or title (metric @ '' over Time''),
                        fig_series = [(None, points)], fig_output = output_path output\<rparr>)))"

definition plot_multiple_metrics ::
  "string list \<Rightarrow> 'v row list \<Rightarrow> string list \<Rightarrow> string option \<Rightarrow> string option \<Rightarrow> (bool \<times> 'v figure option) result"
where
  "plot_multiple_metrics columns data metrics title output =
     (if list_ex (\<lambda>m. m \<notin> set columns) metrics then Ok (False, None)
      else and_then (map_result (\<lambda>m. and_then (metric_series columns data m) (\<lambda>points. Ok (Some m, points))) metrics) (\<lambda>series.
        Ok (True, Some \<lparr>fig_title = nonempty_or title ''Multiple Metrics over Time'',
                        fig_series = series, fig_output = output_path output\<rparr>)))"

datatype 'v plot_main = Metrics_listed "string list" | Plotted bool "'v figure option"

definition plot_main ::
  "string list \<Rightarrow> 'v row list \<Rightarrow> bool \<Rightarrow> string list \<Rightarrow> string option \<Rightarrow> 'v plot_main result"
where
  "plot_main columns data list_metrics metrics output =
     (if list_metrics then Ok (Metrics_listed (sort columns))
      else if metrics = [] then Ok (Metrics_listed (sort columns))
      else if length metrics = 1
      then and_then (plot_metric columns data (metrics ! 0) None output) (\<lambda>(b, f). Ok (Plotted b f))
      else and_then (plot_multiple_metrics columns data metrics None output) (\<lambda>(b, f). Ok (Plotted b f)))"

section \<open>plot-logs.py\<close>

record plot_args =
  a_auto :: "string option"
  a_throughput :: "string option"
  a_jitter :: "string option"
  a_ss :: "string option"

text \<open>The files that \<open>--auto\<close> finds replace the named ones.\<close>

definition auto_args :: "(string \<Rightarrow> bool) \<Rightarrow> plot_args \<Rightarrow> plot_args" where
  "auto_args path_exists args =
     (case a_auto args of
        None \<Rightarrow> args
      | Some auto \<Rightarrow>
          (let f1 = path_join ''output'' (auto @ ''-iperf-throughput.csv'');
               args1 = (if path_exists f1 then args\<lparr>a_throughput := Some f1\<rparr> else args);
               f2 = path_join ''output'' (auto @ ''-ss-server.csv'')
           in if path_exists f2 then args1\<lparr>a_ss := Some f2\<rparr> else args1))"

definition n_subfig :: "plot_args \<Rightarrow> nat" where
  "n_subfig args = length (filter (\<lambda>x. x \<noteq> None) [a_throughput args, a_jitter args, a_ss args])"

text \<open>The axes used, in order: \<open>None\<close> is the exit without an input.\<close>

definition truthy :: "string option \<Rightarrow> bool" where
  "truthy s = (case s of Some t \<Rightarrow> t \<noteq> [] | None \<Rightarrow> False)"

definition used_axes :: "plot_args \<Rightarrow> (nat \<times> string) list result" where
  "used_axes args =
     (let n = n_subfig args;
          draw = (\<lambda>s (id, acc). if truthy s
                    then (if id < n then Ok (id + 1, acc @ [(id, the s)]) else Raise IndexError)
                    else Ok (id, acc))
      in and_then (draw (a_throughput args) (0, [])) (\<lambda>s1.
         and_then (draw (a_ss args) s1) (\<lambda>s2. Ok (snd s2))))"

definition plot_logs :: "(string \<Rightarrow> bool) \<Rightarrow> plot_args \<Rightarrow> (nat \<times> (nat \<times> string) list) option result" where
  "plot_logs path_exists args0 =
     (let args = auto_args path_exists args0
      in if n_subfig args = 0 then Ok None
         else and_then (used_axes args) (\<lambda>axes. Ok (Some (n_subfig args, axes))))"

section \<open>plot\_loss.py\<close>

text \<open>One distribution: how many of the handovers have no, one, two or more
  losses, and the cumulative shares.\<close>

definition total_hos :: int where
  "total_hos = 1249"

definition loss_counts :: "pyfloat \<Rightarrow> pyfloat \<Rightarrow> pyfloat \<Rightarrow> int list result" where
  "loss_counts ones twos zeros =
     (let more = float_sub (float_sub (float_sub (Fin 1) ones) twos) zeros;
          times = (\<lambda>x. round_float (float_mul (Fin (of_int total_hos)) x))
      in map_result times [zeros, ones, twos, more])"

fun cumsum :: "int \<Rightarrow> int list \<Rightarrow> int list" where
  "cumsum s [] = []"
| "cumsum s (x # xs) = (s + x) # cumsum (s + x) xs"

text \<open>numpy divides the integers as doubles.\<close>

definition loss_cdf :: "int list \<Rightarrow> pyfloat list" where
  "loss_cdf d = map (\<lambda>c. mk_float (of_int c / of_int (sum_list d))) (cumsum 0 d)"

definition loss_params :: "(string \<times> pyfloat \<times> pyfloat \<times> pyfloat) list" where
  "loss_params =
     [(''CUBIC'', mk_float (18 / 1000), mk_float (6 / 1000), mk_float (973 / 1000)),
      (''Reno'', mk_float (11 / 1000), mk_float (8 / 1000), mk_float (98 / 100)),
      (''Highspeed'', mk_float (25 / 1000), mk_float (1 / 100), mk_float (96 / 100)),
      (''BIC'', mk_float (23 / 1000), mk_float (3 / 100), mk_float (94 / 100)),
      (''H-TCP'', mk_float (2 / 100), mk_float (5 / 1000), mk_float (97 / 100))]"

definition loss_cdfs :: "pyfloat list list result" where
  "loss_cdfs = map_result (\<lambda>(algo, ones, twos, zeros).
     and_then (loss_counts ones twos zeros) (\<lambda>d. Ok (loss_cdf d))) loss_params"

text \<open>The figure: a curve per algorithm over the four classes, with the style of its place.\<close>

datatype line_style = Named string | Dashes int "int list"

record loss_curve =
  lc_points :: "(nat \<times> pyfloat) list"
  lc_color :: string
  lc_style :: line_style
  lc_label :: string

definition algos :: "string list" where
  "algos = [''CUBIC'', ''Reno'', ''Highspeed'', ''BIC'', ''H-TCP'']"

definition line_styles :: "line_style list" where
  "line_styles = [Named ''solid'', Named ''dotted'', Named ''dashed'', Named ''dashdot'', Dashes 0 [3, 5, 1, 5, 1, 5]]"

definition colors :: "string list" where
  "colors = [''tab:blue'', ''tab:orange'', ''tab:green'', ''tab:red'', ''tab:purple'']"

text \<open>\<open>range(len(d))\<close>, with the counts of the last algorithm; a curve of another length is
  refused by \<open>plt.plot\<close>.\<close>

definition draw_curve :: "nat \<Rightarrow> pyfloat list list \<Rightarrow> nat \<Rightarrow> loss_curve result" where
  "draw_curve n cdfs i =
     (if length (cdfs ! i) \<noteq> n then Raise ValueError
      else and_then (py_index colors (int i)) (\<lambda>c.
           and_then (py_index line_styles (int i)) (\<lambda>st.
           and_then (py_index algos (int i)) (\<lambda>a.
             Ok \<lparr>lc_points = zip [0..<n] (cdfs ! i), lc_color = c, lc_style = st, lc_label = a\<rparr>))))"

definition loss_figure :: "loss_curve list result" where
  "loss_figure = and_then loss_cdfs (\<lambda>cdfs. map_result (draw_curve 4 cdfs) [0..<length cdfs])"

section \<open>Times on the command line\<close>

lemma pad2_no_colon: "n < 100 \<Longrightarrow> CHR '':'' \<notin> set (pad2 n)"
  using pad2_dec[of n] dec_not_special by (auto simp: list_all_iff)

lemma two_digits_pad2: "n < bound \<Longrightarrow> n < 100 \<Longrightarrow> two_digits bound (pad2 n) = Some n"
proof -
  assume n: "n < bound" "n < 100"
  then have "digits_val (pad2 n) = n"
    using digits_val_append[of "[char_of (48 + n div 10)]" "char_of (48 + n mod 10)"]
    by (simp add: pad2_def digits_val_def)
  then show ?thesis using n pad2_dec[of n] by (simp add: two_digits_def pad2_def)
qed

lemma day_seconds_unique:
  fixes h m s h' m' s' :: nat
  assumes "m < 60" "s < 60" "m' < 60" "s' < 60" "h' * 3600 + m' * 60 + s' = h * 3600 + m * 60 + s"
  shows "(h', m', s') = (h, m, s)"
proof -
  have "(h' * 60 + m') * 60 + s' = (h * 60 + m) * 60 + s" using assms(5) by (simp add: algebra_simps)
  then have "s' = s" "h' * 60 + m' = h * 60 + m"
    using assms(2,4) by (metis mod_mult_self3 mod_less, metis add_right_cancel div_mult_self3 mod_less mod_mult_self3 mult_right_cancel zero_neq_numeral)
  then show ?thesis using assms(1,3) by (metis add_right_cancel mod_less mod_mult_self3 mult_right_cancel zero_neq_numeral)
qed

text \<open>Times on the command line: every time of day in \<open>HH:MM:SS\<close> is
  read as its number of seconds, below 86400, and different times of day
  differ; anything that is neither such a time nor a number is refused with
  \<open>ArgumentTypeError\<close> and nothing else raises.\<close>

lemma parse_time_reads:
  "(h < 24 \<and> m < 60 \<and> s < 60 \<longrightarrow>
      parse_time (Some (pad2 h @ '':'' @ pad2 m @ '':'' @ pad2 s)) = Ok (Some (Fin (of_nat (h * 3600 + m * 60 + s))))
      \<and> h * 3600 + m * 60 + s < 86400
      \<and> (\<forall>h' m' s'. m' < 60 \<and> s' < 60 \<and> h' * 3600 + m' * 60 + s' = h * 3600 + m * 60 + s
           \<longrightarrow> (h', m', s') = (h, m, s)))
   \<and> (parse_time t = Raise e \<longleftrightarrow>
      e = ArgumentTypeError \<and> (\<exists>str. t = Some str \<and> \<not> is_ok (strptime_hms str) \<and> \<not> is_ok (py_float str)))"
proof (intro conjI impI allI)
  assume b: "h < 24 \<and> m < 60 \<and> s < 60"
  then show "h * 3600 + m * 60 + s < 86400" by linarith
  have "split_on (CHR '':'') (pad2 h @ '':'' @ pad2 m @ '':'' @ pad2 s) = [pad2 h, pad2 m, pad2 s]"
    using b by (simp add: pad2_no_colon split_on_append split_on_single)
  then show "parse_time (Some (pad2 h @ '':'' @ pad2 m @ '':'' @ pad2 s)) = Ok (Some (Fin (of_nat (h * 3600 + m * 60 + s))))"
    using b by (simp add: parse_time_def strptime_hms_def two_digits_pad2)
  show "m' < 60 \<and> s' < 60 \<and> h' * 3600 + m' * 60 + s' = h * 3600 + m * 60 + s
      \<Longrightarrow> (h', m', s') = (h, m, s)" for h' m' s'
    using b by (intro day_seconds_unique) auto
next
  show "parse_time t = Raise e \<longleftrightarrow>
      e = ArgumentTypeError \<and> (\<exists>str. t = Some str \<and> \<not> is_ok (strptime_hms str) \<and> \<not> is_ok (py_float str))"
    by (auto simp: parse_time_def is_ok_def split: option.splits sum.splits prod.splits)
qed

section \<open>Points drawn by plotting.py\<close>

lemma offset_seconds_small:
  assumes "0 \<le> n - n0" "n - n0 \<le> 2 ^ 53"
  shows "offset_seconds n0 n = Fin (fl (of_int (n - n0) / 1000000000))"
proof -
  have "\<bar>n - n0\<bar> \<le> 2 ^ 53" using assms by simp
  then have "offset_seconds n0 n = mk_float (of_int (n - n0) / 1000000000)"
    unfolding offset_seconds_def by (simp only: mk_float_int float_div_lit.simps)
  moreover have "\<bar>rat_of_int (n - n0) / 1000000000\<bar> \<le> 2 ^ 1023"
  proof -
    have "rat_of_int (n - n0) \<le> of_int (2 ^ 53)" using assms(2) by (simp only: of_int_le_iff)
    moreover have "0 \<le> rat_of_int (n - n0)" using assms(1) by (simp only: of_int_0_le_iff)
    ultimately show ?thesis by (simp add: field_simps)
  qed
  ultimately show ?thesis by (simp only: mk_float_Fin)
qed

lemma row_offset_init: "row_offset (dict_set ''time_offset'' (Offset x) r) = x"
  by (simp add: row_offset_def dict_set_map_of)

lemma sorted_le_last:
  fixes xs :: "int list"
  shows "sorted xs \<Longrightarrow> x \<in> set xs \<Longrightarrow> x \<le> last xs"
  by (induction xs) auto

definition in_window :: "pyfloat option \<Rightarrow> pyfloat option \<Rightarrow> pyfloat \<Rightarrow> bool" where
  "in_window start_time end_time x \<longleftrightarrow>
     (case start_time of None \<Rightarrow> True | Some s \<Rightarrow> float_le s x) \<and>
     (case end_time of None \<Rightarrow> True | Some e \<Rightarrow> float_le x e)"

lemma plotter_filter_window: "plotter_filter df s e = filter (\<lambda>r. in_window s e (row_offset r)) df"
  by (auto simp: plotter_filter_def in_window_def conj_commute split: option.splits)

text \<open>A row with its two added columns, and the rows a window keeps.\<close>

definition init_row :: "int \<Rightarrow> 'v row \<times> int \<Rightarrow> 'v row" where
  "init_row n0 = (\<lambda>(r, n). dict_set ''time_offset'' (Offset (offset_seconds n0 n)) (dict_set ''datetime'' (Stamp_ns n) r))"

lemma plotter_filter_rows:
  assumes "plotter_init columns rows = Ok df"
    and "map_result (\<lambda>r. stamp_of (map_of r ''timestamp'')) rows = Ok (n0 # ns)"
  shows "plotter_filter df s e =
    map (init_row n0) (filter (\<lambda>(r, n). in_window s e (offset_seconds n0 n)) (zip rows (n0 # ns)))"
proof -
  have "df = map (init_row n0) (zip rows (n0 # ns))"
    using assms by (auto simp: plotter_init_def init_row_def split: if_splits)
  then show ?thesis
    unfolding plotter_filter_window
    by (simp add: filter_map comp_def case_prod_unfold row_offset_init init_row_def)
qed

text \<open>The points of \<open>plotting.py\<close>: for a file whose time stamps ascend,
  \<open>plot_metric\<close> draws exactly the rows whose offset from the first time
  stamp lies in the requested window, in order, each at its offset with its own
  value of the metric; the offsets are never negative and never go back.\<close>

lemma plotting_points:
  assumes "plotter_init columns rows = Ok df"
    and "map_result (\<lambda>r. stamp_of (map_of r ''timestamp'')) rows = Ok (n0 # ns)"
    and "sorted (n0 # ns)" "last (n0 # ns) - n0 \<le> 2 ^ 53"
    and "metric \<noteq> ''datetime''" "metric \<noteq> ''time_offset''"
    and "plotter_plot_metric df metric start_time end_time = Some points"
  shows "points = map (\<lambda>(r, n). (offset_seconds n0 n, the (map_of r metric)))
      (filter (\<lambda>(r, n). in_window start_time end_time (offset_seconds n0 n)) (zip rows (n0 # ns)))
    \<and> sorted_wrt float_le (map fst points) \<and> list_all (\<lambda>x. float_le (Fin 0) x) (map fst points)"
proof -
  let ?w = "in_window start_time end_time"
  have "points = map (\<lambda>x. (row_offset x, the (map_of x metric))) (plotter_filter df start_time end_time)"
    using assms(7) by (auto simp: plotter_plot_metric_def split: list.splits if_splits)
  then have points: "points = map (\<lambda>(r, n). (offset_seconds n0 n, the (map_of r metric)))
      (filter (\<lambda>(r, n). ?w (offset_seconds n0 n)) (zip rows (n0 # ns)))"
    unfolding plotter_filter_rows [OF assms(1,2)]
    using assms(5,6) by (simp add: case_prod_unfold row_offset_init dict_set_map_of init_row_def)
  have len: "length rows = length (n0 # ns)" using map_result_length[OF assms(2)] by simp
  have bound: "n0 \<le> n \<and> n - n0 \<le> 2 ^ 53" if "n \<in> set (n0 # ns)" for n
  proof -
    have "n \<le> last (n0 # ns)" using assms(3) that by (rule sorted_le_last)
    moreover have "n0 \<le> n" using assms(3) that by auto
    ultimately show ?thesis using assms(4) by linarith
  qed
  have off: "offset_seconds n0 n = Fin (fl (of_int (n - n0) / 1000000000))" if "n \<in> set (n0 # ns)" for n
    using bound[OF that] by (intro offset_seconds_small) auto
  have mono: "float_le (offset_seconds n0 a) (offset_seconds n0 b)"
    if "a \<in> set (n0 # ns)" "b \<in> set (n0 # ns)" "a \<le> b" for a b
  proof -
    have "rat_of_int (a - n0) / 1000000000 \<le> of_int (b - n0) / 1000000000"
      using that(3) by (intro divide_right_mono) simp_all
    then show ?thesis unfolding off[OF that(1)] off[OF that(2)] float_le_Fin by (rule fl_mono)
  qed
  let ?z = "filter (\<lambda>(r, n). ?w (offset_seconds n0 n)) (zip rows (n0 # ns))"
  have mem: "snd z \<in> set (n0 # ns)" if "z \<in> set ?z" for z using that by (auto dest: set_zip_rightD)
  have "sorted_wrt (\<lambda>z z'. snd z \<le> snd z') (zip rows (n0 # ns))"
    using assms(3) len by (metis map_snd_zip sorted_map)
  then have "sorted_wrt (\<lambda>z z'. snd z \<le> snd z') ?z" by (rule sorted_wrt_filter_imp)
  then have "sorted_wrt (\<lambda>z z'. float_le (offset_seconds n0 (snd z)) (offset_seconds n0 (snd z'))) ?z"
    by (rule sorted_wrt_mono_rel[rotated]) (use mono mem in blast)
  then have "sorted_wrt float_le (map fst points)"
    unfolding points by (simp add: sorted_wrt_map case_prod_unfold)
  moreover have "offset_seconds n0 n0 = Fin 0" by (simp add: offset_seconds_def)
  then have "list_all (\<lambda>x. float_le (Fin 0) x) (map fst points)"
    unfolding points list_all_iff using mem mono[of n0] bound by force
  ultimately show ?thesis using points by blast
qed

section \<open>Figures of plot.py\<close>

lemma metric_series_length: "metric_series columns data m = Inr pts \<Longrightarrow> length pts = length data"
  unfolding metric_series_def by (auto split: if_splits dest: map_result_length)

text \<open>\<open>plot.py\<close>: asked for metrics, \<open>main\<close> draws exactly when
  every one of them is a column; the figure then has one series per metric in
  the order asked for, each with a point per row, and is written to the output
  path exactly when a nonempty one was given; if one is missing nothing is
  drawn and the result is false.\<close>

lemma plot_main_draws:
  assumes "metrics \<noteq> []" "plot_main columns data False metrics output = Ok r"
  shows "if \<forall>m \<in> set metrics. m \<in> set columns
    then \<exists>fig. r = Plotted True (Some fig)
      \<and> list_all2 (\<lambda>m s. metric_series columns data m = Ok (snd s) \<and> length (snd s) = length data) metrics (fig_series fig)
      \<and> (fig_output fig = None \<longleftrightarrow> output = None \<or> output = Some [])
    else r = Plotted False None"
proof -
  have out: "output_path output = None \<longleftrightarrow> output = None \<or> output = Some []"
    by (auto simp: output_path_def split: option.splits)
  consider (one) m where "metrics = [m]" | (more) "length metrics \<noteq> 1"
    by (cases metrics; cases "tl metrics") auto
  then show ?thesis
  proof cases
    case one
    then show ?thesis
      using assms(2) out metric_series_length[of columns data m]
      by (auto simp: plot_main_def plot_metric_def and_then_eq_Ok)
  next
    case more
    then have r: "and_then (plot_multiple_metrics columns data metrics None output) (\<lambda>(b, f). Ok (Plotted b f)) = Ok r"
      using assms by (simp add: plot_main_def)
    show ?thesis
    proof (cases "\<forall>m \<in> set metrics. m \<in> set columns")
      case False
      then show ?thesis using r by (auto simp: plot_multiple_metrics_def list_ex_iff)
    next
      case True
      then have "\<not> list_ex (\<lambda>m. m \<notin> set columns) metrics" by (simp add: list_ex_iff)
      then obtain series where s: "map_result (\<lambda>m. and_then (metric_series columns data m) (\<lambda>points. Ok (Some m, points))) metrics = Inr series"
          and fig: "r = Plotted True (Some \<lparr>fig_title = nonempty_or None ''Multiple Metrics over Time'',
             fig_series = series, fig_output = output_path output\<rparr>)"
        using r by (auto simp: plot_multiple_metrics_def and_then_eq_Ok)
      have "list_all2 (\<lambda>m s. metric_series columns data m = Ok (snd s) \<and> length (snd s) = length data) metrics series"
        using s unfolding map_result_Ok_iff
        by (rule list_all2_mono) (auto simp: and_then_eq_Ok dest: metric_series_length)
      then show ?thesis using True fig out by simp
    qed
  qed
qed

section \<open>Axes of plot-logs.py\<close>

text \<open>\<open>plot-logs.py\<close> never runs out of axes: whatever files exist and
  whatever arguments are given, it either exits because nothing was given, or
  draws the throughput and the socket statistics on consecutive axes below the
  number of subfigures. A jitter file is counted and never drawn, so its axes
  stay empty.\<close>

lemma plot_logs_axes:
  "case plot_logs path_exists args of
     Inl e \<Rightarrow> False
   | Inr None \<Rightarrow> n_subfig (auto_args path_exists args) = 0
   | Inr (Some (n, axes)) \<Rightarrow>
       n = n_subfig (auto_args path_exists args) \<and> 0 < n \<and> map fst axes = [0..<length axes] \<and> length axes \<le> n
       \<and> map snd axes = map the (filter truthy [a_throughput (auto_args path_exists args), a_ss (auto_args path_exists args)])
       \<and> (a_jitter (auto_args path_exists args) \<noteq> None \<longrightarrow> length axes < n)"
proof -
  define a where "a = auto_args path_exists args"
  have t: "truthy x \<Longrightarrow> x \<noteq> None" for x by (auto simp: truthy_def split: option.splits)
  show ?thesis unfolding plot_logs_def Let_def a_def[symmetric]
    using t[of "a_throughput a"] t[of "a_ss a"]
    by (cases "truthy (a_throughput a)"; cases "truthy (a_ss a)"; cases "a_throughput a"; cases "a_jitter a"; cases "a_ss a")
      (simp_all add: used_axes_def n_subfig_def)
qed

section \<open>Loss distributions\<close>

lemma round_even_close: "\<bar>x - of_int k\<bar> < 1 / 2 \<Longrightarrow> round_even x = k"
proof -
  assume a: "\<bar>x - of_int k\<bar> < 1 / 2"
  have "\<bar>of_int (round_even x) - x\<bar> \<le> 1 / 2" by (rule round_even_half)
  with a have "\<bar>rat_of_int (round_even x) - of_int k\<bar> < 1" by linarith
  then have "\<bar>of_int (round_even x - k)\<bar> < (1 :: rat)" by simp
  then show ?thesis by linarith
qed

lemma fl_close: "\<bar>x\<bar> < 2048 \<Longrightarrow> \<bar>fl x - x\<bar> \<le> 1 / 1000000000"
proof -
  assume "\<bar>x\<bar> < 2048"
  then have "\<bar>fl x - x\<bar> \<le> 2 powi (11 - 54)" by (intro fl_error_below) simp_all
  also have "(2 :: rat) powi (11 - 54) \<le> 1 / 1000000000" by (simp add: power_int_minus field_simps)
  finally show ?thesis .
qed

lemma mk_float_close:
  assumes "\<bar>x\<bar> < 2048"
  shows "mk_float x = Fin (fl x)" "\<bar>fl x - x\<bar> \<le> 1 / 1000000000"
proof -
  have "(2048 :: rat) \<le> 2 ^ 1023" by simp
  then show "mk_float x = Fin (fl x)" using assms by (intro mk_float_Fin) linarith
  show "\<bar>fl x - x\<bar> \<le> 1 / 1000000000" by (rule fl_close[OF assms])
qed

lemma loss_count:
  assumes "\<bar>p - q\<bar> \<le> 1 / 100000000" "0 \<le> q" "q \<le> 1" "\<bar>1249 * q - of_int k\<bar> \<le> 497 / 1000"
  shows "round_float (float_mul (Fin (of_int total_hos)) (Fin p)) = Ok k"
proof -
  have b: "\<bar>1249 * p\<bar> < 2048" "\<bar>1249 * p - of_int k\<bar> \<le> 498 / 1000"
    using assms by linarith+
  note m = mk_float_close[OF b(1)]
  have "\<bar>fl (1249 * p) - of_int k\<bar> < 1 / 2" using b(2) m(2) by linarith
  then show ?thesis using m(1) by (simp add: total_hos_def round_even_close)
qed

lemma loss_counts_close:
  assumes "0 \<le> a" "0 \<le> b" "0 \<le> z" "a + b + z \<le> 1"
    and "\<bar>1249 * z - of_int kz\<bar> \<le> 497 / 1000" "\<bar>1249 * a - of_int ka\<bar> \<le> 497 / 1000"
    and "\<bar>1249 * b - of_int kb\<bar> \<le> 497 / 1000" "\<bar>1249 * (1 - a - b - z) - of_int km\<bar> \<le> 497 / 1000"
  shows "loss_counts (mk_float a) (mk_float b) (mk_float z) = Ok [kz, ka, kb, km]"
proof -
  have small: "\<bar>a\<bar> < 2048" "\<bar>b\<bar> < 2048" "\<bar>z\<bar> < 2048" using assms(1-4) by auto
  note A = mk_float_close[OF small(1)] and B = mk_float_close[OF small(2)] and Z = mk_float_close[OF small(3)]
  have s1: "\<bar>1 - fl a\<bar> < 2048" using A(2) assms(1-4) by linarith
  note S1 = mk_float_close[OF s1]
  have s2: "\<bar>fl (1 - fl a) - fl b\<bar> < 2048" using A(2) B(2) S1(2) assms(1-4) by linarith
  note S2 = mk_float_close[OF s2]
  have s3: "\<bar>fl (fl (1 - fl a) - fl b) - fl z\<bar> < 2048"
    using A(2) B(2) S1(2) S2(2) Z(2) assms(1-4) by linarith
  note S3 = mk_float_close[OF s3]
  have more: "float_sub (float_sub (float_sub (Fin 1) (mk_float a)) (mk_float b)) (mk_float z)
      = Fin (fl (fl (fl (1 - fl a) - fl b) - fl z))"
    by (simp only: A(1) B(1) Z(1) float_sub_Fin S1(1) S2(1) S3(1))
  have close: "\<bar>fl (fl (fl (1 - fl a) - fl b) - fl z) - (1 - a - b - z)\<bar> \<le> 1 / 100000000"
    using A(2) B(2) Z(2) S1(2) S2(2) S3(2) by linarith
  have close1: "\<bar>x - y\<bar> \<le> 1 / 1000000000 \<Longrightarrow> \<bar>x - y\<bar> \<le> 1 / 100000000" for x y :: rat by linarith
  have ub: "a \<le> 1" "b \<le> 1" "z \<le> 1" "0 \<le> 1 - a - b - z" "1 - a - b - z \<le> 1" using assms(1-4) by linarith+
  show ?thesis
    unfolding loss_counts_def Let_def more unfolding A(1) B(1) Z(1) map_result.simps
      loss_count[OF close1[OF Z(2)] assms(3) ub(3) assms(5)] loss_count[OF close1[OF A(2)] assms(1) ub(1) assms(6)]
      loss_count[OF close1[OF B(2)] assms(2) ub(2) assms(7)] loss_count[OF close ub(4,5) assms(8)]
    by simp
qed

text \<open>The counts of the five variants: for CUBIC and HighSpeed they add up to
  1248, one less than the number of handovers.\<close>

lemma loss_counts_values:
  "map_result (\<lambda>(algo, ones, twos, zeros). loss_counts ones twos zeros) loss_params
   = Ok [[1215, 22, 7, 4], [1224, 14, 10, 1], [1199, 31, 12, 6], [1174, 29, 37, 9], [1212, 25, 6, 6]]"
proof -
  have "loss_counts (mk_float (18 / 1000)) (mk_float (6 / 1000)) (mk_float (973 / 1000)) = Ok [1215, 22, 7, 4]"
    "loss_counts (mk_float (11 / 1000)) (mk_float (8 / 1000)) (mk_float (98 / 100)) = Ok [1224, 14, 10, 1]"
    "loss_counts (mk_float (25 / 1000)) (mk_float (1 / 100)) (mk_float (96 / 100)) = Ok [1199, 31, 12, 6]"
    "loss_counts (mk_float (23 / 1000)) (mk_float (3 / 100)) (mk_float (94 / 100)) = Ok [1174, 29, 37, 9]"
    "loss_counts (mk_float (2 / 100)) (mk_float (5 / 1000)) (mk_float (97 / 100)) = Ok [1212, 25, 6, 6]"
    by (rule loss_counts_close; simp add: abs_if)+
  then show ?thesis unfolding loss_params_def by (simp only: map_result.simps prod.case and_then_simps)
qed

lemma cumsum_props:
  assumes "\<forall>x \<in> set d. 0 \<le> x"
  shows "length (cumsum s d) = length d" "sorted (cumsum s d)" "\<forall>c \<in> set (cumsum s d). s \<le> c \<and> c \<le> s + sum_list d"
    and "d \<noteq> [] \<Longrightarrow> last (cumsum s d) = s + sum_list d"
proof -
  show "length (cumsum s d) = length d" by (induction d arbitrary: s) auto
  have nn: "0 \<le> sum_list d" using assms by (intro sum_list_nonneg) auto
  show b: "\<forall>c \<in> set (cumsum s d). s \<le> c \<and> c \<le> s + sum_list d"
    using assms
  proof (induction d arbitrary: s)
    case (Cons x d)
    have "0 \<le> sum_list d" using Cons.prems by (intro sum_list_nonneg) auto
    then show ?case using Cons.IH[of "s + x"] Cons.prems by fastforce
  qed simp
  show "d \<noteq> [] \<Longrightarrow> last (cumsum s d) = s + sum_list d"
  proof (induction d arbitrary: s)
    case (Cons x d)
    have "cumsum (s + x) d = [] \<longleftrightarrow> d = []" by (cases d) auto
    then show ?case using Cons.IH[of "s + x"] by auto
  qed simp
  show "sorted (cumsum s d)"
    using assms
  proof (induction d arbitrary: s)
    case (Cons x d)
    have "c \<ge> s + x" if "c \<in> set (cumsum (s + x) d)" for c
      using that Cons.prems
    proof (induction d arbitrary: s x)
      case (Cons y d)
      then show ?case by fastforce
    qed simp
    then show ?case using Cons by auto
  qed simp
qed

definition is_cdf :: "pyfloat list \<Rightarrow> bool" where
  "is_cdf ys \<longleftrightarrow> ys \<noteq> [] \<and> sorted_wrt float_le ys \<and> last ys = Fin 1
     \<and> list_all (\<lambda>y. float_le (Fin 0) y \<and> float_le y (Fin 1)) ys"

lemma loss_cdf_is_cdf:
  assumes "list_all (\<lambda>x. 0 \<le> x) d" "0 < sum_list d"
  shows "is_cdf (loss_cdf d)"
proof -
  have nn: "\<forall>x \<in> set d. 0 \<le> x" and ne: "d \<noteq> []" using assms by (auto simp: list_all_iff)
  note c = cumsum_props[OF nn, of 0]
  let ?q = "\<lambda>c. rat_of_int c / of_int (sum_list d)"
  have q: "0 \<le> ?q c" "?q c \<le> 1" if "c \<in> set (cumsum 0 d)" for c
    using c(3) that assms(2) by (auto simp: divide_le_eq_1)
  have one: "is_double 1" using is_double_int[of 1] by simp
  have mk: "mk_float (?q c) = Fin (fl (?q c))" "0 \<le> fl (?q c)" "fl (?q c) \<le> 1" if "c \<in> set (cumsum 0 d)" for c
  proof -
    have "(1 :: rat) \<le> 2 ^ 1023" by simp
    then show "mk_float (?q c) = Fin (fl (?q c))" using q[OF that] by (intro mk_float_Fin) linarith
    show "0 \<le> fl (?q c)" using q[OF that] by (intro double.rnd_nonneg)
    show "fl (?q c) \<le> 1" using q[OF that] by (intro double.rnd_le_repr[OF one])
  qed
  have "sorted_wrt float_le (loss_cdf d)"
    unfolding loss_cdf_def sorted_wrt_map
  proof (rule sorted_wrt_mono_rel[OF _ c(2)])
    fix x y assume xy: "x \<in> set (cumsum 0 d)" "y \<in> set (cumsum 0 d)" "x \<le> y"
    then have "?q x \<le> ?q y" using assms(2) by (intro divide_right_mono) auto
    then show "float_le (mk_float (?q x)) (mk_float (?q y))"
      unfolding mk(1)[OF xy(1)] mk(1)[OF xy(2)] float_le_Fin by (rule fl_mono)
  qed
  moreover have "cumsum 0 d \<noteq> []" using ne by (cases d) auto
  then have "last (loss_cdf d) = Fin 1" "loss_cdf d \<noteq> []"
    using c(4)[OF ne] assms(2) by (simp_all add: loss_cdf_def last_map)
  moreover have "list_all (\<lambda>y. float_le (Fin 0) y \<and> float_le y (Fin 1)) (loss_cdf d)"
    unfolding loss_cdf_def list_all_iff using mk by auto
  ultimately show ?thesis unfolding is_cdf_def by blast
qed

text \<open>The loss distributions: for every one of the five congestion
  controls the script computes four shares that form a distribution: between
  0 and 1, never decreasing, the last exactly 1.\<close>

lemma loss_cdfs_distributions:
  "\<exists>cdfs. loss_cdfs = Ok cdfs \<and> length cdfs = 5 \<and> list_all (\<lambda>ys. length ys = 4 \<and> is_cdf ys) cdfs"
proof -
  let ?ds = "[[1215, 22, 7, 4], [1224, 14, 10, 1], [1199, 31, 12, 6], [1174, 29, 37, 9], [1212, 25, 6, 6]] :: int list list"
  have "loss_cdfs = Ok (map loss_cdf ?ds)"
    using loss_counts_values unfolding loss_cdfs_def map_result_Ok_iff
    by (auto simp: loss_params_def list_all2_Cons1)
  moreover have "list_all (\<lambda>ys. length ys = 4 \<and> is_cdf ys) (map loss_cdf ?ds)"
    by (simp add: loss_cdf_is_cdf) (simp add: loss_cdf_def)
  ultimately show ?thesis by (intro exI[of _ "map loss_cdf ?ds"]) simp
qed

text \<open>Each algorithm's curve is drawn under its own name, in its own colour and style.\<close>

lemma loss_figure_curves:
  "\<exists>curves. loss_figure = Ok curves \<and> map lc_label curves = map fst loss_params \<and>
     distinct (map lc_color curves) \<and> distinct (map lc_style curves) \<and>
     list_all (\<lambda>c. map fst (lc_points c) = [0, 1, 2, 3] \<and> is_cdf (map snd (lc_points c))) curves"
proof -
  obtain cdfs where c: "loss_cdfs = Ok cdfs" "length cdfs = 5" "list_all (\<lambda>ys. length ys = 4 \<and> is_cdf ys) cdfs"
    using loss_cdfs_distributions by blast
  then obtain a b d e f where abs: "cdfs = [a, b, d, e, f]"
    by (auto simp: numeral_eq_Suc length_Suc_conv)
  have four: "map fst (zip [0..<4] ys) = [0, 1, 2, 3] \<and> map snd (zip [0..<4] ys) = ys" if "length ys = 4" for ys :: "pyfloat list"
    using that by (simp add: upt_rec)
  show ?thesis
    using c(3) four unfolding loss_figure_def c(1) abs
    by (simp add: upt_rec draw_curve_def py_index_def colors_def line_styles_def algos_def loss_params_def nth_Cons')
qed

end
