(* ===== verification/Arg_Parse.thy ===== *)
theory Arg_Parse
  imports Plot_Tools
begin

text \<open>
  Command lines of the scripts: \<open>argparse\<close> of the Python library, acts far acts the
  scripts use it. A parser is data: the positional arguments, each taking one string, and
  the options with their names, the number of strings they take, the conversion and the
  default. \<open>parse_args\<close> classifies the strings of a command line (exact names,
  \<open>--name=value\<close>, unique prefixes of long names, joined short options, negative
  numbers, \<open>--\<close>) and then consumes them from left to right. Every error ends the
  program with status 2, \<open>-h\<close> with status 0; messages are not modelled.

  Below the parser each script has its own parser acts a definition, with the lines of its
  \<open>add_argument\<close> calls.
\<close>

section \<open>Parsers\<close>

datatype arg_conv = Str_arg | Float_arg | Int_arg | Time_arg

datatype arg_count = Show_help | Flag | One | At_least_one | Exactly nat

datatype arg_value =
    Arg_none
  | Arg_text string
  | Arg_float pyfloat
  | Arg_int int
  | Arg_bool bool
  | Arg_list "arg_value list"

record option_spec =
  opt_names :: "string list"
  opt_dest :: string
  opt_count :: arg_count
  opt_conv :: arg_conv
  opt_default :: arg_value

record parser_spec =
  positionals :: "(string \<times> arg_conv) list"
  opts :: "option_spec list"

type_synonym namespace = "string \<rightharpoonup> arg_value"

datatype parse_exit = Usage_error | Help_shown

text \<open>\<open>add_argument\<close> for an option that takes one string, the default of a missing one
  being \<open>None\<close>.\<close>

definition one_option :: "string list \<Rightarrow> string \<Rightarrow> arg_conv \<Rightarrow> option_spec" where
  "one_option names dest conv = \<lparr>opt_names = names, opt_dest = dest, opt_count = One,
     opt_conv = conv, opt_default = Arg_none\<rparr>"

definition flag_option :: "string list \<Rightarrow> string \<Rightarrow> option_spec" where
  "flag_option names dest = \<lparr>opt_names = names, opt_dest = dest, opt_count = Flag,
     opt_conv = Str_arg, opt_default = Arg_bool False\<rparr>"

definition help_option :: option_spec where
  "help_option = \<lparr>opt_names = [''-h'', ''--help''], opt_dest = ''help'', opt_count = Show_help,
     opt_conv = Str_arg, opt_default = Arg_none\<rparr>"

definition all_options :: "parser_spec \<Rightarrow> option_spec list" where
  "all_options spec = help_option # opts spec"

section \<open>Classifying the strings\<close>

datatype arg_class =
    Plain
  | Opt option_spec string "string option"
  | Unknown_option
  | Ambiguous
  | Dashes

definition find_option :: "option_spec list \<Rightarrow> string \<Rightarrow> option_spec option" where
  "find_option os name = find (\<lambda>opt. name \<in> set (opt_names opt)) os"

text \<open>The text before and after the first \<open>=\<close>.\<close>

definition split_eq :: "string \<Rightarrow> (string \<times> string) option" where
  "split_eq s =
     (if CHR ''='' \<in> set s
      then Some (takeWhile (\<lambda>c. c \<noteq> CHR ''='') s, tl (dropWhile (\<lambda>c. c \<noteq> CHR ''='') s))
      else None)"

text \<open>The options a string can stand for when it is not an exact name.\<close>

definition option_matches :: "option_spec list \<Rightarrow> string \<Rightarrow> arg_class list" where
  "option_matches os s =
     (let names = concat (map (\<lambda>opt. map (\<lambda>n. (opt, n)) (opt_names opt)) os)
      in if starts_with ''--'' s
         then (case split_eq s of
                 Some (before, after) \<Rightarrow>
                   [Opt opt n (Some after). (opt, n) \<leftarrow> names, starts_with before n]
               | None \<Rightarrow> [Opt opt n None. (opt, n) \<leftarrow> names, starts_with s n])
         else concat (map (\<lambda>(opt, n).
                if n = take 2 s then [Opt opt n (Some (drop 2 s))]
                else if starts_with s n then [Opt opt n None] else []) names))"

text \<open>\<open>^-\d+$|^-\d*\.\d+$\<close>\<close>

definition looks_negative :: "string \<Rightarrow> bool" where
  "looks_negative s =
     (case s of
        [] \<Rightarrow> False
      | c # t \<Rightarrow> c = CHR ''-'' \<and>
          (let ip = takeWhile is_dec t; r = dropWhile is_dec t
           in (ip \<noteq> [] \<and> r = []) \<or>
              (r \<noteq> [] \<and> hd r = CHR ''.'' \<and> tl r \<noteq> [] \<and> list_all is_dec (tl r))))"

definition classify :: "option_spec list \<Rightarrow> string \<Rightarrow> arg_class" where
  "classify os s =
     (if s = [] \<or> hd s \<noteq> CHR ''-'' then Plain
      else case find_option os s of
        Some opt \<Rightarrow> Opt opt s None
      | None \<Rightarrow>
          if length s = 1 then Plain
          else case (case split_eq s of
                       Some (before, after) \<Rightarrow>
                         map_option (\<lambda>opt. Opt opt before (Some after)) (find_option os before)
                     | None \<Rightarrow> None) of
            Some c \<Rightarrow> c
          | None \<Rightarrow>
              (case option_matches os s of
                 [c] \<Rightarrow> c
               | c # d # cs \<Rightarrow> Ambiguous
               | [] \<Rightarrow> if looks_negative s \<or> CHR '' '' \<in> set s then Plain else Unknown_option))"

fun classify_all :: "option_spec list \<Rightarrow> string list \<Rightarrow> (string \<times> arg_class) list" where
  "classify_all os [] = []"
| "classify_all os (s # ss) =
     (if s = ''--'' then (s, Dashes) # map (\<lambda>t. (t, Plain)) ss
      else (s, classify os s) # classify_all os ss)"

section \<open>Consuming them\<close>

definition convert :: "arg_conv \<Rightarrow> string \<Rightarrow> arg_value option" where
  "convert conv s =
     (case conv of
        Str_arg \<Rightarrow> Some (Arg_text s)
      | Float_arg \<Rightarrow> (case py_float s of Inr x \<Rightarrow> Some (Arg_float x) | Inl _ \<Rightarrow> None)
      | Int_arg \<Rightarrow> (case py_int s of Inr n \<Rightarrow> Some (Arg_int n) | Inl _ \<Rightarrow> None)
      | Time_arg \<Rightarrow> (case parse_time (Some s) of
                      Inr (Some x) \<Rightarrow> Some (Arg_float x) | Inr None \<Rightarrow> Some Arg_none | Inl _ \<Rightarrow> None))"

definition convert_all :: "arg_conv \<Rightarrow> string list \<Rightarrow> arg_value option" where
  "convert_all conv ss =
     (let vs = map (convert conv) ss in if None \<in> set vs then None else Some (Arg_list (map the vs)))"

text \<open>How many of the strings that follow an option it takes: \<open>None\<close> if there are
  too few.\<close>

definition leading_plain :: "(string \<times> arg_class) list \<Rightarrow> nat" where
  "leading_plain cs = length (takeWhile (\<lambda>(s, c). c = Plain) cs)"

definition take_count :: "arg_count \<Rightarrow> nat \<Rightarrow> nat option" where
  "take_count k available =
     (case k of
        One \<Rightarrow> if 1 \<le> available then Some 1 else None
      | At_least_one \<Rightarrow> if 1 \<le> available then Some available else None
      | Exactly n \<Rightarrow> if n \<le> available then Some n else None
      | _ \<Rightarrow> Some 0)"

definition store :: "option_spec \<Rightarrow> string list \<Rightarrow> namespace \<Rightarrow> namespace option" where
  "store opt ss ns =
     (case opt_count opt of
        One \<Rightarrow> map_option (\<lambda>v. ns(opt_dest opt \<mapsto> v)) (convert (opt_conv opt) (hd ss))
      | Flag \<Rightarrow> Some (ns(opt_dest opt \<mapsto> Arg_bool True))
      | _ \<Rightarrow> map_option (\<lambda>v. ns(opt_dest opt \<mapsto> v)) (convert_all (opt_conv opt) ss))"

text \<open>The actions of the options found, in order; an option with the strings it takes.\<close>

fun run_actions :: "(option_spec \<times> string list) list \<Rightarrow> namespace \<Rightarrow> parse_exit + namespace" where
  "run_actions [] ns = Inr ns"
| "run_actions ((opt, ss) # acts) ns =
     (if opt_count opt = Show_help then Inl Help_shown
      else case store opt ss ns of None \<Rightarrow> Inl Usage_error | Some ns \<Rightarrow> run_actions acts ns)"

text \<open>An option with a value attached, \<open>--name=value\<close> or \<open>-nvalue\<close>; the
  characters after a short option without a value are more short options. The result is what
  is complete, and the final option if it takes the strings that follow.\<close>

fun cluster :: "option_spec list \<Rightarrow> option_spec \<Rightarrow> string \<Rightarrow> string \<Rightarrow>
    ((option_spec \<times> string list) list \<times> option_spec option) option" where
  "cluster os opt name value =
     (case opt_count opt of
        Exactly n \<Rightarrow> None
      | One \<Rightarrow> Some ([(opt, [value])], None)
      | At_least_one \<Rightarrow> Some ([(opt, [value])], None)
      | _ \<Rightarrow>
          (if starts_with ''--'' name then None
           else case value of
             [] \<Rightarrow> None
           | c # rest \<Rightarrow>
               (case find_option os [CHR ''-'', c] of
                  None \<Rightarrow> None
                | Some after \<Rightarrow>
                    if rest = [] then Some ([(opt, [])], Some after)
                    else map_option (\<lambda>(acts, final). ((opt, []) # acts, final))
                           (cluster os after [CHR ''-'', c] rest))))"

text \<open>The actions of one option string and the number of strings after it that are
  used.\<close>

definition option_actions ::
  "option_spec list \<Rightarrow> option_spec \<Rightarrow> string \<Rightarrow> string option \<Rightarrow> (string \<times> arg_class) list \<Rightarrow>
   ((option_spec \<times> string list) list \<times> nat) option" where
  "option_actions os opt name attached cs =
     (case (case attached of None \<Rightarrow> Some ([], Some opt) | Some value \<Rightarrow> cluster os opt name value) of
        None \<Rightarrow> None
      | Some (acts, None) \<Rightarrow> Some (acts, 0)
      | Some (acts, Some opt) \<Rightarrow>
          map_option (\<lambda>n. (acts @ [(opt, map fst (take n cs))], n))
            (take_count (opt_count opt) (leading_plain cs)))"

function consume ::
  "option_spec list \<Rightarrow> (string \<times> arg_conv) list \<Rightarrow> (string \<times> arg_class) list \<Rightarrow> namespace \<Rightarrow> bool
   \<Rightarrow> parse_exit + namespace" where
  "consume os ps [] ns extras = (if ps \<noteq> [] \<or> extras then Inl Usage_error else Inr ns)"
| "consume os ps ((s, Plain) # cs) ns extras =
     (case ps of
        [] \<Rightarrow> consume os [] cs ns True
      | (dest, conv) # ps' \<Rightarrow>
          (case convert conv s of
             None \<Rightarrow> Inl Usage_error
           | Some v \<Rightarrow> consume os ps' cs (ns(dest \<mapsto> v)) extras))"
| "consume os ps ((s, Unknown_option) # cs) ns extras = consume os ps cs ns True"
| "consume os ps ((s, Dashes) # cs) ns extras = consume os ps cs ns extras"
| "consume os ps ((s, Ambiguous) # cs) ns extras = Inl Usage_error"
| "consume os ps ((s, Opt opt name attached) # cs) ns extras =
     (case option_actions os opt name attached cs of
        None \<Rightarrow> Inl Usage_error
      | Some (acts, n) \<Rightarrow>
          (case run_actions acts ns of
             Inl e \<Rightarrow> Inl e
           | Inr ns \<Rightarrow> consume os ps (drop n cs) ns extras))"
  by pat_completeness auto
termination
  by (relation "measure (\<lambda>(os, ps, cs, ns, extras). length cs)") auto

definition defaults :: "parser_spec \<Rightarrow> namespace" where
  "defaults spec = map_of (map (\<lambda>opt. (opt_dest opt, opt_default opt)) (opts spec))"

definition parse_args :: "parser_spec \<Rightarrow> string list \<Rightarrow> parse_exit + namespace" where
  "parse_args spec argv =
     (let cs = classify_all (all_options spec) argv
      in if Ambiguous \<in> set (map snd cs) then Inl Usage_error
         else consume (all_options spec) (positionals spec) cs (defaults spec) False)"

section \<open>Reading attributes\<close>

text \<open>The attributes \<open>args.name\<close> of each kind, and a script: its exit by the parser, or
  its main part.\<close>

definition text_arg :: "namespace \<Rightarrow> string \<Rightarrow> string option" where
  "text_arg ns dest = (case ns dest of Some (Arg_text s) \<Rightarrow> Some s | _ \<Rightarrow> None)"

definition str_arg :: "namespace \<Rightarrow> string \<Rightarrow> string" where
  "str_arg ns dest = (case ns dest of Some (Arg_text s) \<Rightarrow> s | _ \<Rightarrow> [])"

definition float_arg :: "namespace \<Rightarrow> string \<Rightarrow> pyfloat option" where
  "float_arg ns dest = (case ns dest of Some (Arg_float x) \<Rightarrow> Some x | _ \<Rightarrow> None)"

definition flag_arg :: "namespace \<Rightarrow> string \<Rightarrow> bool" where
  "flag_arg ns dest = (ns dest = Some (Arg_bool True))"

definition texts_arg :: "namespace \<Rightarrow> string \<Rightarrow> string list" where
  "texts_arg ns dest =
     (case ns dest of
        Some (Arg_list vs) \<Rightarrow> concat (map (\<lambda>v. case v of Arg_text s \<Rightarrow> [s] | _ \<Rightarrow> []) vs)
      | _ \<Rightarrow> [])"

definition run_script :: "parser_spec \<Rightarrow> (namespace \<Rightarrow> 'a) \<Rightarrow> string list \<Rightarrow> parse_exit + 'a" where
  "run_script spec main argv = map_sum id main (parse_args spec argv)"

section \<open>What a parser promises\<close>

text \<open>A string that is never taken for an option, and an option as it is given on a command
  line: one of its names, then the strings it takes.\<close>

definition plain_arg :: "string \<Rightarrow> bool" where
  "plain_arg s \<longleftrightarrow> s = [] \<or> hd s \<noteq> CHR ''-''"

type_synonym given = "option_spec \<times> string \<times> string list"

definition given_ok :: "parser_spec \<Rightarrow> given \<Rightarrow> bool" where
  "given_ok spec g \<longleftrightarrow> (case g of (opt, name, ss) \<Rightarrow>
     opt \<in> set (opts spec) \<and> name \<in> set (opt_names opt) \<and> list_all plain_arg ss \<and>
     take_count (opt_count opt) (length ss) = Some (length ss))"

definition command_line :: "string list \<Rightarrow> given list \<Rightarrow> string list" where
  "command_line ps gs = ps @ concat (map (\<lambda>(opt, name, ss). name # ss) gs)"

text \<open>What the positional arguments store.\<close>

fun store_positionals :: "(string \<times> arg_conv) list \<Rightarrow> string list \<Rightarrow> namespace \<Rightarrow> namespace option" where
  "store_positionals ((dest, conv) # ps) (s # ss) ns =
     (case convert conv s of None \<Rightarrow> None | Some v \<Rightarrow> store_positionals ps ss (ns(dest \<mapsto> v)))"
| "store_positionals [] [] ns = Some ns"
| "store_positionals _ _ ns = None"

text \<open>The values an option can leave in the namespace.\<close>

definition conv_value :: "arg_conv \<Rightarrow> arg_value \<Rightarrow> bool" where
  "conv_value conv v =
     (case conv of
        Str_arg \<Rightarrow> (case v of Arg_text _ \<Rightarrow> True | _ \<Rightarrow> False)
      | Float_arg \<Rightarrow> (case v of Arg_float _ \<Rightarrow> True | _ \<Rightarrow> False)
      | Int_arg \<Rightarrow> (case v of Arg_int _ \<Rightarrow> True | _ \<Rightarrow> False)
      | Time_arg \<Rightarrow> (case v of Arg_float _ \<Rightarrow> True | _ \<Rightarrow> False))"

definition option_value :: "option_spec \<Rightarrow> arg_value \<Rightarrow> bool" where
  "option_value opt v \<longleftrightarrow> v = opt_default opt \<or>
     (case opt_count opt of
        One \<Rightarrow> conv_value (opt_conv opt) v
      | Flag \<Rightarrow> v = Arg_bool True
      | Exactly n \<Rightarrow> (case v of Arg_list vs \<Rightarrow> length vs = n \<and> list_all (conv_value (opt_conv opt)) vs | _ \<Rightarrow> False)
      | At_least_one \<Rightarrow> (case v of Arg_list vs \<Rightarrow> vs \<noteq> [] \<and> list_all (conv_value (opt_conv opt)) vs | _ \<Rightarrow> False)
      | Show_help \<Rightarrow> False)"

definition options_typed :: "parser_spec \<Rightarrow> namespace \<Rightarrow> bool" where
  "options_typed spec ns \<longleftrightarrow>
     list_all (\<lambda>opt. case ns (opt_dest opt) of None \<Rightarrow> False | Some v \<Rightarrow> option_value opt v) (opts spec)"

definition positionals_typed :: "(string \<times> arg_conv) list \<Rightarrow> namespace \<Rightarrow> bool" where
  "positionals_typed ps ns \<longleftrightarrow>
     list_all (\<lambda>(dest, conv). case ns dest of None \<Rightarrow> False | Some v \<Rightarrow> conv_value conv v) ps"

text \<open>A parser is well formed if its names are distinct and start with a dash, and no two of
  its arguments share a destination.\<close>

definition spec_ok :: "parser_spec \<Rightarrow> bool" where
  "spec_ok spec \<longleftrightarrow>
     list_all (\<lambda>n. n \<noteq> [] \<and> hd n = CHR ''-'' \<and> n \<noteq> ''--'') (concat (map opt_names (all_options spec))) \<and>
     distinct (concat (map opt_names (all_options spec))) \<and>
     distinct (map fst (positionals spec) @ map opt_dest (opts spec)) \<and>
     list_all (\<lambda>opt. opt_count opt \<noteq> Show_help) (opts spec)"

lemma convert_value: "convert conv s = Some v \<Longrightarrow> conv_value conv v"
  by (cases conv) (auto simp: convert_def conv_value_def parse_time_def split: sum.splits option.splits)

lemma convert_all_value:
  "convert_all conv ss = Some v \<Longrightarrow> \<exists>vs. v = Arg_list vs \<and> length vs = length ss \<and> list_all (conv_value conv) vs"
  using convert_value by (force simp: convert_all_def Let_def list_all_iff image_iff split: if_splits)

lemma find_distinct:
  assumes "distinct (concat (map f xs))" and "x \<in> set xs" and "n \<in> set (f x)"
  shows "find (\<lambda>y. n \<in> set (f y)) xs = Some x"
  using assms by (induction xs) auto

lemma classify_plain: "plain_arg s \<Longrightarrow> classify os s = Plain"
  by (auto simp: plain_arg_def classify_def)

lemma plain_not_dashes: "plain_arg s \<Longrightarrow> s \<noteq> ''--''"
  by (auto simp: plain_arg_def)

lemma classify_all_plain:
  "list_all plain_arg ss \<Longrightarrow> classify_all os (ss @ rest) = map (\<lambda>s. (s, Plain)) ss @ classify_all os rest"
  by (induction ss) (auto simp: classify_plain plain_not_dashes)

lemma leading_plain_append:
  "(rest \<noteq> [] \<Longrightarrow> snd (hd rest) \<noteq> Plain) \<Longrightarrow> leading_plain (map (\<lambda>s. (s, Plain)) ss @ rest) = length ss"
  by (induction ss) (auto simp: leading_plain_def takeWhile_eq_Nil_iff)

text \<open>The actions of an option come with as many strings as it takes.\<close>

definition action_ok :: "option_spec list \<Rightarrow> option_spec \<times> string list \<Rightarrow> bool" where
  "action_ok os a \<longleftrightarrow> fst a \<in> set os \<and>
     (case opt_count (fst a) of
        Exactly n \<Rightarrow> length (snd a) = n
      | At_least_one \<Rightarrow> snd a \<noteq> []
      | _ \<Rightarrow> True)"

lemma find_option_in: "find_option os n = Some opt \<Longrightarrow> opt \<in> set os"
  by (auto simp: find_option_def find_Some_iff)

lemma cluster_ok:
  "cluster os opt name v = Some (acts, final) \<Longrightarrow> opt \<in> set os \<Longrightarrow>
     list_all (action_ok os) acts \<and> (\<forall>l. final = Some l \<longrightarrow> l \<in> set os)"
proof (induction os opt name v arbitrary: acts final rule: cluster.induct)
  case (1 os opt name v)
  then show ?case
    by (cases "opt_count opt")
      (auto simp: action_ok_def find_option_in split: if_splits list.splits option.splits)
qed

lemma option_actions_ok:
  assumes "option_actions os opt name attached cs = Some (acts, n)" and "opt \<in> set os"
  shows "list_all (action_ok os) acts"
proof -
  obtain acts' final where c: "(case attached of None \<Rightarrow> Some ([], Some opt) | Some value \<Rightarrow> cluster os opt name value) = Some (acts', final)"
    using assms(1) by (auto simp: option_actions_def split: option.splits)
  have ok: "list_all (action_ok os) acts'" "\<And>l. final = Some l \<Longrightarrow> l \<in> set os"
    using c assms(2) cluster_ok by (auto split: option.splits)
  show ?thesis
  proof (cases final)
    case None
    then show ?thesis using assms(1) c ok by (simp add: option_actions_def)
  next
    case (Some l)
    obtain m where m: "take_count (opt_count l) (leading_plain cs) = Some m"
      and acts: "acts = acts' @ [(l, map fst (take m cs))]"
      using assms(1) c Some by (auto simp: option_actions_def)
    have "leading_plain cs \<le> length cs" by (simp add: leading_plain_def length_takeWhile_le)
    then have "action_ok os (l, map fst (take m cs))"
      using ok(2) [OF Some] m
      by (cases "opt_count l") (auto simp: action_ok_def take_count_def split: if_splits)
    then show ?thesis using ok(1) acts by simp
  qed
qed

lemma option_matches_in:
  "Opt opt name attached \<in> set (option_matches os s) \<Longrightarrow> opt \<in> set os"
  by (auto simp: option_matches_def Let_def split: if_splits option.splits)

lemma classify_in: "classify os s = Opt opt name attached \<Longrightarrow> opt \<in> set os"
  using option_matches_in [of opt name attached os s]
  by (auto simp: classify_def find_option_in split: if_splits option.splits list.splits)

lemma classify_all_in:
  "(s, Opt opt name attached) \<in> set (classify_all os argv) \<Longrightarrow> opt \<in> set os"
  by (induction os argv rule: classify_all.induct) (auto split: if_splits dest: classify_in [OF sym])

text \<open>Options as they are given, classified.\<close>

definition classified :: "given list \<Rightarrow> (string \<times> arg_class) list" where
  "classified gs = concat (map (\<lambda>(opt, n, ss). (n, Opt opt n None) # map (\<lambda>s. (s, Plain)) ss) gs)"

lemma classified_head: "classified gs \<noteq> [] \<Longrightarrow> snd (hd (classified gs)) \<noteq> Plain"
  by (cases gs) (auto simp: classified_def)

section \<open>Well-formed parsers\<close>

locale cli =
  fixes spec :: parser_spec
  assumes spec_ok: "spec_ok spec"
begin

lemma find_name:
  assumes "opt \<in> set (opts spec)" and "n \<in> set (opt_names opt)"
  shows "find_option (all_options spec) n = Some opt"
  using find_distinct [of opt_names "all_options spec" opt n] spec_ok assms
  by (simp add: find_option_def spec_ok_def all_options_def)

lemma name_shape:
  assumes "opt \<in> set (opts spec)" and "n \<in> set (opt_names opt)"
  shows "n \<noteq> [] \<and> hd n = CHR ''-'' \<and> n \<noteq> ''--''"
  using spec_ok assms by (auto simp: spec_ok_def all_options_def list_all_iff)

lemma classify_name:
  assumes "opt \<in> set (opts spec)" and "n \<in> set (opt_names opt)"
  shows "classify (all_options spec) n = Opt opt n None"
  using find_name [OF assms] name_shape [OF assms] by (simp add: classify_def)

lemma classify_given:
  "list_all (given_ok spec) gs \<Longrightarrow>
     classify_all (all_options spec) (concat (map (\<lambda>(opt, n, ss). n # ss) gs)) = classified gs"
proof (induction gs)
  case (Cons g gs)
  obtain opt n ss where g: "g = (opt, n, ss)" by (cases g)
  with Cons show ?case
    using classify_name [of opt n] name_shape [of opt n] classify_all_plain [of ss "all_options spec"]
    by (auto simp: classified_def given_ok_def)
qed (simp add: classified_def)

lemma consume_given:
  "list_all (given_ok spec) gs \<Longrightarrow>
     consume (all_options spec) [] (classified gs) ns False = run_actions (map (\<lambda>(opt, n, ss). (opt, ss)) gs) ns"
proof (induction gs arbitrary: ns)
  case (Cons g gs)
  obtain opt n ss where g: "g = (opt, n, ss)" by (cases g)
  let ?cs = "map (\<lambda>s. (s, Plain)) ss @ classified gs"
  have "leading_plain ?cs = length ss" by (rule leading_plain_append) (rule classified_head)
  moreover have "opt_count opt \<noteq> Show_help" "take_count (opt_count opt) (length ss) = Some (length ss)"
    using Cons.prems g spec_ok by (auto simp: given_ok_def spec_ok_def list_all_iff)
  ultimately have "option_actions (all_options spec) opt n None ?cs = Some ([(opt, ss)], length ss)"
    by (simp add: option_actions_def comp_def)
  moreover have "classified (g # gs) = (n, Opt opt n None) # ?cs" by (simp add: classified_def g)
  ultimately show ?case using Cons by (simp add: g split: option.splits)
qed (simp add: classified_def)

lemma consume_positionals:
  "list_all plain_arg ss \<Longrightarrow> length ss = length ps \<Longrightarrow>
     consume os ps (map (\<lambda>s. (s, Plain)) ss @ rest) ns False =
       (case store_positionals ps ss ns of
          None \<Rightarrow> Inl Usage_error
        | Some ns' \<Rightarrow> consume os [] rest ns' False)"
  by (induction ps ss ns rule: store_positionals.induct) (auto split: option.splits)

text \<open>A command line of plain strings and options by their names stores the strings as they
  stand.\<close>

lemma parse_command_line:
  assumes "list_all plain_arg ss" and "length ss = length (positionals spec)" and "list_all (given_ok spec) gs"
  shows "parse_args spec (command_line ss gs) =
    (case store_positionals (positionals spec) ss (defaults spec) of
       None \<Rightarrow> Inl Usage_error
     | Some ns \<Rightarrow> run_actions (map (\<lambda>(opt, n, ss). (opt, ss)) gs) ns)"
proof -
  have cs: "classify_all (all_options spec) (command_line ss gs) = map (\<lambda>s. (s, Plain)) ss @ classified gs"
    using assms by (simp add: command_line_def classify_all_plain classify_given)
  have "Ambiguous \<notin> snd ` set (classified gs)" by (auto simp: classified_def)
  then show ?thesis
    using assms consume_positionals [OF assms(1,2)] consume_given
    by (auto simp: parse_args_def cs Let_def split: option.splits)
qed

text \<open>Without options, any other number of strings is an error.\<close>

lemma consume_wrong_number:
  "length ss \<noteq> length ps \<or> extras \<Longrightarrow> consume os ps (map (\<lambda>s. (s, Plain)) ss) ns extras = Inl Usage_error"
  by (induction ss arbitrary: ps ns extras) (auto split: list.splits option.splits)

lemma parse_wrong_number:
  assumes "list_all plain_arg ss" and "length ss \<noteq> length (positionals spec)"
  shows "parse_args spec ss = Inl Usage_error"
proof -
  have "classify_all (all_options spec) ss = map (\<lambda>s. (s, Plain)) ss"
    using classify_all_plain [OF assms(1), of _ "[]"] by simp
  then show ?thesis using consume_wrong_number assms(2) by (simp add: parse_args_def Let_def)
qed

text \<open>A namespace that \<open>parse_args\<close> returns has every attribute the script reads, with a
  value of its type.\<close>

lemma dest_inj:
  "opt \<in> set (opts spec) \<Longrightarrow> opt' \<in> set (opts spec) \<Longrightarrow> opt_dest opt = opt_dest opt' \<Longrightarrow> opt = opt'"
  using spec_ok by (auto simp: spec_ok_def distinct_map dest: inj_onD)

lemma update_option_typed:
  assumes "options_typed spec ns" and "opt \<in> set (opts spec)" and "option_value opt v"
  shows "options_typed spec (ns(opt_dest opt \<mapsto> v))"
  using assms dest_inj [OF _ assms(2)] by (auto simp: options_typed_def list_all_iff)

lemma update_option_positionals:
  assumes "positionals_typed ps ns" and "opt \<in> set (opts spec)" and "set ps \<subseteq> set (positionals spec)"
  shows "positionals_typed ps (ns(opt_dest opt \<mapsto> v))"
proof -
  have "opt_dest opt \<notin> fst ` set ps"
    using spec_ok assms(2,3) by (auto simp: spec_ok_def)
  then show ?thesis using assms(1) by (force simp: positionals_typed_def list_all_iff)
qed

lemma store_typed:
  assumes "store opt ss ns = Some ns'" and "action_ok os (opt, ss)" and "opt \<in> set (opts spec)"
  shows "\<exists>v. ns' = ns(opt_dest opt \<mapsto> v) \<and> option_value opt v"
proof (cases "opt_count opt")
  case Show_help
  then show ?thesis using spec_ok assms(3) by (auto simp: spec_ok_def list_all_iff)
qed (use assms convert_value convert_all_value in
    \<open>fastforce simp: store_def action_ok_def option_value_def\<close>)+

lemma run_actions_typed:
  "run_actions acts ns = Inr ns' \<Longrightarrow> list_all (action_ok (all_options spec)) acts \<Longrightarrow>
     options_typed spec ns \<Longrightarrow> positionals_typed ps ns \<Longrightarrow> set ps \<subseteq> set (positionals spec) \<Longrightarrow>
     options_typed spec ns' \<and> positionals_typed ps ns'"
proof (induction acts ns rule: run_actions.induct)
  case (2 opt ss acts ns)
  then have h: "opt_count opt \<noteq> Show_help" by auto
  with 2 obtain ns1 where st: "store opt ss ns = Some ns1" and run: "run_actions acts ns1 = Inr ns'"
    by (auto split: option.splits)
  have opt: "opt \<in> set (opts spec)"
    using 2 h by (auto simp: action_ok_def all_options_def help_option_def)
  then obtain v where "ns1 = ns(opt_dest opt \<mapsto> v)" "option_value opt v"
    using store_typed [OF st] 2 by auto
  then show ?case
    using 2 h st run update_option_typed [OF _ opt] update_option_positionals [OF _ opt] by simp
qed simp

lemma update_positional_typed:
  assumes "positionals spec = dn @ (dest, conv) # ps" and "options_typed spec ns" and "positionals_typed dn ns"
    and "convert conv s = Some v"
  shows "options_typed spec (ns(dest \<mapsto> v))" "positionals_typed (dn @ [(dest, conv)]) (ns(dest \<mapsto> v))"
proof -
  have d: "\<forall>q \<in> set dn. fst q \<noteq> dest" "\<forall>opt \<in> set (opts spec). opt_dest opt \<noteq> dest"
    using spec_ok assms(1) by (auto simp: spec_ok_def)
  show "options_typed spec (ns(dest \<mapsto> v))"
    using assms(2) d(2) by (simp add: options_typed_def list_all_iff)
  show "positionals_typed (dn @ [(dest, conv)]) (ns(dest \<mapsto> v))"
    using assms(3) d(1) convert_value [OF assms(4)]
    by (simp add: positionals_typed_def list_all_iff case_prod_unfold)
qed

lemma consume_typed:
  "consume os ps cs ns extras = Inr ns' \<Longrightarrow> os = all_options spec \<Longrightarrow> positionals spec = dn @ ps \<Longrightarrow>
     (\<And>s opt name att. (s, Opt opt name att) \<in> set cs \<Longrightarrow> opt \<in> set os) \<Longrightarrow>
     options_typed spec ns \<Longrightarrow> positionals_typed dn ns \<Longrightarrow>
     options_typed spec ns' \<and> positionals_typed (positionals spec) ns'"
proof (induction os ps cs ns extras arbitrary: dn rule: consume.induct)
  case (2 os ps s cs ns extras)
  show ?case
  proof (cases ps)
    case Nil
    then show ?thesis using 2 by auto
  next
    case (Cons p ps')
    obtain dest conv where p: "p = (dest, conv)" by (cases p)
    obtain v where v: "convert conv s = Some v" and run: "consume os ps' cs (ns(dest \<mapsto> v)) extras = Inr ns'"
      using 2 Cons p by (auto split: option.splits)
    have "positionals spec = dn @ (dest, conv) # ps'" using "2.prems"(3) Cons p by simp
    from update_positional_typed [OF this "2.prems"(5,6) v]
    have ok: "options_typed spec (ns(dest \<mapsto> v))" "positionals_typed (dn @ [p]) (ns(dest \<mapsto> v))"
      by (simp_all add: p)
    have "positionals spec = (dn @ [p]) @ ps'" using "2.prems"(3) Cons by simp
    from "2.IH"(2) [OF Cons p [symmetric] v run "2.prems"(2) this _ ok] show ?thesis
      using "2.prems"(4) by (meson list.set_intros(2))
  qed
next
  case (6 os ps s opt name attached cs ns extras)
  then obtain acts n ns1 where a: "option_actions os opt name attached cs = Some (acts, n)"
    and r: "run_actions acts ns = Inr ns1" and c: "consume os ps (drop n cs) ns1 extras = Inr ns'"
    by (auto split: option.splits sum.splits)
  have "opt \<in> set os" using 6(5) by auto
  then have "options_typed spec ns1 \<and> positionals_typed dn ns1"
    using run_actions_typed [OF r] option_actions_ok [OF a] 6 by auto
  moreover have "opt' \<in> set os" if "(s', Opt opt' name' att) \<in> set (drop n cs)" for s' opt' name' att
    using 6(5) [of s' opt' name' att] that by (auto dest: in_set_dropD)
  ultimately show ?case using 6(1) [OF a _ r c] 6 by auto
qed (auto split: if_splits)

lemma defaults_typed: "options_typed spec (defaults spec)"
proof -
  have "defaults spec (opt_dest opt) = Some (opt_default opt)" if "opt \<in> set (opts spec)" for opt
    using spec_ok that
    by (auto simp: defaults_def spec_ok_def comp_def intro!: map_of_is_SomeI)
  then show ?thesis by (auto simp: options_typed_def list_all_iff option_value_def)
qed

lemma parse_args_typed:
  assumes "parse_args spec argv = Inr ns"
  shows "options_typed spec ns \<and> positionals_typed (positionals spec) ns"
proof -
  have "consume (all_options spec) (positionals spec) (classify_all (all_options spec) argv) (defaults spec) False = Inr ns"
    using assms by (auto simp: parse_args_def Let_def split: if_splits)
  from consume_typed [OF this refl, of "[]"] show ?thesis
    using defaults_typed classify_all_in by (auto simp: positionals_typed_def)
qed

end

end
