(* ===== verification/Trace_Tools.thy ===== *)
theory Trace_Tools
  imports PyStr
begin

text \<open>
  The scripts that read and rewrite replay traces: \<open>scripts/run/generate_input.py\<close>
  (appends the iperf3 and monitor commands to a trace), \<open>input/old_fix.py\<close>
  (numeric event ids to names, removal of a stale third line) and
  \<open>parse_trace\<close> of \<open>scripts/processing/metrics.py\<close> (handover times
  and target links of a trace). The files a script sees are a map from paths to
  contents; what it prints is a \<open>message\<close>; every \<open>except Exception\<close>
  is the \<open>Failed\<close> branch.
\<close>

type_synonym fs = "string \<rightharpoonup> string"

datatype message =
    Processed string string
  | Skipped string
  | Failed string py_error

definition comma :: char where
  "comma = CHR '',''"

declare comma_def [str_simps]

definition open_read :: "fs \<Rightarrow> string \<Rightarrow> string list result" where
  "open_read fs path =
     (case fs path of None \<Rightarrow> Raise FileNotFoundError | Some text \<Rightarrow> Ok (readlines text))"

text \<open>\<open>os.path.split\<close> of POSIX paths.\<close>

definition path_split :: "string \<Rightarrow> string \<times> string" where
  "path_split p =
     (let tail = rev (takeWhile (\<lambda>c. c \<noteq> CHR ''/'') (rev p));
          head = take (length p - length tail) p;
          trimmed = rev (dropWhile (\<lambda>c. c = CHR ''/'') (rev head))
      in (if trimmed = [] then head else trimmed, tail))"

section \<open>generate\_input.py\<close>

text \<open>The loop that reads the execution time off the first \<open>INIT\<close> line.\<close>

fun find_init :: "string list \<Rightarrow> int option result" where
  "find_init [] = Ok None"
| "find_init (line # lines) =
     (let tokens = split_on comma line
      in and_then (py_index tokens 1) (\<lambda>t.
           if t = ''INIT''
           then and_then (py_index tokens (- 1)) (\<lambda>l. and_then (py_int l) (\<lambda>n. Ok (Some n)))
           else find_init lines))"

text \<open>\<open>execution_time /= 1000; execution_time -= 5; int(execution_time)\<close>\<close>

definition exec_seconds :: "int \<Rightarrow> int result" where
  "exec_seconds n = and_then (int_truediv n 1000) (\<lambda>x. int_of_float (float_sub x (Fin 5)))"

definition terminate_last :: "string list \<Rightarrow> string list" where
  "terminate_last lines =
     (if last (last lines) \<noteq> newline then butlast lines @ [last lines @ [newline]] else lines)"

definition iperf_cmd :: "int \<Rightarrow> string \<Rightarrow> string" where
  "iperf_cmd t logname =
     ''2000,CMD,iperf3 -c 10.0.0.2 -p 5257 -t '' @ string_of_int t
       @ '' -i 0.1 -J --logfile '' @ logname @ '' &'' @ [newline]"

definition monitor_cmd :: "int \<Rightarrow> string \<Rightarrow> string" where
  "monitor_cmd t logname =
     ''1000,CMD,/data/ztliu/emulator-test/scripts/run/monitor.sh '' @ logname @ '' ''
       @ string_of_int t @ '' &'' @ [newline]"

text \<open>The branch of \<open>generate_trace\<close> for a trace of at least three lines:
  the lines of the output file.\<close>

definition generate_lines :: "string list \<Rightarrow> string list \<Rightarrow> string list result" where
  "generate_lines lines extras =
     and_then (find_init lines) (\<lambda>found.
       case found of
         None \<Rightarrow> Raise UnboundLocalError
       | Some n \<Rightarrow>
           and_then (exec_seconds n) (\<lambda>t.
           and_then (py_index extras 0) (\<lambda>log0.
           and_then (py_index extras 1) (\<lambda>log1.
             Ok (terminate_last lines @ [iperf_cmd t log0, monitor_cmd (t + 1) log1])))))"

definition generate_trace :: "fs \<Rightarrow> string \<Rightarrow> string \<Rightarrow> string list \<Rightarrow> fs \<times> message" where
  "generate_trace fs input_trace output_trace extras =
     (case open_read fs input_trace of
        Inl e \<Rightarrow> (fs, Failed input_trace e)
      | Inr lines \<Rightarrow>
          (if 3 \<le> length lines
           then (case generate_lines lines extras of
                   Inl e \<Rightarrow> (fs, Failed input_trace e)
                 | Inr out \<Rightarrow> (fs(output_trace \<mapsto> concat out), Processed input_trace output_trace))
           else (fs, Skipped input_trace)))"

text \<open>\<open>process_files\<close> calls \<open>generate_trace\<close> with two of its three
  arguments, so the call itself raises. The compiled pattern and
  \<open>os.path.isfile\<close> are parameters.\<close>

fun process_files ::
  "(string \<Rightarrow> bool) \<Rightarrow> (string \<Rightarrow> bool) \<Rightarrow> string \<Rightarrow> string list \<Rightarrow> unit result"
where
  "process_files matches isfile directory [] = Ok ()"
| "process_files matches isfile directory (filename # names) =
     (if matches filename \<and> isfile (path_join directory filename) then Raise TypeError
      else process_files matches isfile directory names)"

section \<open>old\_fix.py\<close>

definition cmd_mappings :: "string list" where
  "cmd_mappings =
     [''INIT'', ''CMD'', ''HO'', ''SOL_HANDLEDUP'', ''SOL_HANDLERW'', ''SOL_INIT_SCHED'',
      ''SOL_HO'', ''UNKNOWN'']"

definition write_comma :: "string \<Rightarrow> string \<Rightarrow> string" where
  "write_comma a b = a @ comma # b"

text \<open>\<open>functools.reduce\<close> of a nonempty list.\<close>

fun reduce_list :: "('a \<Rightarrow> 'a \<Rightarrow> 'a) \<Rightarrow> 'a list \<Rightarrow> 'a result" where
  "reduce_list f [] = Raise TypeError"
| "reduce_list f (x # xs) = Ok (foldl f x xs)"

definition mod_cmd_line :: "string \<Rightarrow> string result" where
  "mod_cmd_line line =
     (let tokens = split_on comma line
      in and_then (py_index tokens 1) (\<lambda>t.
         and_then (py_int t) (\<lambda>i.
         and_then (py_index cmd_mappings i) (\<lambda>name.
           reduce_list write_comma (tokens[1 := name])))))"

definition mod_cmd :: "fs \<Rightarrow> string \<Rightarrow> fs \<times> message" where
  "mod_cmd fs filepath =
     (case open_read fs filepath of
        Inl e \<Rightarrow> (fs, Failed filepath e)
      | Inr lines \<Rightarrow>
          (if 3 \<le> length lines
           then (case map_result mod_cmd_line lines of
                   Inl e \<Rightarrow> (fs, Failed filepath e)
                 | Inr newlines \<Rightarrow> (fs(filepath \<mapsto> concat newlines), Processed filepath filepath))
           else (fs, Skipped filepath)))"

definition ends_with :: "string \<Rightarrow> string \<Rightarrow> bool" where
  "ends_with p s = starts_with (rev p) (rev s)"

text \<open>\<open>re.sub(r"-c(\.csv)$", r"\1", name)\<close>; the dollar also matches before
  a final newline.\<close>

definition strip_c_suffix :: "string \<Rightarrow> string" where
  "strip_c_suffix name =
     (if ends_with ''-c.csv'' name then take (length name - 6) name @ ''.csv''
      else if ends_with (''-c.csv'' @ [newline]) name
      then take (length name - 7) name @ ''.csv'' @ [newline]
      else name)"

definition new_filepath :: "string \<Rightarrow> string" where
  "new_filepath filepath =
     (case path_split filepath of (dir_name, original_name) \<Rightarrow>
        path_join dir_name (strip_c_suffix original_name))"

definition write_to_new_file :: "fs \<Rightarrow> string \<Rightarrow> fs \<times> message" where
  "write_to_new_file fs filepath =
     (case open_read fs filepath of
        Inl e \<Rightarrow> (fs, Failed filepath e)
      | Inr lines \<Rightarrow>
          (if 3 \<le> length lines
           then (fs(new_filepath filepath \<mapsto> concat (take 2 lines @ drop 3 lines)),
                 Processed filepath (new_filepath filepath))
           else (fs, Skipped filepath)))"

text \<open>The paths \<open>process_files\<close> of \<open>old_fix.py\<close> prints.\<close>

definition list_matching :: "(string \<Rightarrow> bool) \<Rightarrow> (string \<Rightarrow> bool) \<Rightarrow> string \<Rightarrow> string list \<Rightarrow> string list" where
  "list_matching matches isfile directory names =
     filter isfile (map (path_join directory) (filter matches names))"

text \<open>The module level of \<open>old_fix.py\<close>: \<open>^.*trace-[0-9]+\.csv$\<close> matched in the
  current directory. A dot matches no line end, and the end may be before a last one.\<close>

definition trace_tail :: "string \<Rightarrow> bool" where
  "trace_tail t =
     (starts_with ''trace-'' t \<and>
      (let r = drop 6 t; e = dropWhile is_dec r
       in takeWhile is_dec r \<noteq> [] \<and> (e = ''.csv'' \<or> e = ''.csv'' @ [newline])))"

definition trace_file_name :: "string \<Rightarrow> bool" where
  "trace_file_name s = list_ex (\<lambda>k. newline \<notin> set (take k s) \<and> trace_tail (drop k s)) [0..<length s]"

definition old_fix_main :: "(string \<Rightarrow> bool) \<Rightarrow> string list \<Rightarrow> string list" where
  "old_fix_main isfile names = list_matching trace_file_name isfile ''.'' names"

section \<open>parse\_trace of metrics.py\<close>

text \<open>The loop over the lines: the two lists as they stand when it ends, and
  the exception that ended it, if one did.\<close>

fun parse_trace_lines ::
  "int \<Rightarrow> string list \<Rightarrow> pyfloat list \<Rightarrow> int list \<Rightarrow> pyfloat list \<times> int list \<times> py_error option"
where
  "parse_trace_lines offset [] ho_time target_link = (ho_time, target_link, None)"
| "parse_trace_lines offset (line # lines) ho_time target_link =
     (let tokens = split_on comma line
      in case py_index tokens 1 of
           Inl e \<Rightarrow> (ho_time, target_link, Some e)
         | Inr t \<Rightarrow>
             (if t = ''HO''
              then (case and_then (py_index tokens 0) (\<lambda>a.
                         and_then (py_int a) (\<lambda>ms.
                         and_then (int_truediv ms 1000) (\<lambda>x.
                         and_then (float_of_int offset) (\<lambda>off. Ok (float_sub x off))))) of
                      Inl e \<Rightarrow> (ho_time, target_link, Some e)
                    | Inr h \<Rightarrow>
                        (case and_then (py_index tokens 3) py_int of
                           Inl e \<Rightarrow> (ho_time @ [h], target_link, Some e)
                         | Inr l \<Rightarrow> parse_trace_lines offset lines (ho_time @ [h]) (target_link @ [l])))
              else parse_trace_lines offset lines ho_time target_link))"

definition parse_trace :: "fs \<Rightarrow> string \<Rightarrow> int \<Rightarrow> pyfloat list \<times> int list \<times> py_error option" where
  "parse_trace fs path offset =
     (case open_read fs path of
        Inl e \<Rightarrow> ([], [], Some e)
      | Inr lines \<Rightarrow> parse_trace_lines offset lines [] [])"

section \<open>The execution time of a generated trace\<close>

lemma fl_between_ints:
  assumes "of_int k \<le> x" "x \<le> of_int k + c" "\<bar>k\<bar> \<le> 2 ^ 32" "0 \<le> c" "c < 1"
  shows "of_int k \<le> fl x" and "fl x \<le> of_int k + c + 1 / 2 ^ 20"
proof -
  have "\<bar>rat_of_int k\<bar> \<le> 2 ^ 32" using assms(3) by simp
  then have "\<bar>x\<bar> < 2 powi 34" using assms(1,2,5) by auto
  then have "\<bar>fl x - x\<bar> \<le> 2 powi (34 - 54)" by (intro fl_error_below) auto
  also have "(2::rat) powi (34 - 54) = 1 / 2 ^ 20" by (simp add: power_int_def field_simps)
  finally show "fl x \<le> of_int k + c + 1 / 2 ^ 20" using assms(2) by linarith
  show "of_int k \<le> fl x"
    using assms(1,3) by (intro double.rnd_ge_repr is_double_int) auto
qed

lemma exec_seconds_div:
  assumes "5000 \<le> n" "n \<le> 2 ^ 40"
  shows "exec_seconds n = Inr (n div 1000 - 5)"
proof -
  define k where "k = n div 1000"
  define q where "q = rat_of_int n / 1000"
  have n: "n = 1000 * k + n mod 1000" by (simp add: k_def)
  then have "rat_of_int n = 1000 * of_int k + of_int (n mod 1000)"
    by (metis of_int_add of_int_mult of_int_numeral)
  moreover have "0 \<le> rat_of_int (n mod 1000)" "rat_of_int (n mod 1000) \<le> of_int 999"
    by (simp, subst of_int_le_iff, simp)
  ultimately have q: "of_int k \<le> q" "q \<le> of_int k + 999 / 1000" by (simp_all add: q_def)
  have k: "5 \<le> k" "k \<le> 2 ^ 32" using assms by (auto simp: k_def)
  then have "5 \<le> rat_of_int k" "rat_of_int k \<le> 2 ^ 32" by simp_all
  then have big: "\<bar>q\<bar> \<le> 2 ^ 33" using q by simp
  have r: "of_int k \<le> fl q" "fl q \<le> of_int k + 999 / 1000 + 1 / 2 ^ 20"
    using fl_between_ints[OF q] k by auto
  have s: "of_int (k - 5) \<le> fl (fl q - 5)"
    "fl (fl q - 5) \<le> of_int (k - 5) + (999 / 1000 + 1 / 2 ^ 20) + 1 / 2 ^ 20"
    using fl_between_ints[of "k - 5" "fl q - 5" "999 / 1000 + 1 / 2 ^ 20"] r k by auto
  have "(2::rat) ^ 33 \<le> 2 ^ 1023" by (rule power_increasing) auto
  then have "mk_float q = Fin (fl q)" using big by (intro mk_float_Fin) simp
  moreover have "\<bar>fl q - 5\<bar> \<le> 2 ^ 1023"
    using r \<open>5 \<le> rat_of_int k\<close> \<open>rat_of_int k \<le> 2 ^ 32\<close> \<open>(2::rat) ^ 33 \<le> 2 ^ 1023\<close> by simp
  then have "mk_float (fl q - 5) = Fin (fl (fl q - 5))" by (rule mk_float_Fin)
  moreover have "\<lfloor>fl (fl q - 5)\<rfloor> = k - 5" using s by (intro floor_unique) auto
  moreover have "0 \<le> fl (fl q - 5)" using s(1) k by (meson diff_ge_0_iff_ge of_int_nonneg order_trans)
  ultimately show ?thesis
    by (simp add: exec_seconds_def int_truediv_def float_sub_Fin trunc_rat_def k_def
          flip: q_def)
qed

section \<open>Lines of a file, and of a generated one\<close>

lemma split_lines_shape:
  "(\<forall>l \<in> set (butlast (split_lines s)). full_line l)
     \<and> (s \<noteq> [] \<longrightarrow> full_line (last (split_lines s)) \<or> newline \<notin> set (last (split_lines s)))"
proof (induction s)
  case Nil
  then show ?case by simp
next
  case (Cons c cs)
  have nl: "full_line [newline]" by (simp add: full_line_def)
  have ext: "full_line (x # l)" if l: "full_line l" and x: "x \<noteq> newline" for x l
  proof -
    obtain t where "l = t @ [newline]" "newline \<notin> set t" using l unfolding full_line_def by blast
    then have "x # l = (x # t) @ [newline] \<and> newline \<notin> set (x # t)" using x by simp
    then show ?thesis unfolding full_line_def by blast
  qed
  show ?case
  proof (cases "split_lines cs")
    case Nil
    moreover have "cs = []" using Nil concat_split_lines[of cs] by simp
    ultimately show ?thesis using nl by simp
  next
    case (Cons l ls)
    then have "cs \<noteq> []" by auto
    then show ?thesis using Cons.IH Cons nl ext by (auto split: if_splits)
  qed
qed

lemma readlines_no_cr: "l \<in> set (readlines c) \<Longrightarrow> CHR 0x0D \<notin> set l"
proof -
  assume "l \<in> set (readlines c)"
  then have "set l \<subseteq> set (concat (readlines c))" by auto
  then show ?thesis using universal_newlines_no_cr[of c] by (auto simp: readlines_def)
qed

lemma readlines_butlast_full: "l \<in> set (butlast (readlines c)) \<Longrightarrow> full_line l"
  using split_lines_shape[of "universal_newlines c"] by (simp add: readlines_def)

lemma readlines_last: "readlines c \<noteq> [] \<Longrightarrow>
    full_line (last (readlines c)) \<or> newline \<notin> set (last (readlines c))"
  using split_lines_shape[of "universal_newlines c"] by (auto simp: readlines_def)

lemma terminate_last_full:
  assumes "readlines c \<noteq> []" "l \<in> set (terminate_last (readlines c))"
  shows "full_line l \<and> CHR 0x0D \<notin> set l"
proof -
  let ?ls = "readlines c"
  have ended: "terminate_last ?ls = butlast ?ls
      @ [if last (last ?ls) \<noteq> newline then last ?ls @ [newline] else last ?ls]"
    using assms(1) by (simp add: terminate_last_def)
  have "full_line (if last (last ?ls) \<noteq> newline then last ?ls @ [newline] else last ?ls)"
  proof (cases "last (last ?ls) = newline")
    case True
    have "last ?ls \<noteq> []"
      using assms(1) last_in_set split_lines_nonempty unfolding readlines_def by blast
    then have "newline \<in> set (last ?ls)" using True last_in_set by fastforce
    then show ?thesis using readlines_last[OF assms(1)] True by simp
  next
    case False
    then have "\<not> full_line (last ?ls)" by (auto simp: full_line_def)
    then have "newline \<notin> set (last ?ls)" using readlines_last[OF assms(1)] by blast
    then show ?thesis using False unfolding full_line_def by auto
  qed
  moreover have "CHR 0x0D \<notin> set (last ?ls)" using assms(1) readlines_no_cr last_in_set by blast
  moreover have "l \<in> set (butlast ?ls) \<or> l = (if last (last ?ls) \<noteq> newline then last ?ls @ [newline] else last ?ls)"
    using assms(2) unfolding ended by auto
  ultimately show ?thesis
    using readlines_butlast_full readlines_no_cr in_set_butlastD[of l ?ls]
    by (auto split: if_splits)
qed

text \<open>A log name that can stand in a trace: no comma, no line end.\<close>

definition clean :: "string \<Rightarrow> bool" where
  "clean s \<longleftrightarrow> comma \<notin> set s \<and> newline \<notin> set s \<and> CHR 0x0D \<notin> set s"

lemma clean_simps [simp]:
  "clean []"
  "clean (c # s) \<longleftrightarrow> c \<noteq> comma \<and> c \<noteq> newline \<and> c \<noteq> CHR 0x0D \<and> clean s"
  "clean (s @ t) \<longleftrightarrow> clean s \<and> clean t"
  by (auto simp: clean_def)

lemma clean_string_of_int [simp]: "clean (string_of_int i)"
proof -
  have "c \<noteq> comma \<and> c \<noteq> newline \<and> c \<noteq> CHR 0x0D" if "c \<in> set (string_of_int i)" for c
    using string_of_int_chars[OF that] dec_not_special[of c]
    by (auto simp: comma_def newline_def)
  then show ?thesis unfolding clean_def by blast
qed

lemma clean_string_of_nat [simp]: "clean (string_of_nat n)"
  using clean_string_of_int[of "int n"] by (simp add: string_of_int_def)

lemma clean_line:
  assumes "clean s"
  shows "full_line (x @ s @ [newline]) \<longleftrightarrow> newline \<notin> set x"
  using assms by (auto simp: full_line_def clean_def)

text \<open>The commands as three fields.\<close>

lemma iperf_cmd_join:
  "iperf_cmd t a = join_with comma [''2000'', ''CMD'',
     ''iperf3 -c 10.0.0.2 -p 5257 -t '' @ string_of_int t @ '' -i 0.1 -J --logfile '' @ a
       @ '' &'' @ [newline]]"
  by (simp add: iperf_cmd_def comma_def)

lemma monitor_cmd_join:
  "monitor_cmd t a = join_with comma [''1000'', ''CMD'',
     ''/data/ztliu/emulator-test/scripts/run/monitor.sh '' @ a @ '' '' @ string_of_int t
       @ '' &'' @ [newline]]"
  by (simp add: monitor_cmd_def comma_def)

lemma command_fields:
  assumes "clean a"
  shows "split_on comma (iperf_cmd t a) = [''2000'', ''CMD'',
     ''iperf3 -c 10.0.0.2 -p 5257 -t '' @ string_of_int t @ '' -i 0.1 -J --logfile '' @ a
       @ '' &'' @ [newline]]"
    and "split_on comma (monitor_cmd t a) = [''1000'', ''CMD'',
     ''/data/ztliu/emulator-test/scripts/run/monitor.sh '' @ a @ '' '' @ string_of_int t
       @ '' &'' @ [newline]]"
proof -
  have t: "comma \<notin> set (string_of_int t)" "comma \<notin> set a"
    using assms clean_string_of_int[of t] by (simp_all add: clean_def)
  show "split_on comma (iperf_cmd t a) = [''2000'', ''CMD'',
     ''iperf3 -c 10.0.0.2 -p 5257 -t '' @ string_of_int t @ '' -i 0.1 -J --logfile '' @ a
       @ '' &'' @ [newline]]"
    unfolding iperf_cmd_join using t
    by (intro split_join) (simp_all add: comma_def newline_def)
  show "split_on comma (monitor_cmd t a) = [''1000'', ''CMD'',
     ''/data/ztliu/emulator-test/scripts/run/monitor.sh '' @ a @ '' '' @ string_of_int t
       @ '' &'' @ [newline]]"
    unfolding monitor_cmd_join using t
    by (intro split_join) (simp_all add: comma_def newline_def)
qed

lemma command_full_lines:
  assumes "clean a"
  shows "full_line (iperf_cmd t a) \<and> CHR 0x0D \<notin> set (iperf_cmd t a)"
    and "full_line (monitor_cmd t a) \<and> CHR 0x0D \<notin> set (monitor_cmd t a)"
proof -
  have t: "newline \<notin> set (string_of_int t)" "newline \<notin> set a"
    "CHR 0x0D \<notin> set (string_of_int t)" "CHR 0x0D \<notin> set a"
    using assms clean_string_of_int[of t] by (simp_all add: clean_def)
  have line: "full_line (s @ [newline])" if "newline \<notin> set s" for s
    using that unfolding full_line_def by blast
  show "full_line (iperf_cmd t a) \<and> CHR 0x0D \<notin> set (iperf_cmd t a)"
    using line[of "butlast (iperf_cmd t a)"] t
    by (simp add: iperf_cmd_def butlast_append newline_def)
  show "full_line (monitor_cmd t a) \<and> CHR 0x0D \<notin> set (monitor_cmd t a)"
    using line[of "butlast (monitor_cmd t a)"] t
    by (simp add: monitor_cmd_def butlast_append newline_def)
qed

lemma generate_lines_Ok:
  assumes "find_init lines = Inr (Some n)" "5000 \<le> n" "n \<le> 2 ^ 40"
  shows "generate_lines lines [a, b] =
    Inr (terminate_last lines @ [iperf_cmd (n div 1000 - 5) a, monitor_cmd (n div 1000 - 4) b])"
  using assms exec_seconds_div[OF assms(2,3)]
  by (simp add: generate_lines_def py_index_def)

lemma generate_trace_eq:
  assumes "fs i = Some text" "3 \<le> length (readlines text)"
  shows "generate_trace fs i out extras =
    (case generate_lines (readlines text) extras of
       Inl e \<Rightarrow> (fs, Failed i e)
     | Inr ls \<Rightarrow> (fs(out \<mapsto> concat ls), Processed i out))"
  using assms by (simp add: generate_trace_def open_read_def)

section \<open>Properties of generate\_trace\<close>

text \<open>(C17) For a trace of at least three lines whose first \<open>INIT\<close> line ends
  at \<open>n\<close> milliseconds, the generated trace, read back, is the input's lines
  (the last one terminated) followed by the iperf3 command with
  \<open>n div 1000 - 5\<close> seconds and the monitor command with one second more,
  each of exactly three comma-separated fields; the float arithmetic of
  the script loses nothing up to \<open>2 ^ 40\<close> milliseconds.\<close>

theorem generate_trace_output:
  assumes "fs i = Some text" "3 \<le> length (readlines text)"
    and "find_init (readlines text) = Inr (Some n)" "5000 \<le> n" "n \<le> 2 ^ 40"
    and "clean a" "clean b"
  shows "\<exists>content.
    generate_trace fs i out [a, b] = (fs(out \<mapsto> content), Processed i out)
    \<and> readlines content = terminate_last (readlines text)
          @ [iperf_cmd (n div 1000 - 5) a, monitor_cmd (n div 1000 - 4) b]
    \<and> length (split_on comma (iperf_cmd (n div 1000 - 5) a)) = 3
    \<and> length (split_on comma (monitor_cmd (n div 1000 - 4) b)) = 3"
proof -
  let ?ls = "terminate_last (readlines text)
    @ [iperf_cmd (n div 1000 - 5) a, monitor_cmd (n div 1000 - 4) b]"
  have "readlines text \<noteq> []" using assms(2) by auto
  then have "\<forall>l \<in> set ?ls. full_line l \<and> CHR 0x0D \<notin> set l"
    using terminate_last_full command_full_lines assms(6,7) by auto
  then have "readlines (concat ?ls) = ?ls" by (rule readlines_concat)
  then show ?thesis
    using generate_trace_eq[of fs i "text" out "[a, b]", OF assms(1,2)] generate_lines_Ok[OF assms(3-5)]
      command_fields[OF assms(6)] command_fields[OF assms(7)] by auto
qed

definition demo_trace :: string where
  "demo_trace = concat [''0,INIT,0,1,50000'' @ [newline], ''0,INIT,1,1,50000'' @ [newline],
     ''9000,HO,0,1,30,1,10,0'']"

lemma demo_trace_lines: "readlines demo_trace =
    [''0,INIT,0,1,50000'' @ [newline], ''0,INIT,1,1,50000'' @ [newline], ''9000,HO,0,1,30,1,10,0'']"
  by (simp add: demo_trace_def str_simps)

lemma demo_trace_init: "find_init (readlines demo_trace) = Inr (Some 50000)"
  unfolding demo_trace_lines by (simp add: str_simps)

theorem generate_trace_output_witness:
  "\<exists>content.
    generate_trace [''in.csv'' \<mapsto> demo_trace] ''in.csv'' ''out.csv'' [''x.json'', ''y.log''] =
      ([''in.csv'' \<mapsto> demo_trace, ''out.csv'' \<mapsto> content], Processed ''in.csv'' ''out.csv'')
    \<and> readlines content = terminate_last (readlines demo_trace)
          @ [iperf_cmd 45 ''x.json'', monitor_cmd 46 ''y.log'']
    \<and> length (split_on comma (iperf_cmd 45 ''x.json'')) = 3
    \<and> length (split_on comma (monitor_cmd 46 ''y.log'')) = 3"
  using generate_trace_output[of "[''in.csv'' \<mapsto> demo_trace]" "''in.csv''" demo_trace 50000
      "''x.json''" "''y.log''" "''out.csv''"] demo_trace_init
  by (simp add: demo_trace_lines comma_def newline_def)

text \<open>\<open>generate_trace\<close> writes only a complete output: a missing input, a
  trace of fewer than three lines, one without an \<open>INIT\<close> line and one
  whose \<open>INIT\<close> end time is no number leave every file as it was.\<close>

lemma generate_trace_no_partial_output:
  "(fs i = None \<longrightarrow> generate_trace fs i out extras = (fs, Failed i FileNotFoundError))
   \<and> (\<forall>text. fs i = Some text \<and> length (readlines text) < 3 \<longrightarrow>
        generate_trace fs i out extras = (fs, Skipped i))
   \<and> (\<forall>text. fs i = Some text \<and> 3 \<le> length (readlines text)
        \<and> find_init (readlines text) = Inr None \<longrightarrow>
        generate_trace fs i out extras = (fs, Failed i UnboundLocalError))
   \<and> (\<forall>text e. fs i = Some text \<and> 3 \<le> length (readlines text)
        \<and> find_init (readlines text) = Inl e \<longrightarrow>
        generate_trace fs i out extras = (fs, Failed i e))
   \<and> (\<forall>fs' m. generate_trace fs i out extras = (fs', m) \<and> m \<noteq> Processed i out \<longrightarrow> fs' = fs)"
  by (auto simp: generate_trace_def open_read_def generate_lines_def
      split: option.splits sum.splits if_splits)

section \<open>Rewriting event ids\<close>

lemma foldl_write_comma: "foldl write_comma x xs = join_with comma (x # xs)"
proof (induction xs arbitrary: x)
  case Nil
  then show ?case by simp
next
  case (Cons y ys)
  then have "foldl write_comma x (y # ys) = join_with comma (write_comma x y # ys)" by simp
  also have "\<dots> = join_with comma (x # y # ys)" by (cases ys) (simp_all add: write_comma_def)
  finally show ?case .
qed

lemma reduce_write_comma: "ts \<noteq> [] \<Longrightarrow> reduce_list write_comma ts = Inr (join_with comma ts)"
  by (cases ts) (simp_all add: foldl_write_comma)

lemma cmd_mappings_no_comma: "name \<in> set cmd_mappings \<Longrightarrow> comma \<notin> set name"
  by (auto simp: cmd_mappings_def comma_def)

lemma cmd_mappings_no_int: "name \<in> set cmd_mappings \<Longrightarrow> py_int name = Inl ValueError"
  by (auto simp: cmd_mappings_def str_simps)

lemma py_index_mappings:
  "py_index cmd_mappings i = Inr name \<longleftrightarrow> - 8 \<le> i \<and> i < 8 \<and> name = cmd_mappings ! nat (i mod 8)"
proof -
  have "length cmd_mappings = 8" by (simp add: cmd_mappings_def)
  moreover have "8 + i = i mod 8" if "i < 0" "0 \<le> 8 + i" using that by presburger
  ultimately show ?thesis by (auto simp: py_index_def Let_def)
qed

text \<open>What a rewritten line is: the same fields, but for the second.\<close>

definition renamed_line :: "string \<Rightarrow> string \<Rightarrow> bool" where
  "renamed_line l l' \<longleftrightarrow>
     (\<exists>i. 2 \<le> length (split_on comma l) \<and> py_int (split_on comma l ! 1) = Inr i
        \<and> - 8 \<le> i \<and> i < 8
        \<and> split_on comma l' = (split_on comma l)[1 := cmd_mappings ! nat (i mod 8)])"

lemma renamed_fields_no_comma:
  assumes "t \<in> set ((split_on comma l)[1 := cmd_mappings ! nat (i mod 8)])"
  shows "comma \<notin> set t"
proof -
  have "cmd_mappings ! nat (i mod 8) \<in> set cmd_mappings"
    by (rule nth_mem) (simp add: cmd_mappings_def)
  then show ?thesis
    using assms cmd_mappings_no_comma split_on_no_sep set_update_subset_insert by fastforce
qed

lemma mod_cmd_line_Ok: "mod_cmd_line l = Inr l' \<longleftrightarrow> renamed_line l l'"
proof -
  have split: "reduce_list write_comma ((split_on comma l)[1 := cmd_mappings ! nat (i mod 8)]) = Inr l'
     \<longleftrightarrow> split_on comma l' = (split_on comma l)[1 := cmd_mappings ! nat (i mod 8)]" for i
  proof -
    let ?ts = "(split_on comma l)[1 := cmd_mappings ! nat (i mod 8)]"
    have "split_on comma (join_with comma ?ts) = ?ts"
      using renamed_fields_no_comma by (intro split_join) auto
    then show ?thesis by (auto simp: reduce_write_comma) (metis join_split)
  qed
  show ?thesis
  proof (cases "2 \<le> length (split_on comma l)")
    case True
    then have "py_index (split_on comma l) 1 = Inr (split_on comma l ! 1)"
      by (simp add: py_index_def)
    then show ?thesis
      using True split by (auto simp: mod_cmd_line_def renamed_line_def and_then_eq_Ok
          py_index_mappings Let_def)
  next
    case False
    then have "py_index (split_on comma l) 1 = Inl IndexError" by (simp add: py_index_def)
    then show ?thesis using False by (simp add: mod_cmd_line_def renamed_line_def)
  qed
qed

lemma renamed_full_line:
  assumes "renamed_line l l'" "full_line l" "3 \<le> length (split_on comma l)"
  shows "full_line l'" and "CHR 0x0D \<notin> set l \<Longrightarrow> CHR 0x0D \<notin> set l'"
proof -
  obtain i where i: "split_on comma l' = (split_on comma l)[1 := cmd_mappings ! nat (i mod 8)]"
    using assms(1) unfolding renamed_line_def by blast
  define name S where "name = cmd_mappings ! nat (i mod 8)"
    and "S = split_on comma (butlast l)"
  have "name \<in> set cmd_mappings" unfolding name_def by (rule nth_mem) (simp add: cmd_mappings_def)
  then have name: "newline \<notin> set name" "CHR 0x0D \<notin> set name"
    by (auto simp: cmd_mappings_def newline_def)
  have l: "l = butlast l @ [newline]" "newline \<notin> set (butlast l)"
    using assms(2) by (auto simp: full_line_def)
  have tok: "split_on comma l = butlast S @ [last S @ [newline]]"
    using split_on_snoc[of newline comma "butlast l"] l(1) by (simp add: S_def comma_def newline_def)
  then have "split_on comma l' = (butlast S)[1 := name] @ [last S @ [newline]]"
    using assms(3) by (simp add: i name_def list_update_append1)
  then have l': "l' = join_with comma ((butlast S)[1 := name] @ [last S]) @ [newline]"
    by (metis join_snoc join_split)
  have sub: "set (join_with comma ((butlast S)[1 := name] @ [last S])) \<subseteq> insert comma (set name \<union> set (butlast l))"
  proof -
    have "set t \<subseteq> set name \<union> set (butlast l)" if "t \<in> set ((butlast S)[1 := name] @ [last S])" for t
    proof -
      have "t = name \<or> t \<in> set S"
        using that set_update_subset_insert[of "butlast S" 1 name] in_set_butlastD[of t S]
        by (auto simp: S_def)
      then show ?thesis using set_split_on[of t comma "butlast l"] by (auto simp: S_def)
    qed
    then show ?thesis using set_join[of comma "(butlast S)[1 := name] @ [last S]"] by blast
  qed
  have "newline \<noteq> comma" "CHR 0x0D \<noteq> comma" by (simp_all add: newline_def comma_def)
  then show "full_line l'" using sub l(2) name(1) unfolding full_line_def l' by blast
  show "CHR 0x0D \<notin> set l'" if "CHR 0x0D \<notin> set l"
    using sub that name(2) \<open>CHR 0x0D \<noteq> comma\<close> by (auto simp: l' dest: in_set_butlastD)
qed

lemma mod_cmd_cases:
  "mod_cmd fs p = (fs', m) \<Longrightarrow>
     (if m = Processed p p
      then \<exists>content newlines. fs p = Some content \<and> 3 \<le> length (readlines content)
             \<and> list_all2 renamed_line (readlines content) newlines
             \<and> fs' = fs(p \<mapsto> concat newlines)
      else fs' = fs)"
  by (auto simp: mod_cmd_def open_read_def map_result_Ok_iff mod_cmd_line_Ok
      split: option.splits sum.splits if_splits)

text \<open>(C24) \<open>mod_cmd\<close> either leaves every file alone or rewrites the one file
  line by line, keeping every field but the event id, which becomes the name
  \<open>cmd_mappings\<close> gives it (a negative id counts from the end, as Python
  indexes).\<close>

theorem mod_cmd_renames:
  "mod_cmd fs p = (fs', m) \<Longrightarrow>
     (if m = Processed p p
      then \<exists>content newlines. fs p = Some content \<and> 3 \<le> length (readlines content)
             \<and> list_all2 renamed_line (readlines content) newlines
             \<and> fs' = fs(p \<mapsto> concat newlines)
      else fs' = fs)"
  by (rule mod_cmd_cases)

definition demo_ids :: string where
  "demo_ids = concat [''0,0,0,1,500'' @ [newline], ''5,1,echo'' @ [newline], ''9,2,0,1,30,1,10,0'']"

lemma demo_ids_mod: "mod_cmd [''t'' \<mapsto> demo_ids] ''t'' =
    ([''t'' \<mapsto> concat [''0,INIT,0,1,500'' @ [newline], ''5,CMD,echo'' @ [newline],
        ''9,HO,0,1,30,1,10,0'']], Processed ''t'' ''t'')"
  by (simp add: mod_cmd_def open_read_def demo_ids_def mod_cmd_line_def cmd_mappings_def
      write_comma_def str_simps)

theorem mod_cmd_renames_witness:
  "\<exists>newlines. list_all2 renamed_line (readlines demo_ids) newlines
     \<and> [''t'' \<mapsto> concat [''0,INIT,0,1,500'' @ [newline], ''5,CMD,echo'' @ [newline],
            ''9,HO,0,1,30,1,10,0'']] = [''t'' \<mapsto> concat newlines]"
  using mod_cmd_renames[OF demo_ids_mod] by simp

text \<open>Running \<open>mod_cmd\<close> a second time changes nothing: the names it wrote
  are no numbers, so the second run fails before it writes (the first line
  has a parameter after its event id, as every event has).\<close>

lemma mod_cmd_second_run:
  assumes "mod_cmd fs p = (fs', Processed p p)"
    and "fs p = Some content" "3 \<le> length (split_on comma (hd (readlines content)))"
  shows "fst (mod_cmd fs' p) = fs'"
proof -
  obtain ls where ls: "3 \<le> length (readlines content)" "list_all2 renamed_line (readlines content) ls"
    and fs': "fs' = fs(p \<mapsto> concat ls)"
    using assms(1,2) by (auto dest!: mod_cmd_cases)
  obtain l ls1 l' ls2 where rl: "readlines content = l # ls1" and l': "ls = l' # ls2" and ne: "ls1 \<noteq> []"
    and ren: "renamed_line l l'"
  proof -
    obtain l ls1 where rl: "readlines content = l # ls1" using ls by (cases "readlines content") auto
    then obtain l' ls2 where "ls = l' # ls2" "renamed_line l l'" using ls by (cases ls) auto
    moreover have "ls1 \<noteq> []" using ls rl by auto
    ultimately show thesis using that rl by blast
  qed
  obtain i where i: "split_on comma l' = (split_on comma l)[1 := cmd_mappings ! nat (i mod 8)]"
    using ren unfolding renamed_line_def by blast
  have name: "cmd_mappings ! nat (i mod 8) \<in> set cmd_mappings"
    by (rule nth_mem) (simp add: cmd_mappings_def)
  have bad: "mod_cmd_line l' = Inl ValueError"
    using assms(3) i cmd_mappings_no_int[OF name]
    by (simp add: mod_cmd_line_def py_index_def rl)
  have "full_line l" using readlines_butlast_full[of l content] rl ne by simp
  then have "full_line l'" "CHR 0x0D \<notin> set l'"
    using renamed_full_line[OF ren] assms(3) rl readlines_no_cr[of l content] by auto
  then have "readlines (concat ls) = l' # readlines (concat ls2)"
    using readlines_cons_line[of l' "concat ls2"] by (simp add: l')
  then have "map_result mod_cmd_line (readlines (concat ls)) = Inl ValueError" using bad by simp
  then show ?thesis by (auto simp: mod_cmd_def open_read_def fs')
qed

section \<open>Reading handovers off a trace\<close>

lemma parse_trace_lines_lengths:
  "parse_trace_lines offset lines hs ls = (hs', ls', e) \<Longrightarrow> length hs = length ls \<Longrightarrow>
     (e = None \<longrightarrow> length hs' = length ls')
     \<and> (length hs' = length ls' \<or> e \<noteq> None \<and> length hs' = Suc (length ls'))"
proof (induction offset lines hs ls rule: parse_trace_lines.induct)
  case (2 offset line lines hs ls)
  then show ?case
    by (auto simp: Let_def split: sum.splits if_splits)
qed auto

text \<open>When \<open>parse_trace\<close> meets no exception its two lists have the same
  length; an exception can leave one more time than links, no other mismatch
  (the time is appended before the link is parsed).\<close>

lemma parse_trace_lengths:
  "case parse_trace fs path offset of (ho_time, target_link, e) \<Rightarrow>
     length ho_time = length target_link
       \<or> e \<noteq> None \<and> length ho_time = Suc (length target_link)"
  using parse_trace_lines_lengths[of offset _ "[]" "[]"]
  by (auto simp: parse_trace_def split: sum.splits prod.splits)

text \<open>Trace lines as the emulator's input format writes them.\<close>

datatype trace_row =
    HoRow nat nat nat "string list"
  | OtherRow nat string "string list"

fun row_fields :: "trace_row \<Rightarrow> string list" where
  "row_fields (HoRow ms q mark rest) =
     [string_of_nat ms, ''HO'', string_of_nat q, string_of_nat mark] @ rest"
| "row_fields (OtherRow ms kind rest) = [string_of_nat ms, kind] @ rest"

definition row_line :: "trace_row \<Rightarrow> string" where
  "row_line r = join_with comma (row_fields r) @ [newline]"

fun row_ok :: "trace_row \<Rightarrow> bool" where
  "row_ok (HoRow ms q mark rest) \<longleftrightarrow> ms \<le> 2 ^ 40 \<and> rest \<noteq> [] \<and> list_all clean rest"
| "row_ok (OtherRow ms kind rest) \<longleftrightarrow> kind \<noteq> ''HO'' \<and> clean kind \<and> rest \<noteq> [] \<and> list_all clean rest"

fun row_handover :: "trace_row \<Rightarrow> (nat \<times> nat) option" where
  "row_handover (HoRow ms q mark rest) = Some (ms, mark)"
| "row_handover (OtherRow ms kind rest) = None"

definition ho_seconds :: "nat \<Rightarrow> pyfloat" where
  "ho_seconds ms = Fin (fl (fl (of_nat ms / 1000) - 2))"

lemma ho_seconds_float:
  assumes "ms \<le> 2 ^ 40"
  shows "and_then (int_truediv (int ms) 1000) (\<lambda>x. and_then (float_of_int 2) (\<lambda>off. Ok (float_sub x off)))
    = Inr (ho_seconds ms)"
proof -
  have big: "(2::rat) ^ 41 \<le> 2 ^ 1023" by (rule power_increasing) auto
  have "rat_of_nat ms \<le> of_nat (2 ^ 40)" using assms by (rule of_nat_mono)
  then have q: "\<bar>rat_of_nat ms / 1000\<bar> \<le> 2 ^ 40" by simp
  have "\<bar>fl (rat_of_nat ms / 1000)\<bar> \<le> 2 ^ 40"
    using q is_double_powi[of 40] by (intro fl_abs_le) auto
  then have "mk_float (rat_of_nat ms / 1000) = Fin (fl (rat_of_nat ms / 1000))"
    "mk_float (fl (rat_of_nat ms / 1000) - 2) = Fin (fl (fl (rat_of_nat ms / 1000) - 2))"
    using q big by (auto intro!: mk_float_Fin)
  then show ?thesis
    by (simp add: int_truediv_def float_of_int_small float_sub_Fin ho_seconds_def)
qed

lemma ho_seconds_close:
  assumes "ms \<le> 2 ^ 40"
  shows "\<exists>x. ho_seconds ms = Fin x \<and> \<bar>x - (of_nat ms / 1000 - 2)\<bar> \<le> 1 / 2 ^ 20"
proof -
  define q where "q = rat_of_nat ms / 1000"
  have "rat_of_nat ms \<le> of_nat (2 ^ 40)" using assms by (rule of_nat_mono)
  then have q: "0 \<le> q" "q \<le> 2 ^ 40 / 1000" by (simp_all add: q_def)
  then have e1: "\<bar>fl q - q\<bar> \<le> 2 powi (32 - 54)" by (intro fl_error_below) auto
  also have "(2::rat) powi (32 - 54) = 1 / 2 ^ 22" by (simp add: power_int_def field_simps)
  finally have e1: "\<bar>fl q - q\<bar> \<le> 1 / 2 ^ 22" .
  then have "\<bar>fl q - q\<bar> \<le> 1" by (rule order_trans) simp
  then have "fl q \<le> q + 1" "q - 1 \<le> fl q" by linarith+
  then have "\<bar>fl q - 2\<bar> < 2 powi 32" using q by (simp add: abs_less_iff)
  then have "\<bar>fl (fl q - 2) - (fl q - 2)\<bar> \<le> 2 powi (32 - 54)" by (intro fl_error_below) auto
  also have "(2::rat) powi (32 - 54) = 1 / 2 ^ 22" by (simp add: power_int_def field_simps)
  finally have "\<bar>fl (fl q - 2) - (q - 2)\<bar> \<le> 1 / 2 ^ 22 + 1 / 2 ^ 22" using e1 by linarith
  also have "\<dots> \<le> 1 / 2 ^ 20" by simp
  finally show ?thesis by (simp add: ho_seconds_def q_def)
qed

lemma row_tokens:
  assumes "row_ok r"
  shows "split_on comma (row_line r) = butlast (row_fields r) @ [last (row_fields r) @ [newline]]"
proof -
  have "row_fields r \<noteq> []" by (cases r) auto
  moreover have "\<forall>t \<in> set (row_fields r). comma \<notin> set t"
    using assms clean_string_of_nat by (cases r) (auto simp: list_all_iff clean_def comma_def)
  ultimately have "split_on comma (join_with comma (row_fields r)) = row_fields r" by (rule split_join)
  then show ?thesis
    using split_on_snoc[of newline comma "join_with comma (row_fields r)"]
    by (simp add: row_line_def newline_def comma_def)
qed

lemma parse_trace_rows:
  "list_all row_ok rows \<Longrightarrow>
     parse_trace_lines 2 (map row_line rows) hs ls =
       (hs @ map (ho_seconds \<circ> fst) (List.map_filter row_handover rows),
        ls @ map (int \<circ> snd) (List.map_filter row_handover rows), None)"
proof (induction rows arbitrary: hs ls)
  case Nil
  then show ?case by (simp add: List.map_filter_def)
next
  case (Cons r rows)
  show ?case
  proof (cases r)
    case (HoRow ms q mark rest)
    have "split_on comma (row_line r)
      = [string_of_nat ms, ''HO'', string_of_nat q, string_of_nat mark] @ butlast rest @ [last rest @ [newline]]"
      using row_tokens[of r] Cons.prems HoRow by (simp add: butlast_append)
    then show ?thesis
      using Cons HoRow ho_seconds_float[of ms]
      by (simp add: py_index_def List.map_filter_def)
  next
    case (OtherRow ms kind rest)
    have "split_on comma (row_line r) = [string_of_nat ms, kind] @ butlast rest @ [last rest @ [newline]]"
      using row_tokens[of r] Cons.prems OtherRow by (simp add: butlast_append)
    then show ?thesis
      using Cons OtherRow by (simp add: py_index_def List.map_filter_def)
  qed
qed

lemma row_line_full:
  assumes "row_ok r"
  shows "full_line (row_line r) \<and> CHR 0x0D \<notin> set (row_line r)"
proof -
  have fields: "\<forall>t \<in> set (row_fields r). clean t"
    using assms by (cases r) (auto simp: list_all_iff comma_def newline_def)
  have "newline \<noteq> comma" "CHR 0x0D \<noteq> comma" by (simp_all add: newline_def comma_def)
  then have "newline \<notin> set (join_with comma (row_fields r))" "CHR 0x0D \<notin> set (join_with comma (row_fields r))"
    using set_join[of comma "row_fields r"] fields by (auto simp: clean_def)
  then show ?thesis unfolding row_line_def full_line_def by auto
qed

text \<open>(C18) \<open>parse_trace\<close> recovers every handover of a well-formed trace and
  nothing else, in file order, without an exception: the target links are
  exact and each time is within a millionth of a second of the trace's
  milliseconds, less the two seconds of warm-up.\<close>

theorem parse_trace_recovers_handovers:
  assumes "fs path = Some (concat (map row_line rows))" "list_all row_ok rows"
  shows "\<exists>times. parse_trace fs path 2 =
      (times, map (int \<circ> snd) (List.map_filter row_handover rows), None)
    \<and> list_all2 (\<lambda>h t. \<exists>x. t = Fin x \<and> \<bar>x - (of_nat (fst h) / 1000 - 2)\<bar> \<le> 1 / 10 ^ 6)
        (List.map_filter row_handover rows) times"
proof -
  have "readlines (concat (map row_line rows)) = map row_line rows"
    using assms(2) row_line_full by (intro readlines_concat) (auto simp: list_all_iff)
  then have p: "parse_trace fs path 2 =
      (map (ho_seconds \<circ> fst) (List.map_filter row_handover rows),
       map (int \<circ> snd) (List.map_filter row_handover rows), None)"
    using assms parse_trace_rows[of rows "[]" "[]"] by (simp add: parse_trace_def open_read_def)
  have "fst h \<le> 2 ^ 40" if h: "h \<in> set (List.map_filter row_handover rows)" for h
  proof -
    obtain r where "r \<in> set rows" "row_handover r = Some h"
      using h by (auto simp: List.map_filter_def)
    moreover have "row_ok r" using assms(2) \<open>r \<in> set rows\<close> by (simp add: list_all_iff)
    ultimately show ?thesis by (cases r rule: trace_row.exhaust) auto
  qed
  then have "\<exists>x. ho_seconds (fst h) = Fin x \<and> \<bar>x - (of_nat (fst h) / 1000 - 2)\<bar> \<le> 1 / 10 ^ 6"
    if "h \<in> set (List.map_filter row_handover rows)" for h
    using ho_seconds_close[of "fst h"] that by fastforce
  then show ?thesis using p by (simp add: list_all2_map2 list_all2_same)
qed

theorem parse_trace_recovers_handovers_witness:
  "\<exists>times. parse_trace [''t.csv'' \<mapsto> concat (map row_line
        [OtherRow 0 ''INIT'' [''0'', ''1'', ''50000''], HoRow 7899 0 2 [''199'', ''1''],
         HoRow 13602 0 1 [''33'']])] ''t.csv'' 2
      = (times, [2, 1], None)
    \<and> list_all2 (\<lambda>h t. \<exists>x. t = Fin x \<and> \<bar>x - (of_nat (fst h) / 1000 - 2)\<bar> \<le> 1 / 10 ^ 6)
        [(7899, 2 :: nat), (13602, 1)] times"
  using parse_trace_recovers_handovers[of "[''t.csv'' \<mapsto> concat (map row_line
        [OtherRow 0 ''INIT'' [''0'', ''1'', ''50000''], HoRow 7899 0 2 [''199'', ''1''],
         HoRow 13602 0 1 [''33'']])]" "''t.csv''"
      "[OtherRow 0 ''INIT'' [''0'', ''1'', ''50000''], HoRow 7899 0 2 [''199'', ''1''],
         HoRow 13602 0 1 [''33'']]"]
  by (simp add: List.map_filter_def comma_def newline_def)


section \<open>Names of traces\<close>

text \<open>The files \<open>old_fix.py\<close> selects: any text without a line end before
  \<open>trace-<number>.csv\<close>, and nothing that does not end so.\<close>

lemma trace_tail_digits:
  assumes "list_all is_dec ds" and "ds \<noteq> []"
  shows "trace_tail (''trace-'' @ ds @ ''.csv'')"
proof -
  have "\<not> is_dec (CHR ''.'')" by (simp add: is_dec_def code_pt_def)
  then have "dropWhile is_dec (ds @ ''.csv'') = ''.csv''" "takeWhile is_dec (ds @ ''.csv'') = ds"
    using assms(1) by (simp_all add: list_all_iff)
  then show ?thesis using assms(2) by (simp add: trace_tail_def starts_with_def)
qed

lemma trace_file_name_accepts:
  assumes "newline \<notin> set front" and "list_all is_dec ds" and "ds \<noteq> []"
  shows "trace_file_name (front @ ''trace-'' @ ds @ ''.csv'')"
proof -
  let ?t = "''trace-'' @ ds @ ''.csv''"
  have "newline \<notin> set (take (length front) (front @ ?t)) \<and> trace_tail (drop (length front) (front @ ?t))"
    using assms(1) trace_tail_digits [OF assms(2,3)] by (simp only: append_eq_conv_conj [THEN iffD1] take_append drop_append) simp
  moreover have "length front \<in> set [0..<length (front @ ?t)]" by simp
  ultimately show ?thesis unfolding trace_file_name_def list_ex_iff by blast
qed

lemma trace_file_name_suffix:
  assumes "trace_file_name s"
  shows "\<exists>front ds. ds \<noteq> [] \<and> list_all is_dec ds \<and>
    (s = front @ ''trace-'' @ ds @ ''.csv'' \<or> s = front @ ''trace-'' @ ds @ ''.csv'' @ [newline])"
proof -
  obtain k where k: "trace_tail (drop k s)" using assms by (auto simp: trace_file_name_def list_ex_iff)
  let ?r = "drop 6 (drop k s)"
  have "take 6 (drop k s) = ''trace-''" using k by (simp add: trace_tail_def starts_with_def eval_nat_numeral)
  then have "drop k s = ''trace-'' @ ?r" by (metis append_take_drop_id)
  then have s: "s = take k s @ ''trace-'' @ takeWhile is_dec ?r @ dropWhile is_dec ?r"
    by (metis append_take_drop_id takeWhile_dropWhile_id)
  have d: "list_all is_dec (takeWhile is_dec ?r)" by (auto simp: list_all_iff dest: set_takeWhileD)
  have "takeWhile is_dec ?r \<noteq> []" "dropWhile is_dec ?r = ''.csv'' \<or> dropWhile is_dec ?r = ''.csv'' @ [newline]"
    using k unfolding trace_tail_def Let_def by blast+
  with s d show ?thesis by metis
qed

end
