(* ===== verification/Scripts.thy ===== *)
theory Scripts
  imports Arg_Parse Trace_Tools
begin

text \<open>
  The scripts from their command lines: \<open>generate_input.py\<close>, \<open>parse_ss.py\<close>,
  \<open>plot.py\<close> and \<open>plotting.py\<close>. Each has its parser as data, an interpretation of
  the locale \<open>cli\<close> on it, and its main part as a function of the arguments and of the files.
  Data frames that pandas reads are parameters, as is the difference of two times.
\<close>

section \<open>generate\_input.py\<close>

definition generate_input_spec :: parser_spec where
  "generate_input_spec =
     \<lparr>positionals = [(''input'', Str_arg), (''output'', Str_arg), (''iperf_log'', Str_arg), (''ss_log'', Str_arg)],
      opts = []\<rparr>"

definition generate_input :: "fs \<Rightarrow> string list \<Rightarrow> parse_exit + (fs \<times> message)" where
  "generate_input files = run_script generate_input_spec (\<lambda>args.
     let extras = [str_arg args ''iperf_log'', str_arg args ''ss_log'']
     in generate_trace files (str_arg args ''input'') (str_arg args ''output'') extras)"

section \<open>parse\_ss.py\<close>

definition parse_ss_spec :: parser_spec where
  "parse_ss_spec =
     \<lparr>positionals = [(''log_file'', Str_arg)],
      opts = [one_option [''-o'', ''--output''] ''output'' Str_arg]\<rparr>"

text \<open>\<open>Path(p).stem\<close>: the last component without its suffix. Empty components and dots
  are no components; a dot at either end of the name starts no suffix.\<close>

definition path_name :: "string \<Rightarrow> string" where
  "path_name p =
     (let cs = filter (\<lambda>c. c \<noteq> [] \<and> c \<noteq> ''.'') (split_on (CHR ''/'') p) in if cs = [] then [] else last cs)"

definition path_stem :: "string \<Rightarrow> string" where
  "path_stem p =
     (let name = path_name p; suffix = takeWhile (\<lambda>c. c \<noteq> CHR ''.'') (rev name);
          k = length name - length suffix
      in if suffix \<noteq> [] \<and> 1 < k then take (k - 1) name else name)"

text \<open>The difference of the first and the last \<open>datetime\<close>; a pair of that name in the log
  replaces the time.\<close>

datatype 's span = Span 's | Difference pyfloat

definition time_span :: "('d \<Rightarrow> 'd \<Rightarrow> 's) \<Rightarrow> 'd ss_entry list \<Rightarrow> 's span result" where
  "time_span difference entries =
     (case (map_of (hd entries) ''datetime'', map_of (last entries) ''datetime'') of
        (Some (Datetime a), Some (Datetime b)) \<Rightarrow> Ok (Span (difference b a))
      | (Some (Metric (Num x)), Some (Metric (Num y))) \<Rightarrow> Ok (Difference (float_sub y x))
      | (Some _, Some _) \<Rightarrow> Raise TypeError
      | _ \<Rightarrow> Raise KeyError)"

datatype ('d, 's) ss_outcome =
    Parse_failed
  | Save_failed
  | Csv_saved string "'d table" nat "'s span result"

definition parse_ss_main ::
  "(pyfloat \<Rightarrow> 'd result) \<Rightarrow> ('d \<Rightarrow> 'd \<Rightarrow> 's) \<Rightarrow> (string \<rightharpoonup> string) \<Rightarrow> string list \<Rightarrow>
   parse_exit + ('d, 's) ss_outcome result"
where
  "parse_ss_main fromtimestamp difference files = run_script parse_ss_spec (\<lambda>args.
     let log_file = str_arg args ''log_file'';
         output = (case text_arg args ''output'' of
                     None \<Rightarrow> ''parsed_'' @ path_stem log_file @ ''.csv''
                   | Some path \<Rightarrow> path)
     in case parse_file fromtimestamp files \<lparr>log_file = log_file, parsed_data = []\<rparr> of
          (False, _) \<Rightarrow> Ok Parse_failed
        | (True, parser) \<Rightarrow>
            and_then (save_csv parser) (\<lambda>saved.
              case saved of
                None \<Rightarrow> Ok Save_failed
              | Some table \<Rightarrow>
                  Ok (Csv_saved output table (length (parsed_data parser)) (time_span difference (parsed_data parser)))))"

section \<open>plot.py\<close>

definition plot_spec :: parser_spec where
  "plot_spec =
     \<lparr>positionals = [(''csv_file'', Str_arg)],
      opts =
        [\<lparr>opt_names = [''-m'', ''--metrics''], opt_dest = ''metrics'', opt_count = At_least_one,
          opt_conv = Str_arg, opt_default = Arg_none\<rparr>,
         one_option [''-o'', ''--output''] ''output'' Str_arg,
         flag_option [''-l'', ''--list''] ''list'',
         \<lparr>opt_names = [''--figsize''], opt_dest = ''figsize'', opt_count = Exactly 2,
          opt_conv = Int_arg, opt_default = Arg_list [Arg_int 12, Arg_int 6]\<rparr>]\<rparr>"

text \<open>The lines \<open>list_available_metrics\<close> prints.\<close>

definition list_available_metrics :: "string list \<Rightarrow> string list" where
  "list_available_metrics columns = [[], ''Available metrics:''] @ map (\<lambda>metric. ''- '' @ metric) (sort columns)"

datatype 'v plot_run = Stdout "string list" | Drawn bool "'v figure option"

definition plot_script ::
  "(string \<Rightarrow> (string list \<times> 'v row list) result) \<Rightarrow> string list \<Rightarrow> parse_exit + 'v plot_run result"
where
  "plot_script read_csv = run_script plot_spec (\<lambda>args.
     and_then (read_csv (str_arg args ''csv_file'')) (\<lambda>(columns, data).
       and_then (plot_main columns data (flag_arg args ''list'') (texts_arg args ''metrics'') (text_arg args ''output''))
         (\<lambda>r. case r of
                Metrics_listed _ \<Rightarrow>
                  Ok (Stdout ((if flag_arg args ''list'' then []
                               else [''Error: Please specify at least one metric to plot using -m/--metrics''])
                              @ list_available_metrics columns))
              | Plotted b f \<Rightarrow> Ok (Drawn b f))))"

section \<open>plotting.py\<close>

definition int_option :: "string list \<Rightarrow> string \<Rightarrow> int \<Rightarrow> option_spec" where
  "int_option names dest n = \<lparr>opt_names = names, opt_dest = dest, opt_count = One,
     opt_conv = Int_arg, opt_default = Arg_int n\<rparr>"

definition plotting_spec :: parser_spec where
  "plotting_spec =
     \<lparr>positionals = [(''csv_file'', Str_arg), (''metric'', Str_arg)],
      opts =
        [one_option [''-s'', ''--start''] ''start'' Time_arg,
         one_option [''-e'', ''--end''] ''end'' Time_arg,
         one_option [''-o'', ''--output''] ''output'' Str_arg,
         int_option [''-w'', ''--width''] ''width'' 12,
         int_option [''-H'', ''--height''] ''height'' 6,
         flag_option [''-l'', ''--list''] ''list'']\<rparr>"

definition plotting_script ::
  "(string \<Rightarrow> (string list \<times> 'v row list) result) \<Rightarrow> string list \<Rightarrow> parse_exit + 'v plot_outcome result"
where
  "plotting_script read_csv = run_script plotting_spec (\<lambda>args.
     and_then (read_csv (str_arg args ''csv_file'')) (\<lambda>(columns, rows).
       plotting_main columns rows (flag_arg args ''list'') (str_arg args ''metric'')
         (float_arg args ''start'') (float_arg args ''end'') (text_arg args ''output'')))"

section \<open>The parsers are well formed\<close>

lemmas spec_defs = generate_input_spec_def parse_ss_spec_def plot_spec_def plotting_spec_def
  one_option_def flag_option_def int_option_def

interpretation generate_input_cli: cli generate_input_spec
  by (rule cli.intro) (simp add: spec_ok_def all_options_def help_option_def spec_defs)

interpretation parse_ss_cli: cli parse_ss_spec
  by (rule cli.intro) (simp add: spec_ok_def all_options_def help_option_def spec_defs)

interpretation plot_cli: cli plot_spec
  by (rule cli.intro) (simp add: spec_ok_def all_options_def help_option_def spec_defs)

interpretation plotting_cli: cli plotting_spec
  by (rule cli.intro) (simp add: spec_ok_def all_options_def help_option_def spec_defs)

section \<open>From the command line to the work\<close>

lemmas arg_defs = str_arg_def text_arg_def float_arg_def flag_arg_def texts_arg_def defaults_def store_def convert_def

text \<open>\<open>generate_input.py\<close> on plain arguments: exactly four of them generate the trace
  \<open>output\<close> from the trace \<open>input\<close> with the two log names, and with any other number
  the program ends with a usage error before it touches a file.\<close>

lemma generate_input_command:
  assumes "list_all plain_arg argv"
  shows "generate_input files argv =
    (case argv of
       [inp, outp, iperf, ss] \<Rightarrow> Inr (generate_trace files inp outp [iperf, ss])
     | _ \<Rightarrow> Inl Usage_error)"
proof (cases "length argv = 4")
  case True
  then obtain a b c d where argv: "argv = [a, b, c, d]"
    by (auto simp: eval_nat_numeral length_Suc_conv)
  then show ?thesis
    using generate_input_cli.parse_command_line [OF assms, of "[]"]
    by (simp add: generate_input_def run_script_def command_line_def spec_defs arg_defs)
next
  case False
  then have "length argv \<noteq> length (positionals generate_input_spec)" by (simp add: spec_defs)
  from generate_input_cli.parse_wrong_number [OF assms this] show ?thesis
    using False by (auto simp: generate_input_def run_script_def split: list.splits)
qed

text \<open>The default name of \<open>parse_ss.py\<close> is that of the log without its directory and
  suffix.\<close>

lemma parse_ss_default_output:
  assumes "plain_arg path" and "plain_arg out" and "out = ''parsed_'' @ path_stem path @ ''.csv''"
  shows "parse_ss_main fromtimestamp difference files [path] =
    parse_ss_main fromtimestamp difference files [path, ''-o'', out]"
  using parse_ss_cli.parse_command_line [of "[path]" "[]"]
    parse_ss_cli.parse_command_line [of "[path]" "[(one_option [''-o'', ''--output''] ''output'' Str_arg, ''-o'', [out])]"]
    assms
  by (simp add: parse_ss_main_def run_script_def command_line_def given_ok_def take_count_def spec_defs arg_defs
      split: prod.split bool.split)

lemma path_stem_suffix:
  assumes "CHR ''/'' \<notin> set name" "CHR ''.'' \<notin> set ext" "CHR ''/'' \<notin> set ext"
    "name \<noteq> []" "ext \<noteq> []" "CHR ''/'' \<notin> set dir"
  shows "path_stem (dir @ CHR ''/'' # name @ CHR ''.'' # ext) = name"
proof -
  let ?n = "name @ CHR ''.'' # ext"
  have "?n \<noteq> []" "?n \<noteq> ''.''" using assms(4,5) by (auto simp: append_eq_Cons_conv)
  moreover have "split_on (CHR ''/'') (dir @ CHR ''/'' # ?n) = [dir, ?n]"
    using assms(1,3,6) by (simp add: split_on_append split_on_single)
  ultimately have "path_name (dir @ CHR ''/'' # ?n) = ?n" by (simp add: path_name_def)
  moreover have "takeWhile (\<lambda>c. c \<noteq> CHR ''.'') (rev ?n) = rev ext"
    using assms(2) by (auto simp: takeWhile_append2 intro: takeWhile_append2 [THEN trans])
  ultimately show ?thesis using assms(4,5) by (simp add: path_stem_def Let_def)
qed

text \<open>A time on the command line of \<open>plotting.py\<close>.\<close>

definition hms :: "nat \<Rightarrow> nat \<Rightarrow> nat \<Rightarrow> string" where
  "hms h m s = pad2 h @ '':'' @ pad2 m @ '':'' @ pad2 s"

lemma hms_plain: "h < 24 \<Longrightarrow> plain_arg (hms h m s)"
  using pad2_dec [of h] dec_not_special by (auto simp: plain_arg_def hms_def pad2_def)

lemma plotting_command:
  assumes "list_all plain_arg [csv, metric, from, to, out]"
    and "parse_time (Some from) = Ok (Some x)" and "parse_time (Some to) = Ok (Some y)"
  shows "plotting_script read_csv [csv, metric, ''-s'', from, ''-e'', to, ''-o'', out] =
    Inr (and_then (read_csv csv) (\<lambda>(columns, rows).
      plotting_main columns rows False metric (Some x) (Some y) (Some out)))"
  using plotting_cli.parse_command_line [of "[csv, metric]"
      "[(one_option [''-s'', ''--start''] ''start'' Time_arg, ''-s'', [from]),
        (one_option [''-e'', ''--end''] ''end'' Time_arg, ''-e'', [to]),
        (one_option [''-o'', ''--output''] ''output'' Str_arg, ''-o'', [out])]"] assms
  by (simp add: plotting_script_def run_script_def command_line_def given_ok_def take_count_def spec_defs arg_defs)


text \<open>(C40) \<open>plotting.py\<close> from its command line: for a file whose time stamps ascend and
  whose rows have the metric, \<open>-s\<close> and \<open>-e\<close> with two times of day and \<open>-o\<close> save
  exactly the rows whose offset from the first time stamp lies between the two, in order, at
  offsets that never go back, and draw nothing if there are none.\<close>

theorem plotting_script_window:
  assumes "list_all plain_arg [csv, metric, out]" and "out \<noteq> []"
    and "h < 24" "m < 60" "s < 60" "h' < 24" "m' < 60" "s' < 60"
    and "read_csv csv = Ok (columns, rows)" and "''timestamp'' \<in> set columns"
    and "map_result (\<lambda>r. stamp_of (map_of r ''timestamp'')) rows = Ok (n0 # ns)"
    and "sorted (n0 # ns)" "last (n0 # ns) - n0 \<le> 2 ^ 53"
    and "list_all (\<lambda>r. metric \<in> fst ` set r) rows" "metric \<noteq> ''datetime''" "metric \<noteq> ''time_offset''"
    and "points = map (\<lambda>(r, n). (offset_seconds n0 n, the (map_of r metric)))
      (filter (\<lambda>(r, n). float_le (Fin (of_nat (h * 3600 + m * 60 + s))) (offset_seconds n0 n) \<and>
                  float_le (offset_seconds n0 n) (Fin (of_nat (h' * 3600 + m' * 60 + s')))) (zip rows (n0 # ns)))"
  shows "plotting_script read_csv [csv, metric, ''-s'', hms h m s, ''-e'', hms h' m' s', ''-o'', out] =
      Inr (Ok (if points = [] then Nothing_drawn else Saved out points))
    \<and> sorted_wrt float_le (map fst points)"
proof -
  let ?x = "Some (Fin (of_nat (h * 3600 + m * 60 + s)))" and ?y = "Some (Fin (of_nat (h' * 3600 + m' * 60 + s')))"
  have times: "parse_time (Some (hms h m s)) = Ok ?x" "parse_time (Some (hms h' m' s')) = Ok ?y"
    using parse_time_reads assms(3-8) by (simp_all only: hms_def)
  have run: "plotting_script read_csv [csv, metric, ''-s'', hms h m s, ''-e'', hms h' m' s', ''-o'', out] =
      Inr (plotting_main columns rows False metric ?x ?y (Some out))"
    using plotting_command [OF _ times, of csv metric out read_csv] hms_plain assms(1,3,6,9) by simp
  obtain df where df: "plotter_init columns rows = Ok df"
    using assms(10,11) by (simp add: plotter_init_def)
  have rows: "plotter_filter df ?x ?y = map (init_row n0)
      (filter (\<lambda>(r, n). in_window ?x ?y (offset_seconds n0 n)) (zip rows (n0 # ns)))"
    by (rule plotter_filter_rows [OF df assms(11)])
  have window: "in_window ?x ?y z \<longleftrightarrow> float_le (the ?x) z \<and> float_le z (the ?y)" for z
    by (simp add: in_window_def)
  show ?thesis
  proof (cases "plotter_plot_metric df metric ?x ?y")
    case None
    have "metric \<in> fst ` set r" if "r \<in> set (plotter_filter df ?x ?y)" for r
      using that assms(14) unfolding rows
      by (auto simp: list_all_iff init_row_def dict_set_keys dest!: set_zip_leftD)
    with None have "plotter_filter df ?x ?y = []"
      by (auto simp: plotter_plot_metric_def split: list.splits if_splits)
    then have "points = []" unfolding rows assms(17) using window by simp
    then show ?thesis using run df None by (simp add: plotting_main_def)
  next
    case (Some pts)
    note pp = plotting_points [OF df assms(11-13,15,16) Some]
    then have "sorted_wrt float_le (map fst pts)" by (elim conjE)
    moreover have "pts = points" unfolding assms(17) using pp window by simp
    moreover have "pts \<noteq> []" using Some by (auto simp: plotter_plot_metric_def split: list.splits if_splits)
    ultimately show ?thesis using run df Some assms(2) by (simp add: plotting_main_def)
  qed
qed


theorem plotting_script_window_witness:
  "plotting_script (\<lambda>_. Ok ([''timestamp'', ''cwnd''], [[(''timestamp'', Stamp_ns 5), (''cwnd'', Cell (10 :: nat))]]))
     [''a.csv'', ''cwnd'', ''-s'', hms 0 0 0, ''-e'', hms 0 1 0, ''-o'', ''p.png'']
   = Inr (Ok (Saved ''p.png'' [(Fin 0, Cell 10)]))"
  using plotting_script_window [of "''a.csv''" "''cwnd''" "''p.png''" 0 0 0 0 1 0
      "\<lambda>_. Ok ([''timestamp'', ''cwnd''], [[(''timestamp'', Stamp_ns 5), (''cwnd'', Cell (10 :: nat))]])"
      "[''timestamp'', ''cwnd'']" "[[(''timestamp'', Stamp_ns 5), (''cwnd'', Cell 10)]]" 5 "[]", OF _ _ _ _ _ _ _ _ _ _ _ _ _ _ _ _ refl]
  by (simp add: plain_arg_def offset_seconds_def)

end
