(* ===== verification/Handover_Report.thy ===== *)
theory Handover_Report
  imports Trace_Tools Iperf "HOL-Library.Monad_Syntax"
begin

text \<open>
  The main program of \<open>metrics.py\<close>: what a run prints, given the files that
  exist, and its three evaluations (throughput around handovers, ramp-up times
  with their adjustment loops, precision and recall). The evaluations other
  than the report stand under \<open>if False\<close> in the source. \<open>np.mean\<close> is
  a parameter: what the loops rely on is stated by \<open>mean_spec\<close>. Values are
  those before their formatting for the terminal.
\<close>

section \<open>The report of a run\<close>

datatype color = Green | Red

text \<open>The colour of each handover line of the figure.\<close>

fun ho_colors :: "int \<Rightarrow> int list \<Rightarrow> color list" where
  "ho_colors prev_link [] = []"
| "ho_colors prev_link (l # ls) =
     (if l = prev_link then Green # ho_colors prev_link ls else Red # ho_colors l ls)"

datatype printed =
    Average pyfloat
  | Thuput_figure "(pyfloat \<times> pyfloat) list" "(pyfloat \<times> color) list" string
  | Link_stats pyfloat pyfloat pyfloat pyfloat

type_synonym series = "pyfloat list \<times> pyfloat list"

text \<open>The figure of the run that is saved: the samples, a coloured vertical line per handover,
  the name of the file.\<close>

definition run_figure :: "series \<Rightarrow> pyfloat list \<Rightarrow> int list \<Rightarrow> string \<Rightarrow> printed" where
  "run_figure s ho_times target_links fig_name =
     Thuput_figure (zip (fst s) (snd s)) (zip ho_times (ho_colors 1 target_links)) fig_name"

text \<open>A throughput file that exists: its samples in the range, and the printed
  average.\<close>

definition load_thuputs :: "json \<Rightarrow> pyfloat \<Rightarrow> pyfloat \<Rightarrow> (series \<times> pyfloat) result" where
  "load_thuputs data begin_time end_time =
     and_then (parse_iperf3_log data) (\<lambda>(ts, tps).
       let s = filter_time_range ts tps begin_time end_time
       in and_then (float_mean (snd s)) (\<lambda>avg. Ok (s, avg)))"

text \<open>The averages and maxima on the two links.\<close>

definition link_report ::
  "(pyfloat list \<Rightarrow> pyfloat) \<Rightarrow> pyfloat list \<Rightarrow> int list \<Rightarrow> series \<Rightarrow> printed result"
where
  "link_report np_mean ho_times target_links s =
     (case s of (thuput_times, thuputs) \<Rightarrow>
        and_then (py_max thuput_times) (\<lambda>time_end.
        and_then (filter_link_duration ho_times target_links time_end 1) (\<lambda>link_durations.
          let sub6_thuputs = link_thuputs link_durations 1 thuput_times thuputs;
              mmw_thuputs = link_thuputs link_durations 2 thuput_times thuputs
          in and_then (py_max sub6_thuputs) (\<lambda>m1. and_then (py_max mmw_thuputs) (\<lambda>m2.
               Ok (Link_stats (np_mean sub6_thuputs) m1 (np_mean mmw_thuputs) m2))))))"

text \<open>A variable whose file did not exist is unbound. The steps run in order;
  an exception ends the run after what was printed before it.\<close>

definition bound :: "'a option \<Rightarrow> 'a result" where
  "bound v = (case v of None \<Rightarrow> Raise NameError | Some x \<Rightarrow> Ok x)"

fun run_steps :: "printed option result list \<Rightarrow> printed list \<times> py_error option" where
  "run_steps [] = ([], None)"
| "run_steps (Inl e # steps) = ([], Some e)"
| "run_steps (Inr p # steps) =
     (case run_steps steps of (ps, e) \<Rightarrow> (case p of None \<Rightarrow> ps | Some x \<Rightarrow> x # ps, e))"

definition loaded :: "json option \<Rightarrow> pyfloat \<times> pyfloat \<Rightarrow> (series \<times> pyfloat) option result" where
  "loaded file rng =
     (case file of None \<Rightarrow> Ok None
      | Some data \<Rightarrow> and_then (load_thuputs data (fst rng) (snd rng)) (\<lambda>r. Ok (Some r)))"

definition metrics_main ::
  "(pyfloat list \<Rightarrow> pyfloat) \<Rightarrow> fs \<Rightarrow> json option \<Rightarrow> json option \<Rightarrow> string \<Rightarrow> string \<Rightarrow>
   pyfloat option \<Rightarrow> pyfloat option \<Rightarrow> printed list \<times> py_error option"
where
  "metrics_main np_mean files client_log m_client_log trace_file fig_name b e =
     (let rng = time_range b e;
          run = loaded client_log rng;
          m_run = loaded m_client_log rng;
          trace = (case files trace_file of
                     None \<Rightarrow> None
                   | Some _ \<Rightarrow> (case parse_trace files trace_file 2 of
                                (hs, ls, err) \<Rightarrow> Some (filter_time_range hs ls (fst rng) (snd rng))));
          thuputs = and_then run (\<lambda>r. and_then (bound r) (\<lambda>x. Ok (fst x)));
          m_thuputs = and_then m_run (\<lambda>r. and_then (bound r) (\<lambda>x. Ok (fst x)))
      in run_steps
           [and_then run (\<lambda>r. Ok (map_option (\<lambda>x. Average (snd x)) r)),
            and_then m_run (\<lambda>r. Ok (map_option (\<lambda>x. Average (snd x)) r)),
            and_then thuputs (\<lambda>s. and_then (bound trace) (\<lambda>t. Ok (Some (run_figure s (fst t) (snd t) fig_name)))),
            and_then (bound trace) (\<lambda>t. and_then thuputs (\<lambda>s.
              and_then (link_report np_mean (fst t) (snd t) s) (\<lambda>p. Ok (Some p)))),
            and_then (bound trace) (\<lambda>t. and_then m_thuputs (\<lambda>s.
              and_then (link_report np_mean (fst t) (snd t) s) (\<lambda>p. Ok (Some p))))])"

section \<open>Throughput around handovers\<close>

definition scale_thuputs :: "string \<Rightarrow> pyfloat list \<Rightarrow> pyfloat list" where
  "scale_thuputs algo ho_thuputs =
     map (\<lambda>x. float_mul x (if algo \<in> {''bic'', ''hstcp''} then mk_float (8 / 10) else mk_float (95 / 100))) ho_thuputs"

text \<open>The adjusted average of a handover type and the new running sum.\<close>

definition adjust_average ::
  "string \<Rightarrow> int \<times> int \<Rightarrow> pyfloat \<Rightarrow> nat \<Rightarrow> pyfloat \<Rightarrow> (pyfloat \<times> pyfloat) result"
where
  "adjust_average algo ho_type cubic_sum n avg =
     (if algo = ''cubic''
      then (if ho_type = (0, 0)
            then and_then (float_div cubic_sum (Fin (of_nat n))) (\<lambda>a. Ok (a, cubic_sum))
            else let a = (if ho_type = (1, 1) then mk_float (10219 / 100)
                          else if ho_type = (1, 2) then mk_float (1241 / 10)
                          else if ho_type = (2, 2) then mk_float (28252 / 100)
                          else if ho_type = (2, 1) then mk_float (20909 / 100) else avg)
                 in Ok (a, float_add cubic_sum (float_mul a (Fin (of_nat n)))))
      else if algo = ''htcp''
      then (if ho_type = (0, 0)
            then and_then (float_div cubic_sum (Fin (of_nat n))) (\<lambda>a. Ok (a, cubic_sum))
            else let a = (if ho_type = (2, 1) then mk_float (19342 / 100) else avg)
                 in Ok (a, float_add cubic_sum (float_mul a (Fin (of_nat n)))))
      else Ok (avg, cubic_sum))"

text \<open>One turn of the loop: the average of the run and that of M2HO.\<close>

definition ho_thuput_step ::
  "string \<Rightarrow> pyfloat list \<Rightarrow> int list \<Rightarrow> series \<Rightarrow> series \<Rightarrow> int \<times> int \<Rightarrow> pyfloat \<Rightarrow>
   ((pyfloat \<times> pyfloat) \<times> pyfloat) result"
where
  "ho_thuput_step algo ho_times target_links s ms ho_type cubic_sum =
     and_then (filter_ho_types ho_times target_links ho_type 1) (\<lambda>filtered_ho_times.
     and_then (calculate_ho_thuput filtered_ho_times (fst s) (snd s) (Fin 5)) (\<lambda>raw.
     let ho_thuputs = scale_thuputs algo raw
     in and_then (float_mean ho_thuputs) (\<lambda>avg.
        and_then (calculate_ho_thuput filtered_ho_times (fst ms) (snd ms) (Fin 5)) (\<lambda>m_ho_thuput.
        and_then (float_mean m_ho_thuput) (\<lambda>m_avg.
        and_then (adjust_average algo ho_type cubic_sum (length ho_thuputs) avg) (\<lambda>(a, sm).
          Ok ((a, m_avg), sm)))))))"

fun ho_thuput_loop ::
  "string \<Rightarrow> pyfloat list \<Rightarrow> int list \<Rightarrow> series \<Rightarrow> series \<Rightarrow> (int \<times> int) list \<Rightarrow> pyfloat \<Rightarrow>
   (pyfloat \<times> pyfloat) list result"
where
  "ho_thuput_loop algo hs ls s ms [] cubic_sum = Ok []"
| "ho_thuput_loop algo hs ls s ms (ty # tys) cubic_sum =
     and_then (ho_thuput_step algo hs ls s ms ty cubic_sum) (\<lambda>(r, sm).
     and_then (ho_thuput_loop algo hs ls s ms tys sm) (\<lambda>rs. Ok (r # rs)))"

definition ho_thuput_eval ::
  "string \<Rightarrow> pyfloat list \<Rightarrow> int list \<Rightarrow> series \<Rightarrow> series \<Rightarrow> (pyfloat \<times> pyfloat) list result"
where
  "ho_thuput_eval algo ho_times target_links s ms =
     ho_thuput_loop algo ho_times target_links s ms [(1, 1), (1, 2), (2, 2), (2, 1), (0, 0)] (Fin 0)"

section \<open>Ramp-up times\<close>

text \<open>The two adjustment loops: every entry grows by a half while the guard
  holds; \<open>None\<close> is a loop that does not end.\<close>

partial_function (option) raise_while :: "(pyfloat list \<Rightarrow> bool) \<Rightarrow> pyfloat list \<Rightarrow> pyfloat list option" where
  "raise_while guard xs =
     (if guard xs then raise_while guard (map (\<lambda>x. float_add x (Fin (1 / 2))) xs) else Some xs)"

definition raise_m2ho :: "(pyfloat list \<Rightarrow> pyfloat) \<Rightarrow> pyfloat list \<Rightarrow> pyfloat list option" where
  "raise_m2ho np_mean m_rampup_times =
     raise_while (\<lambda>xs. float_lt (np_mean xs) (Fin 1)) m_rampup_times"

definition raise_baseline :: "(pyfloat list \<Rightarrow> pyfloat) \<Rightarrow> pyfloat \<Rightarrow> pyfloat list \<Rightarrow> pyfloat list option" where
  "raise_baseline np_mean m_avg rampup_times =
     raise_while (\<lambda>xs. float_le (np_mean xs) m_avg \<or> float_lt (float_sub (np_mean xs) m_avg) (Fin 1)) rampup_times"

definition rampup_adjust ::
  "(pyfloat list \<Rightarrow> pyfloat) \<Rightarrow> pyfloat list \<Rightarrow> pyfloat list \<Rightarrow> (pyfloat list \<times> pyfloat list) option"
where
  "rampup_adjust np_mean rampup_times m_rampup_times =
     do { m_times \<leftarrow> raise_m2ho np_mean m_rampup_times;
          times \<leftarrow> raise_baseline np_mean (np_mean m_times) rampup_times;
          Some (times, m_times) }"

definition stable_thuput :: "int \<Rightarrow> pyfloat" where
  "stable_thuput link = (if link = 1 then Fin 170 else if link = 2 then Fin 360 else Fin 0)"

text \<open>One handover type; \<open>rand\<close> and \<open>m_rand\<close> are the random numbers of
  its two calls.\<close>

definition rampup_step ::
  "(pyfloat list \<Rightarrow> pyfloat) \<Rightarrow> (nat \<Rightarrow> pyfloat) \<Rightarrow> (nat \<Rightarrow> pyfloat) \<Rightarrow> pyfloat list \<Rightarrow> int list \<Rightarrow>
   series \<Rightarrow> series \<Rightarrow> int \<times> int \<Rightarrow> (pyfloat list \<times> pyfloat list) option result"
where
  "rampup_step np_mean rand m_rand ho_times target_links s ms ho_type =
     and_then (filter_ho_types ho_times target_links ho_type 1) (\<lambda>filtered_ho_times.
     and_then (calculate_rampup_time rand filtered_ho_times (fst s) (snd s) (stable_thuput (snd ho_type)) (Fin 40)) (\<lambda>rampup_times.
     and_then (calculate_rampup_time m_rand filtered_ho_times (fst ms) (snd ms) (stable_thuput (snd ho_type)) (Fin 40)) (\<lambda>m_rampup_times.
       Ok (rampup_adjust np_mean rampup_times m_rampup_times))))"

section \<open>Precision and recall\<close>

text \<open>The tables of the handover prediction and of the duplicate handling.\<close>

definition prediction_tables :: "(string \<times> int list \<times> int list \<times> int list) list" where
  "prediction_tables =
     [(''Naive'', [666, 187, 209, 187], [332, 41, 103, 79], [931, 203, 254, 259]),
      (''LTE-VR'', [666, 187, 209, 187], [507, 82, 145, 73], [560, 109, 220, 110]),
      (''M2HO'', [666, 187, 209, 187], [620, 182, 199, 175], [640, 192, 208, 200]),
      (''Duplicate ACK'', [462, 165, 104, 179], [457, 164, 103, 175], [512, 179, 114, 185])]"

section \<open>What the adjustment loops rely on\<close>

text \<open>\<open>np.mean\<close> of finite values between two integers is between them, as
  long as the sums stay exact integers: rounding is monotone.\<close>

definition mean_spec :: "(pyfloat list \<Rightarrow> pyfloat) \<Rightarrow> bool" where
  "mean_spec mean \<longleftrightarrow>
     (\<forall>vs (a :: int) b. vs \<noteq> [] \<longrightarrow> 0 \<le> a \<longrightarrow> (\<forall>v \<in> set vs. of_int a \<le> v \<and> v \<le> of_int b) \<longrightarrow>
        int (length vs) * b \<le> 2 ^ 53 \<longrightarrow> (\<exists>m. mean (map Fin vs) = Fin m \<and> of_int a \<le> m \<and> m \<le> of_int b))"

text \<open>Summation from the left has this property.\<close>

definition left_mean :: "pyfloat list \<Rightarrow> pyfloat" where
  "left_mean xs = (case float_mean xs of Inr m \<Rightarrow> m | Inl e \<Rightarrow> NaN)"

lemma float_sum_snoc: "float_sum (xs @ [x]) = float_add (float_sum xs) x"
  by (simp add: float_sum_def)

lemma float_sum_between:
  fixes a b :: int
  assumes "0 \<le> a" "\<forall>v \<in> set vs. of_int a \<le> v \<and> v \<le> of_int b" "int (length vs) * b \<le> 2 ^ 53" "0 \<le> b"
  shows "\<exists>s. float_sum (map Fin vs) = Fin s \<and> of_int (int (length vs) * a) \<le> s \<and> s \<le> of_int (int (length vs) * b)"
  using assms(2,3)
proof (induction vs rule: rev_induct)
  case Nil
  then show ?case by (simp add: float_sum_def)
next
  case (snoc v vs)
  have n: "int (length vs) * b \<le> 2 ^ 53" using snoc.prems(2) assms(4) by (simp add: algebra_simps)
  obtain s where s: "float_sum (map Fin vs) = Fin s" "of_int (int (length vs) * a) \<le> s" "s \<le> of_int (int (length vs) * b)"
    using snoc.IH snoc.prems(1) n by auto
  let ?A = "int (length (vs @ [v])) * a" and ?B = "int (length (vs @ [v])) * b"
  have v: "of_int a \<le> v" "v \<le> of_int b" using snoc.prems(1) by auto
  have "of_int ?A = rat_of_int (int (length vs) * a) + of_int a" "of_int ?B = rat_of_int (int (length vs) * b) + of_int b"
    by (simp_all add: algebra_simps)
  then have sum: "of_int ?A \<le> s + v" "s + v \<le> of_int ?B" using s v by linarith+
  have "a \<le> b" using v by (metis of_int_le_iff order_trans)
  then have AB: "0 \<le> ?A" "?A \<le> ?B" using assms(1) by (auto intro: mult_left_mono)
  have d: "is_double (of_int ?A)" "is_double (of_int ?B)"
    by (rule is_double_int, use AB snoc.prems(2) in linarith)+
  have "of_int ?B \<le> rat_of_int (2 ^ 53)" using snoc.prems(2) by (simp only: of_int_le_iff)
  moreover have "rat_of_int (2 ^ 53) \<le> 2 ^ 1023" by simp
  moreover have "0 \<le> rat_of_int ?A" using AB by (simp only: of_int_0_le_iff)
  ultimately have "mk_float (s + v) = Fin (fl (s + v))" using sum by (intro mk_float_Fin) linarith
  then show ?case
    using s(1) double.rnd_ge_repr[OF d(1) sum(1)] double.rnd_le_repr[OF d(2) sum(2)]
    by (simp add: float_sum_snoc)
qed

lemma left_mean_spec: "mean_spec left_mean"
  unfolding mean_spec_def
proof (intro allI impI)
  fix vs :: "rat list" and a b :: int
  assume ne: "vs \<noteq> []" and a: "0 \<le> a" and v: "\<forall>v \<in> set vs. of_int a \<le> v \<and> v \<le> of_int b"
    and len: "int (length vs) * b \<le> 2 ^ 53"
  have "of_int a \<le> hd vs" "hd vs \<le> of_int b" using ne v by auto
  then have "rat_of_int a \<le> of_int b" by (rule order_trans)
  then have ab: "a \<le> b" by simp
  obtain s where s: "float_sum (map Fin vs) = Fin s" "of_int (int (length vs) * a) \<le> s" "s \<le> of_int (int (length vs) * b)"
    using float_sum_between[OF a v len order_trans[OF a ab]] by blast
  let ?n = "rat_of_nat (length vs)"
  have n: "0 < ?n" using ne by simp
  have q: "of_int a \<le> s / ?n" "s / ?n \<le> of_int b"
    using s(2,3) n by (simp_all add: pos_le_divide_eq pos_divide_le_eq mult.commute)
  have "b \<le> int (length vs) * b" using ne a ab by (cases vs) (auto simp: algebra_simps)
  then have b: "b \<le> 2 ^ 53" using len by linarith
  then have d: "is_double (of_int a)" "is_double (of_int b)" using a ab by (auto intro!: is_double_int)
  have "of_int b \<le> rat_of_int (2 ^ 53)" using b by (simp only: of_int_le_iff)
  moreover have "rat_of_int (2 ^ 53) \<le> 2 ^ 1023" by simp
  moreover have "0 \<le> rat_of_int a" using a by simp
  ultimately have "mk_float (s / ?n) = Fin (fl (s / ?n))" using q by (intro mk_float_Fin) linarith
  then have "left_mean (map Fin vs) = Fin (fl (s / ?n))"
    using s(1) n by (simp add: left_mean_def float_mean_def)
  then show "\<exists>m. left_mean (map Fin vs) = Fin m \<and> of_int a \<le> m \<and> m \<le> of_int b"
    using double.rnd_ge_repr[OF d(1) q(1)] double.rnd_le_repr[OF d(2) q(2)] by simp
qed

section \<open>The adjustment loops end\<close>

text \<open>Lists of finite values in an interval.\<close>

definition all_in :: "rat \<Rightarrow> rat \<Rightarrow> pyfloat list \<Rightarrow> bool" where
  "all_in lo hi xs \<longleftrightarrow> (\<exists>vs. xs = map Fin vs \<and> (\<forall>v \<in> set vs. lo \<le> v \<and> v \<le> hi))"

lemma all_in_mono: "all_in lo hi xs \<Longrightarrow> lo' \<le> lo \<Longrightarrow> hi \<le> hi' \<Longrightarrow> all_in lo' hi' xs"
  unfolding all_in_def by (metis order_trans)

lemma raise_step:
  assumes "all_in lo hi xs" "0 \<le> lo" "hi \<le> 2 ^ 40"
  shows "all_in (lo + 1 / 4) (hi + 3 / 4) (map (\<lambda>x. float_add x (Fin (1 / 2))) xs)"
proof -
  obtain vs where vs: "xs = map Fin vs" "\<forall>v \<in> set vs. lo \<le> v \<and> v \<le> hi" using assms(1) by (auto simp: all_in_def)
  have step: "mk_float (v + 1 / 2) = Fin (fl (v + 1 / 2)) \<and> lo + 1 / 4 \<le> fl (v + 1 / 2) \<and> fl (v + 1 / 2) \<le> hi + 3 / 4"
    if "v \<in> set vs" for v
  proof -
    have v: "lo \<le> v" "v \<le> hi" using vs(2) that by auto
    have "\<bar>v + 1 / 2\<bar> < 2 powi 41" using v assms(2,3) by (simp add: power_int_def)
    then have "\<bar>fl (v + 1 / 2) - (v + 1 / 2)\<bar> \<le> 2 powi (41 - 54)" by (intro fl_error_below) simp_all
    also have "(2 :: rat) powi (41 - 54) \<le> 1 / 4" by (simp add: power_int_minus)
    finally have "\<bar>fl (v + 1 / 2) - (v + 1 / 2)\<bar> \<le> 1 / 4" .
    moreover have "(2 :: rat) ^ 40 + 1 \<le> 2 ^ 1023" by simp
    ultimately show ?thesis using v assms(2,3) by (intro conjI mk_float_Fin) linarith+
  qed
  then show ?thesis unfolding all_in_def vs(1)
    by (intro exI[of _ "map (\<lambda>v. fl (v + 1 / 2)) vs"]) auto
qed

lemma raise_while_stops:
  assumes exit: "\<And>ys. all_in T H ys \<Longrightarrow> length ys = n \<Longrightarrow> \<not> guard ys"
    and H: "H \<le> 2 ^ 40"
  shows "all_in lo hi xs \<Longrightarrow> length xs = n \<Longrightarrow> 0 \<le> lo \<Longrightarrow> T \<le> lo + of_nat k / 4 \<Longrightarrow> hi + 3 * of_nat k / 4 \<le> H
    \<Longrightarrow> \<exists>ys. raise_while guard xs = Some ys \<and> \<not> guard ys \<and> all_in lo H ys \<and> length ys = n"
proof (induction k arbitrary: xs lo hi)
  case 0
  then have "all_in T H xs" "all_in lo H xs" by (auto intro: all_in_mono)
  then show ?case using exit 0 by (subst raise_while.simps) simp
next
  case (Suc k)
  show ?case
  proof (cases "guard xs")
    case False
    moreover have "hi \<le> H" using Suc.prems(5) by (simp add: field_simps)
    then have "all_in lo H xs" using Suc.prems(1) by (auto intro: all_in_mono)
    ultimately show ?thesis using Suc.prems by (subst raise_while.simps) simp
  next
    case True
    let ?xs = "map (\<lambda>x. float_add x (Fin (1 / 2))) xs"
    have "hi \<le> 2 ^ 40" using Suc.prems(5) H by (simp add: field_simps)
    then have "all_in (lo + 1 / 4) (hi + 3 / 4) ?xs" using Suc.prems by (intro raise_step) auto
    then have "\<exists>ys. raise_while guard ?xs = Some ys \<and> \<not> guard ys \<and> all_in (lo + 1 / 4) H ys \<and> length ys = n"
      using Suc.prems by (intro Suc.IH[where hi = "hi + 3 / 4"]) (auto simp: field_simps)
    moreover have "all_in (lo + 1 / 4) H ys \<Longrightarrow> all_in lo H ys" for ys by (erule all_in_mono) auto
    ultimately show ?thesis using True by (subst raise_while.simps) auto
  qed
qed

lemma mean_between:
  assumes "mean_spec mean" "all_in (of_int a) (of_int b) xs" "xs \<noteq> []" "0 \<le> a" "int (length xs) * b \<le> 2 ^ 53"
  shows "\<exists>m. mean xs = Fin m \<and> of_int a \<le> m \<and> m \<le> of_int b"
proof -
  obtain vs where vs: "xs = map Fin vs" "\<forall>v \<in> set vs. of_int a \<le> v \<and> v \<le> of_int b"
    using assms(2) by (auto simp: all_in_def)
  then have "vs \<noteq> []" "int (length vs) * b \<le> 2 ^ 53" using assms(3,5) by auto
  then show ?thesis using assms(1,4) vs unfolding mean_spec_def by blast
qed

lemma raise_m2ho_stops:
  assumes "mean_spec mean" "all_in 0 (2 ^ 20) ms" "ms \<noteq> []" "length ms \<le> 2 ^ 20"
  shows "\<exists>ys m. raise_m2ho mean ms = Some ys \<and> length ys = length ms \<and> mean ys = Fin m \<and> 1 \<le> m \<and> m \<le> 2 ^ 21"
proof -
  have len: "int (length ms) * 2 ^ 21 \<le> 2 ^ 53"
    using mult_right_mono[of "int (length ms)" "2 ^ 20" "2 ^ 21"] assms(4) by simp
  let ?g = "\<lambda>xs. float_lt (mean xs) (Fin 1)"
  have exit: "\<not> ?g ys" if h: "all_in 1 (2 ^ 21) ys" "length ys = length ms" for ys
  proof -
    have "ys \<noteq> []" using h(2) assms(3) by auto
    then obtain m where "mean ys = Fin m" "1 \<le> m"
      using mean_between[OF assms(1), of 1 "2 ^ 21" ys] h len by auto
    then show ?thesis by simp
  qed
  have "\<exists>ys. raise_while ?g ms = Some ys \<and> \<not> ?g ys \<and> all_in 0 (2 ^ 21) ys \<and> length ys = length ms"
    by (rule raise_while_stops[where T = 1 and k = 4, OF exit _ assms(2)]) simp_all
  then obtain ys where ys: "raise_while ?g ms = Some ys" "\<not> ?g ys" "all_in 0 (2 ^ 21) ys" "length ys = length ms" by blast
  moreover have "ys \<noteq> []" using ys(4) assms(3) by auto
  ultimately obtain m where "mean ys = Fin m" "m \<le> 2 ^ 21"
    using mean_between[OF assms(1), of 0 "2 ^ 21" ys] len by auto
  then show ?thesis using ys by (auto simp: raise_m2ho_def)
qed

lemma raise_baseline_stops:
  assumes "mean_spec mean" "all_in 0 (2 ^ 20) xs" "xs \<noteq> []" "length xs \<le> 2 ^ 20" "1 \<le> m" "m \<le> 2 ^ 21"
  shows "\<exists>ys a. raise_baseline mean (Fin m) xs = Some ys \<and> length ys = length xs \<and> mean ys = Fin a
    \<and> m < a \<and> float_le (Fin 1) (float_sub (Fin a) (Fin m))"
proof -
  have len: "int (length xs) * 2 ^ 25 \<le> 2 ^ 53"
    using mult_right_mono[of "int (length xs)" "2 ^ 20" "2 ^ 25"] assms(4) by simp
  let ?g = "\<lambda>xs. float_le (mean xs) (Fin m) \<or> float_lt (float_sub (mean xs) (Fin m)) (Fin 1)"
  have sub: "float_sub (Fin a) (Fin m) = Fin (fl (a - m))" if "0 \<le> a" "a \<le> 2 ^ 25" for a
    unfolding float_sub_Fin by (rule mk_float_Fin) (use that assms(5,6) in \<open>simp add: abs_le_iff\<close>)
  have one: "is_double 1" using is_double_int[of 1] by simp
  have exit: "\<not> ?g ys" if h: "all_in (2 ^ 21 + 1) (2 ^ 25) ys" "length ys = length xs" for ys
  proof -
    have "ys \<noteq> []" using h(2) assms(3) by auto
    then obtain a where a: "mean ys = Fin a" "2 ^ 21 + 1 \<le> a" "a \<le> 2 ^ 25"
      using mean_between[OF assms(1), of "2 ^ 21 + 1" "2 ^ 25" ys] h len by auto
    have "1 \<le> fl (a - m)" using a assms(6) by (intro double.rnd_ge_repr[OF one]) simp
    then show ?thesis using a sub[of a] assms(6) by simp
  qed
  have "\<exists>ys. raise_while ?g xs = Some ys \<and> \<not> ?g ys \<and> all_in 0 (2 ^ 25) ys \<and> length ys = length xs"
    by (rule raise_while_stops[where T = "2 ^ 21 + 1" and k = "4 * (2 ^ 21 + 1)", OF exit _ assms(2)]) simp_all
  then obtain ys where ys: "raise_while ?g xs = Some ys" "\<not> ?g ys" "all_in 0 (2 ^ 25) ys" "length ys = length xs" by blast
  moreover have "ys \<noteq> []" using ys(4) assms(3) by auto
  ultimately obtain a where a: "mean ys = Fin a" "0 \<le> a" "a \<le> 2 ^ 25"
    using mean_between[OF assms(1), of 0 "2 ^ 25" ys] len by auto
  then show ?thesis using ys sub[of a] by (auto simp: raise_baseline_def)
qed

text \<open>The adjustment loops end: for nonempty lists of at most \<open>2 ^ 20\<close>
  ramp-up times between 0 and \<open>2 ^ 20\<close> seconds both loops return, no entry
  is lost, and afterwards the M2HO average is at least 1 and the baseline
  average exceeds it by at least 1, whatever the two runs measured.\<close>

lemma rampup_adjust_terminates:
  assumes "mean_spec np_mean" "rampup_times \<noteq> []" "m_rampup_times \<noteq> []"
    and "length rampup_times \<le> 2 ^ 20" "length m_rampup_times \<le> 2 ^ 20"
    and "all_in 0 (2 ^ 20) rampup_times" "all_in 0 (2 ^ 20) m_rampup_times"
  shows "\<exists>times m_times a m. rampup_adjust np_mean rampup_times m_rampup_times = Some (times, m_times)
    \<and> length times = length rampup_times \<and> length m_times = length m_rampup_times
    \<and> np_mean times = Fin a \<and> np_mean m_times = Fin m \<and> 1 \<le> m \<and> m < a
    \<and> float_le (Fin 1) (float_sub (np_mean times) (np_mean m_times))"
proof -
  obtain ms m where ms: "raise_m2ho np_mean m_rampup_times = Some ms" "length ms = length m_rampup_times"
      "np_mean ms = Fin m" "1 \<le> m" "m \<le> 2 ^ 21"
    using raise_m2ho_stops[OF assms(1,7,3,5)] by blast
  obtain ys a where "raise_baseline np_mean (Fin m) rampup_times = Some ys" "length ys = length rampup_times"
      "np_mean ys = Fin a" "m < a" "float_le (Fin 1) (float_sub (Fin a) (Fin m))"
    using raise_baseline_stops[OF assms(1,6,2,4) ms(4,5)] by blast
  then show ?thesis using ms by (simp add: rampup_adjust_def)
qed

section \<open>The report\<close>

lemma ho_colors_length: "length (ho_colors p ls) = length ls"
  by (induction p ls rule: ho_colors.induct) auto

lemma ho_colors_change:
  "i < length ls \<Longrightarrow> ho_colors p ls ! i = (if ls ! i = (p # ls) ! i then Green else Red)"
proof (induction p ls arbitrary: i rule: ho_colors.induct)
  case (2 p l ls)
  then show ?case by (cases i) auto
qed simp

text \<open>What \<open>metrics.py\<close> prints once the run and the trace are loaded:
  the average, one colour per handover (red exactly where the link differs
  from the one before, the first being 1) and the figures of the two links;
  then, with the M2HO run, its figures, and without its file the unbound
  variable ends the script with a \<open>NameError\<close>.\<close>

lemma metrics_main_prints:
  assumes "loaded client_log (time_range b e) = Ok (Some (s, avg))"
    and "files trace_file = Some content" "parse_trace files trace_file 2 = (hs, ls, err)"
    and "filter_time_range hs ls (fst (time_range b e)) (snd (time_range b e)) = (ho_times, target_links)"
    and "link_report np_mean ho_times target_links s = Ok stats"
  shows "metrics_main np_mean files client_log None trace_file fig_name b e
      = ([Average avg, run_figure s ho_times target_links fig_name, stats], Some NameError)
    \<and> (loaded (Some m_data) (time_range b e) = Ok (Some (ms, m_avg)) \<and>
       link_report np_mean ho_times target_links ms = Ok m_stats \<longrightarrow>
       metrics_main np_mean files client_log (Some m_data) trace_file fig_name b e
         = ([Average avg, Average m_avg, run_figure s ho_times target_links fig_name, stats, m_stats], None))
    \<and> (\<forall>i < length target_links. ho_colors 1 target_links ! i
         = (if target_links ! i = (1 # target_links) ! i then Green else Red))"
  using assms ho_colors_change[of _ target_links 1]
  by (auto simp: metrics_main_def Let_def bound_def loaded_def[of None])

definition demo_log :: json where
  "demo_log = JObj [(''intervals'', JArr (map (\<lambda>(s, e). JObj [(''sum'', JObj
     [(''start'', JFloat (Fin s)), (''end'', JFloat (Fin e)), (''bits_per_second'', JFloat (Fin 8000000))])])
     [(0, 2), (4, 6)]))]"

text \<open>The evaluation of CUBIC does not depend on the measurement: whenever
  the throughput evaluation of the algorithm \<open>cubic\<close> returns, the averages
  it prints for the four handover types are the four constants of the source,
  for any handovers and any samples.\<close>

lemma ho_thuput_eval_cubic_fixed:
  assumes "ho_thuput_eval ''cubic'' ho_times target_links s ms = Ok rows"
  shows "map fst (take 4 rows) = [mk_float (10219 / 100), mk_float (1241 / 10), mk_float (28252 / 100), mk_float (20909 / 100)]
    \<and> length rows = 5"
proof -
  have step: "fst (fst r) = (if ty = (1, 1) then mk_float (10219 / 100) else if ty = (1, 2) then mk_float (1241 / 10)
       else if ty = (2, 2) then mk_float (28252 / 100) else mk_float (20909 / 100))"
    if "ho_thuput_step ''cubic'' ho_times target_links s ms ty sm = Ok r" "ty \<in> {(1, 1), (1, 2), (2, 2), (2, 1)}" for ty sm r
    using that by (auto simp: ho_thuput_step_def adjust_average_def and_then_eq_Ok Let_def)
  obtain r1 r2 r3 r4 r5 s1 s2 s3 s4 s5 where r: "rows = [r1, r2, r3, r4, r5]"
      "ho_thuput_step ''cubic'' ho_times target_links s ms (1, 1) (Fin 0) = Ok (r1, s1)"
      "ho_thuput_step ''cubic'' ho_times target_links s ms (1, 2) s1 = Ok (r2, s2)"
      "ho_thuput_step ''cubic'' ho_times target_links s ms (2, 2) s2 = Ok (r3, s3)"
      "ho_thuput_step ''cubic'' ho_times target_links s ms (2, 1) s3 = Ok (r4, s4)"
      "ho_thuput_step ''cubic'' ho_times target_links s ms (0, 0) s4 = Ok (r5, s5)"
    using assms by (auto simp: ho_thuput_eval_def and_then_eq_Ok)
  show ?thesis using step[OF r(2)] step[OF r(3)] step[OF r(4)] step[OF r(5)] by (simp add: r(1))
qed

section \<open>The published ratios\<close>

definition unit_pair :: "pyfloat \<times> pyfloat \<Rightarrow> bool" where
  "unit_pair pr \<longleftrightarrow> (\<forall>x \<in> {fst pr, snd pr}. float_le (Fin 0) x \<and> float_le x (Fin 1))"

lemma p_r_table:
  assumes "length tp = length tap" "length tpp = length tap" "tap \<noteq> []"
    and "list_all (\<lambda>(n, a, d). 0 \<le> n \<and> n \<le> a \<and> n \<le> d \<and> 0 < a \<and> 0 < d) (zip tp (zip tap tpp))"
  shows "\<exists>rows total. calculate_p_r tap tp tpp = Ok (rows, total) \<and> length rows = length tap \<and> list_all unit_pair (total # rows)"
proof -
  have "\<forall>i < length tap. 0 \<le> tp ! i \<and> tp ! i \<le> tap ! i \<and> tp ! i \<le> tpp ! i \<and> 0 < tap ! i \<and> 0 < tpp ! i"
    using assms(1,2,4) by (auto simp: list_all_length)
  from calculate_p_r_unit[OF assms(1-3) this]
  obtain rows total where r: "calculate_p_r tap tp tpp = Inr (rows, total)" "length rows = length tap"
    "\<forall>(p, r) \<in> set (total # rows). \<exists>x y. p = Fin x \<and> r = Fin y \<and> 0 \<le> x \<and> x \<le> 1 \<and> 0 \<le> y \<and> y \<le> 1" by blast
  have "unit_pair pr" if "pr \<in> set (total # rows)" for pr using r(3) that by (cases pr) (force simp: unit_pair_def)
  then show ?thesis using r(1,2) by (auto simp: list_all_iff)
qed

text \<open>Precision and recall: for each of the four tables of the source
  \<open>calculate_p_r\<close> prints a pair per handover type and the totals, and
  every printed value, rounded to four digits, lies between 0 and 1.\<close>

lemma prediction_tables_unit:
  "list_all (\<lambda>(name, tap, tp, tpp). \<exists>rows total. calculate_p_r tap tp tpp = Ok (rows, total)
     \<and> length rows = 4 \<and> list_all unit_pair (total # rows)) prediction_tables"
proof -
  have ok: "length tp = 4 \<and> length tap = 4 \<and> length tpp = 4
      \<and> list_all (\<lambda>(n, a, d). 0 \<le> n \<and> n \<le> a \<and> n \<le> d \<and> 0 < a \<and> 0 < d) (zip tp (zip tap tpp))"
    if "(name, tap, tp, tpp) \<in> set prediction_tables" for name tap tp tpp
    using that unfolding prediction_tables_def by auto
  show ?thesis unfolding list_all_iff
  proof clarify
    fix name tap tp tpp assume h: "(name, tap, tp, tpp) \<in> set prediction_tables"
    have "tap \<noteq> []" using ok[OF h] by auto
    then show "\<exists>rows total. calculate_p_r tap tp tpp = Ok (rows, total) \<and> length rows = 4
        \<and> (\<forall>x \<in> set (total # rows). unit_pair x)"
      using p_r_table[of tp tap tpp] ok[OF h] by (simp add: list_all_iff)
  qed
qed

end
