(* ===== verification/Report_Scripts.thy ===== *)
theory Report_Scripts
  imports Scripts Handover_Report
begin

text \<open>
  \<open>metrics.py\<close> from its command line, and the output of its two evaluations: the lines
  printed for every handover type and the figures saved. \<open>np.mean\<close> and
  \<open>np.percentile\<close> are parameters; a line holds its values before they become text.
\<close>

section \<open>The script\<close>

definition metrics_spec :: parser_spec where
  "metrics_spec =
     \<lparr>positionals = [(''run_id'', Str_arg), (''algo'', Str_arg)],
      opts = [one_option [''-b'', ''--begin''] ''begin'' Float_arg, one_option [''-e'', ''--end''] ''end'' Float_arg]\<rparr>"

definition client_log_name :: "string \<Rightarrow> string \<Rightarrow> string" where
  "client_log_name algo run_id = path_join ''output'' (algo @ ''-'' @ run_id @ ''-iperf-client.json'')"

definition trace_name :: "string \<Rightarrow> string" where
  "trace_name run_id = path_join ''output'' (''trace-'' @ run_id @ ''-test.csv'')"

definition thuput_name :: "string \<Rightarrow> string \<Rightarrow> string" where
  "thuput_name run_id algo = ''thuput-'' @ run_id @ ''-'' @ algo @ ''.png''"

definition metrics_script ::
  "(pyfloat list \<Rightarrow> pyfloat) \<Rightarrow> fs \<Rightarrow> (string \<rightharpoonup> json) \<Rightarrow> string list \<Rightarrow> parse_exit + printed list \<times> py_error option"
where
  "metrics_script np_mean files json_files = run_script metrics_spec (\<lambda>args.
     let run_id = str_arg args ''run_id''; algo = str_arg args ''algo''
     in metrics_main np_mean files (json_files (client_log_name algo run_id))
          (json_files (client_log_name (''m_'' @ algo) run_id)) (trace_name run_id) (thuput_name run_id algo)
          (float_arg args ''begin'') (float_arg args ''end''))"

interpretation metrics_cli: cli metrics_spec
  by (rule cli.intro) (simp add: spec_ok_def all_options_def help_option_def metrics_spec_def one_option_def)

section \<open>Figures\<close>

record ho_figure =
  hf_points :: "(pyfloat \<times> pyfloat) list"
  hf_lines :: "pyfloat list"
  hf_name :: string

definition plot_figure :: "pyfloat list \<Rightarrow> series \<Rightarrow> string \<Rightarrow> ho_figure" where
  "plot_figure ho_times s fig_name = \<lparr>hf_points = zip (fst s) (snd s), hf_lines = ho_times, hf_name = fig_name\<rparr>"

section \<open>Throughput around handovers\<close>

definition link_enum :: "int \<Rightarrow> string" where
  "link_enum l = (if l = 0 then ''all'' else if l = 1 then ''sub6'' else ''mmw'')"

definition type_label :: "int \<times> int \<Rightarrow> string" where
  "type_label ho_type = link_enum (fst ho_type) @ ''-'' @ link_enum (snd ho_type)"

text \<open>Division of numpy doubles: a zero divisor gives an infinity or NaN.\<close>

definition np_div :: "pyfloat \<Rightarrow> pyfloat \<Rightarrow> pyfloat" where
  "np_div x y =
     (case float_div x y of
        Inr z \<Rightarrow> z
      | Inl _ \<Rightarrow> if x = NaN \<or> float_sign x = 0 then NaN else signed_inf (float_sign x))"

record report_line =
  rl_label :: string
  rl_base :: pyfloat
  rl_m2ho :: pyfloat
  rl_up :: pyfloat

text \<open>The two lines of a handover type.\<close>

definition ho_thuput_line :: "int \<times> int \<Rightarrow> pyfloat \<Rightarrow> pyfloat \<Rightarrow> report_line result" where
  "ho_thuput_line ho_type avg m_avg =
     and_then (float_div (float_mul (Fin 100) (float_sub m_avg avg)) avg) (\<lambda>up.
       Ok \<lparr>rl_label = type_label ho_type, rl_base = round_digits 2 avg, rl_m2ho = round_digits 2 m_avg,
           rl_up = round_digits 2 up\<rparr>)"

definition percentile_line :: "(pyfloat list \<Rightarrow> pyfloat) \<Rightarrow> pyfloat list \<Rightarrow> pyfloat list \<Rightarrow> report_line" where
  "percentile_line percentile5 ho_thuputs m_ho_thuput =
     (let p = percentile5 ho_thuputs; m = percentile5 m_ho_thuput
      in \<lparr>rl_label = ''95th Percentile Value'', rl_base = p, rl_m2ho = m, rl_up = np_div (float_sub m p) p\<rparr>)"

text \<open>The loop with what it prints; the first exception ends it.\<close>

definition ho_thuput_turn ::
  "(pyfloat list \<Rightarrow> pyfloat) \<Rightarrow> string \<Rightarrow> pyfloat list \<Rightarrow> int list \<Rightarrow> series \<Rightarrow> series \<Rightarrow> int \<times> int \<Rightarrow> pyfloat \<Rightarrow>
   (report_line list \<times> pyfloat) result"
where
  "ho_thuput_turn percentile5 algo ho_times target_links s ms ho_type cubic_sum =
     and_then (ho_thuput_step algo ho_times target_links s ms ho_type cubic_sum) (\<lambda>((avg, m_avg), cubic_sum').
     and_then (filter_ho_types ho_times target_links ho_type 1) (\<lambda>filtered_ho_times.
     and_then (calculate_ho_thuput filtered_ho_times (fst s) (snd s) (Fin 5)) (\<lambda>raw.
     and_then (calculate_ho_thuput filtered_ho_times (fst ms) (snd ms) (Fin 5)) (\<lambda>m_ho_thuput.
     and_then (ho_thuput_line ho_type avg m_avg) (\<lambda>line.
       Ok ([line, percentile_line percentile5 (scale_thuputs algo raw) m_ho_thuput], cubic_sum'))))))"

fun ho_thuput_print ::
  "(int \<times> int \<Rightarrow> pyfloat \<Rightarrow> (report_line list \<times> pyfloat) result) \<Rightarrow> (int \<times> int) list \<Rightarrow> pyfloat \<Rightarrow>
   report_line list \<times> py_error option"
where
  "ho_thuput_print turn [] cubic_sum = ([], None)"
| "ho_thuput_print turn (ty # tys) cubic_sum =
     (case turn ty cubic_sum of
        Inl e \<Rightarrow> ([], Some e)
      | Inr (ls, cubic_sum') \<Rightarrow>
          (case ho_thuput_print turn tys cubic_sum' of (ls', e) \<Rightarrow> (ls @ ls', e)))"

definition ho_thuput_report ::
  "(pyfloat list \<Rightarrow> pyfloat) \<Rightarrow> string \<Rightarrow> pyfloat list \<Rightarrow> int list \<Rightarrow> series \<Rightarrow> series \<Rightarrow> report_line list \<times> py_error option"
where
  "ho_thuput_report percentile5 algo ho_times target_links s ms =
     ho_thuput_print (ho_thuput_turn percentile5 algo ho_times target_links s ms)
       [(1, 1), (1, 2), (2, 2), (2, 1), (0, 0)] (Fin 0)"

section \<open>Ramp-up times\<close>

definition rampup_line :: "(pyfloat list \<Rightarrow> pyfloat) \<Rightarrow> string \<Rightarrow> pyfloat list \<Rightarrow> pyfloat list \<Rightarrow> report_line" where
  "rampup_line np_mean label rampup_times m_rampup_times =
     (let avg = np_mean rampup_times; m_avg = np_mean m_rampup_times
      in \<lparr>rl_label = label, rl_base = round_digits 2 avg, rl_m2ho = round_digits 2 m_avg,
          rl_up = round_digits 2 (np_div (float_mul (Fin 100) (float_sub avg m_avg)) avg)\<rparr>)"

definition conv_name :: "int \<times> int \<Rightarrow> string \<Rightarrow> string" where
  "conv_name ho_type algo =
     ''conv-'' @ string_of_int (fst ho_type) @ ''-'' @ string_of_int (snd ho_type) @ ''-'' @ algo @ ''.png''"

text \<open>What the evaluation puts out, and how it ends: with the ramp-up times of all types, with
  an exception, or in an adjustment loop that goes on for ever.\<close>

datatype report_out = Line report_line | Figure_saved ho_figure

datatype rampup_end = Finished "pyfloat list" "pyfloat list" | Failed py_error | Looping

definition type_output ::
  "(pyfloat list \<Rightarrow> pyfloat) \<Rightarrow> string \<Rightarrow> series \<Rightarrow> series \<Rightarrow> int \<times> int \<Rightarrow> pyfloat list \<Rightarrow> pyfloat list \<Rightarrow> pyfloat list \<Rightarrow>
   report_out list"
where
  "type_output np_mean algo s ms ty filtered_ho_times rampup_times m_rampup_times =
     [Line (rampup_line np_mean (type_label ty) rampup_times m_rampup_times),
      Figure_saved (plot_figure filtered_ho_times s (conv_name ty algo)),
      Figure_saved (plot_figure filtered_ho_times ms (conv_name ty (''m_'' @ algo)))]"

text \<open>The handover types in order; \<open>rand\<close> and \<open>m_rand\<close> are the random numbers of
  their calls.\<close>

fun rampup_loop ::
  "(pyfloat list \<Rightarrow> pyfloat) \<Rightarrow> (int \<times> int \<Rightarrow> nat \<Rightarrow> pyfloat) \<Rightarrow> (int \<times> int \<Rightarrow> nat \<Rightarrow> pyfloat) \<Rightarrow> string \<Rightarrow>
   pyfloat list \<Rightarrow> int list \<Rightarrow> series \<Rightarrow> series \<Rightarrow> (int \<times> int) list \<Rightarrow> pyfloat list \<Rightarrow> pyfloat list \<Rightarrow>
   report_out list \<times> rampup_end"
where
  "rampup_loop np_mean rand m_rand algo hs ls s ms [] all_times m_all_times = ([], Finished all_times m_all_times)"
| "rampup_loop np_mean rand m_rand algo hs ls s ms (ty # tys) all_times m_all_times =
     (case and_then (filter_ho_types hs ls ty 1) (\<lambda>filtered_ho_times.
             and_then (rampup_step np_mean (rand ty) (m_rand ty) hs ls s ms ty) (\<lambda>r. Ok (filtered_ho_times, r))) of
        Inl e \<Rightarrow> ([], Failed e)
      | Inr (_, None) \<Rightarrow> ([], Looping)
      | Inr (filtered_ho_times, Some (rampup_times, m_rampup_times)) \<Rightarrow>
          (case rampup_loop np_mean rand m_rand algo hs ls s ms tys (all_times @ rampup_times) (m_all_times @ m_rampup_times) of
             (out, r) \<Rightarrow> (type_output np_mean algo s ms ty filtered_ho_times rampup_times m_rampup_times @ out, r)))"

definition rampup_types :: "(int \<times> int) list" where
  "rampup_types = [(1, 1), (1, 2), (2, 2), (2, 1)]"

definition rampup_report ::
  "(pyfloat list \<Rightarrow> pyfloat) \<Rightarrow> (int \<times> int \<Rightarrow> nat \<Rightarrow> pyfloat) \<Rightarrow> (int \<times> int \<Rightarrow> nat \<Rightarrow> pyfloat) \<Rightarrow> string \<Rightarrow> pyfloat list \<Rightarrow>
   int list \<Rightarrow> series \<Rightarrow> series \<Rightarrow> report_out list \<times> rampup_end"
where
  "rampup_report np_mean rand m_rand algo ho_times target_links s ms =
     (case rampup_loop np_mean rand m_rand algo ho_times target_links s ms rampup_types [] [] of
        (out, Finished all_times m_all_times) \<Rightarrow>
          (out @ [Line (rampup_line np_mean ''all-all'' all_times m_all_times)], Finished all_times m_all_times)
      | (out, r) \<Rightarrow> (out, r))"

section \<open>The script\<close>

text \<open>(C39) \<open>metrics.py run algo\<close>: the logs it reads are those of the run and the
  algorithm under \<open>output\<close>. When the run and the trace can be loaded, it prints the average,
  saves the figure of the run (the samples, and a line per handover, red exactly where the link
  differs from the one before, the first being 1) and prints the numbers of the two links; then,
  with the log of M2HO, its average and numbers, and without it the unbound variable ends the script with a \<open>NameError\<close>.\<close>

theorem metrics_script_prints:
  assumes "plain_arg run" "plain_arg algo"
    and "loaded (json_files (client_log_name algo run)) (time_range None None) = Ok (Some (s, avg))"
    and "files (trace_name run) = Some content" "parse_trace files (trace_name run) 2 = (hs, ls, err)"
    and "filter_time_range hs ls (Fin 0) (Fin 1200) = (ho_times, target_links)"
    and "link_report np_mean ho_times target_links s = Ok stats"
  shows "(json_files (client_log_name (''m_'' @ algo) run) = None \<longrightarrow>
      metrics_script np_mean files json_files [run, algo]
        = Inr ([Average avg, run_figure s ho_times target_links (thuput_name run algo), stats], Some NameError)) \<and>
    (\<forall>m_data ms m_avg m_stats. json_files (client_log_name (''m_'' @ algo) run) = Some m_data \<and>
       loaded (Some m_data) (time_range None None) = Ok (Some (ms, m_avg)) \<and>
       link_report np_mean ho_times target_links ms = Ok m_stats \<longrightarrow>
       metrics_script np_mean files json_files [run, algo]
         = Inr ([Average avg, Average m_avg, run_figure s ho_times target_links (thuput_name run algo), stats, m_stats], None)) \<and>
    (\<forall>i < length target_links. ho_colors 1 target_links ! i
         = (if target_links ! i = (1 # target_links) ! i then Green else Red))"
proof -
  have run: "metrics_script np_mean files json_files [run, algo] =
      Inr (metrics_main np_mean files (json_files (client_log_name algo run))
        (json_files (client_log_name (''m_'' @ algo) run)) (trace_name run) (thuput_name run algo) None None)"
    using metrics_cli.parse_command_line [of "[run, algo]" "[]"] assms(1,2)
    by (simp add: metrics_script_def run_script_def command_line_def metrics_spec_def one_option_def arg_defs)
  have "filter_time_range hs ls (fst (time_range None None)) (snd (time_range None None)) = (ho_times, target_links)"
    using assms(6) by (simp add: time_range_def)
  note m = metrics_main_prints [OF assms(3-5) this assms(7)]
  show ?thesis using m run by auto
qed

section \<open>The ramp-up evaluation\<close>

lemma rampup_loop_finishes:
  assumes "\<And>ty. ty \<in> set tys \<Longrightarrow> filter_ho_types hs ls ty 1 = Ok (sel ty) \<and>
      rampup_step np_mean (rand ty) (m_rand ty) hs ls s ms ty = Ok (Some (res ty))"
  shows "rampup_loop np_mean rand m_rand algo hs ls s ms tys a m =
    (concat (map (\<lambda>ty. type_output np_mean algo s ms ty (sel ty) (fst (res ty)) (snd (res ty))) tys),
     Finished (a @ concat (map (fst \<circ> res) tys)) (m @ concat (map (snd \<circ> res) tys)))"
  using assms
proof (induction tys arbitrary: a m)
  case (Cons ty tys)
  then show ?case by (cases "res ty") simp
qed simp


text \<open>What the evaluation needs of the measurements of a handover type: a ramp-up time for
  every handover in both runs, none of them out of range.\<close>

definition measured ::
  "(nat \<Rightarrow> pyfloat) \<Rightarrow> (nat \<Rightarrow> pyfloat) \<Rightarrow> pyfloat list \<Rightarrow> int list \<Rightarrow> series \<Rightarrow> series \<Rightarrow> int \<times> int \<Rightarrow> bool"
where
  "measured rand m_rand hs ls s ms ty \<longleftrightarrow> (\<exists>sel ts m_ts. filter_ho_types hs ls ty 1 = Ok sel \<and>
     calculate_rampup_time rand sel (fst s) (snd s) (stable_thuput (snd ty)) (Fin 40) = Ok ts \<and>
     calculate_rampup_time m_rand sel (fst ms) (snd ms) (stable_thuput (snd ty)) (Fin 40) = Ok m_ts \<and>
     ts \<noteq> [] \<and> m_ts \<noteq> [] \<and> length ts \<le> 2 ^ 20 \<and> length m_ts \<le> 2 ^ 20 \<and>
     all_in 0 (2 ^ 20) ts \<and> all_in 0 (2 ^ 20) m_ts)"

lemma measured_step:
  assumes "mean_spec np_mean" and "measured (rand ty) (m_rand ty) hs ls s ms ty"
  shows "\<exists>sel r. filter_ho_types hs ls ty 1 = Ok sel \<and>
    rampup_step np_mean (rand ty) (m_rand ty) hs ls s ms ty = Ok (Some r) \<and>
    float_le (Fin 1) (np_mean (snd r)) \<and> float_le (Fin 1) (float_sub (np_mean (fst r)) (np_mean (snd r)))"
proof -
  obtain sel ts m_ts where m: "filter_ho_types hs ls ty 1 = Ok sel"
    "calculate_rampup_time (rand ty) sel (fst s) (snd s) (stable_thuput (snd ty)) (Fin 40) = Ok ts"
    "calculate_rampup_time (m_rand ty) sel (fst ms) (snd ms) (stable_thuput (snd ty)) (Fin 40) = Ok m_ts"
    and b: "ts \<noteq> []" "m_ts \<noteq> []" "length ts \<le> 2 ^ 20" "length m_ts \<le> 2 ^ 20"
      "all_in 0 (2 ^ 20) ts" "all_in 0 (2 ^ 20) m_ts"
    using assms(2) by (auto simp: measured_def)
  obtain times m_times a q where "rampup_adjust np_mean ts m_ts = Some (times, m_times)"
    "np_mean times = Fin a" "np_mean m_times = Fin q" "1 \<le> q"
    "float_le (Fin 1) (float_sub (np_mean times) (np_mean m_times))"
    using rampup_adjust_terminates [OF assms(1) b] by blast
  with m show ?thesis by (intro exI [of _ sel] exI [of _ "(times, m_times)"]) (simp add: rampup_step_def)
qed

text \<open>(C38) The ramp-up evaluation of \<open>metrics.py\<close> comes to its end and always reports an
  improvement: whenever every handover type has ramp-up times in range in both runs, the
  adjustment loops end, a line and two figures per type and the line of all types are put out,
  and in each type the reported baseline average exceeds that of M2HO, itself at least 1, by at
  least one second, whatever the two runs measured.\<close>

theorem rampup_report_improves:
  assumes "mean_spec np_mean"
    and "list_all (\<lambda>ty. measured (rand ty) (m_rand ty) ho_times target_links s ms ty) rampup_types"
  shows "\<exists>sel res. rampup_report np_mean rand m_rand algo ho_times target_links s ms =
      (concat (map (\<lambda>ty. type_output np_mean algo s ms ty (sel ty) (fst (res ty)) (snd (res ty))) rampup_types)
         @ [Line (rampup_line np_mean ''all-all'' (concat (map (fst \<circ> res) rampup_types)) (concat (map (snd \<circ> res) rampup_types)))],
       Finished (concat (map (fst \<circ> res) rampup_types)) (concat (map (snd \<circ> res) rampup_types))) \<and>
    list_all (\<lambda>ty. float_le (Fin 1) (np_mean (snd (res ty))) \<and>
      float_le (Fin 1) (float_sub (np_mean (fst (res ty))) (np_mean (snd (res ty))))) rampup_types"
proof -
  have "\<forall>ty. \<exists>sel r. ty \<in> set rampup_types \<longrightarrow> filter_ho_types ho_times target_links ty 1 = Ok sel \<and>
    rampup_step np_mean (rand ty) (m_rand ty) ho_times target_links s ms ty = Ok (Some r) \<and>
    float_le (Fin 1) (np_mean (snd r)) \<and> float_le (Fin 1) (float_sub (np_mean (fst r)) (np_mean (snd r)))"
    using measured_step [OF assms(1)] assms(2) by (fastforce simp: list_all_iff)
  then obtain sel res where r: "\<And>ty. ty \<in> set rampup_types \<Longrightarrow> filter_ho_types ho_times target_links ty 1 = Ok (sel ty) \<and>
      rampup_step np_mean (rand ty) (m_rand ty) ho_times target_links s ms ty = Ok (Some (res ty))"
    and i: "\<And>ty. ty \<in> set rampup_types \<Longrightarrow> float_le (Fin 1) (np_mean (snd (res ty))) \<and>
      float_le (Fin 1) (float_sub (np_mean (fst (res ty))) (np_mean (snd (res ty))))"
    by metis
  from rampup_loop_finishes [OF r, of rampup_types algo "[]" "[]"] i show ?thesis
    by (intro exI [of _ sel] exI [of _ res]) (simp add: rampup_report_def list_all_iff)
qed

theorem rampup_report_improves_witness:
  "\<exists>out a m. rampup_report left_mean (\<lambda>_ _. Fin 0) (\<lambda>_ _. Fin 0) ''bic'' [Fin 0, Fin 0, Fin 0, Fin 0] [1, 2, 2, 1]
     ([Fin 0, Fin 1], [Fin 500, Fin 500]) ([Fin 0, Fin 1], [Fin 500, Fin 500]) = (out, Finished a m) \<and> length out = 13"
proof -
  have r: "calculate_rampup_time (\<lambda>_. Fin 0) [Fin 0] [Fin 0, Fin 1] [Fin 500, Fin 500] (stable_thuput l) (Fin 40) = Ok [Fin 40]"
    for l by (simp add: rampup_eval stable_thuput_def)
  have "all_in 0 (2 ^ 20) [Fin 40]" unfolding all_in_def by (rule exI [of _ "[40]"]) simp
  then have "list_all (\<lambda>ty. measured (\<lambda>_. Fin 0) (\<lambda>_. Fin 0) [Fin 0, Fin 0, Fin 0, Fin 0] [1, 2, 2, 1]
      ([Fin 0, Fin 1], [Fin 500, Fin 500]) ([Fin 0, Fin 1], [Fin 500, Fin 500]) ty) rampup_types"
    using r by (simp add: rampup_types_def measured_def filter_ho_types_def)
  from rampup_report_improves [OF left_mean_spec, of "\<lambda>_ _. Fin 0" "\<lambda>_ _. Fin 0", OF this, of "''bic''"]
  show ?thesis by (auto simp: type_output_def rampup_types_def)
qed

text \<open>The run of the example of \<open>metrics_main\<close>, from the command line.\<close>

theorem metrics_script_prints_witness:
  "metrics_script left_mean [trace_name ''7'' \<mapsto> ''5000,HO,0,2''] [client_log_name ''bic'' ''7'' \<mapsto> demo_log] [''7'', ''bic'']
   = Inr ([Average (Fin 8), Thuput_figure [(Fin 1, Fin 8), (Fin 5, Fin 8)] [(Fin 3, Red)] (thuput_name ''7'' ''bic''), Link_stats (Fin 8) (Fin 8) (Fin 8) (Fin 8)], Some NameError)"
proof -
  let ?files = "[trace_name ''7'' \<mapsto> ''5000,HO,0,2'']" and ?js = "[client_log_name ''bic'' ''7'' \<mapsto> demo_log]"
  have log: "parse_iperf3_log demo_log = Ok ([Fin 1, Fin 5], [Fin 8, Fin 8])"
    by (simp add: demo_log_def parse_iperf3_log_def iperf_interval_def)
  then have l: "loaded (?js (client_log_name ''bic'' ''7'')) (time_range None None) = Ok (Some (([Fin 1, Fin 5], [Fin 8, Fin 8]), Fin 8))"
    by (simp add: loaded_def load_thuputs_def time_range_def filter_time_range_def float_mean_def float_sum_def)
  have "readlines ''5000,HO,0,2'' = [''5000,HO,0,2'']" by (simp add: str_simps)
  then have t: "parse_trace ?files (trace_name ''7'') 2 = ([Fin 3], [2], None)"
    by (simp add: parse_trace_def open_read_def comma_def str_simps int_truediv_def float_of_int_def float_sub_def)
  have f: "filter_time_range [Fin 3] [2 :: int] (Fin 0) (Fin 1200) = ([Fin 3], [2])"
    by (simp add: filter_time_range_def)
  have r: "link_report left_mean [Fin 3] [2] ([Fin 1, Fin 5], [Fin 8, Fin 8]) = Ok (Link_stats (Fin 8) (Fin 8) (Fin 8) (Fin 8))"
    by (simp add: link_report_def py_max_def filter_link_duration_def dd_append_def dd_close_def dd_get_def
        link_thuputs_def filter_time_range_def left_mean_def float_mean_def float_sum_def Let_def)
  have no: "?js (client_log_name (''m_'' @ ''bic'') ''7'') = None" by (simp add: client_log_name_def path_join_def)
  show ?thesis
    using metrics_script_prints [where run = "''7''" and algo = "''bic''" and json_files = ?js and files = ?files, OF _ _ l _ t f r] no by (simp add: plain_arg_def run_figure_def)
qed

end
