(* ===== verification/Log_Pipeline.thy ===== *)
theory Log_Pipeline
  imports SS_Log Iperf
begin

text \<open>
  The main programs that put the log components together: the packet branch
  and the socket-statistics branch of \<open>parse-logs.py\<close>, and the jitter run
  of \<open>rfc-jitter.py\<close>. The CSV files they read are given as rows.
\<close>

section \<open>The packet branch of parse-logs.py\<close>

type_synonym transit_row = "int \<times> pyfloat \<times> pyfloat \<times> pyfloat \<times> pyfloat"

text \<open>The exit on a rollover, or the tables written.\<close>

datatype packet_outcome = Rollover_exit | Written "transit_row list" "pyfloat list"

definition packet_metrics ::
  "packet sorter \<Rightarrow> (seq_epochs \<Rightarrow> seq_epochs) \<Rightarrow> (seq_epochs \<Rightarrow> seq_epochs \<Rightarrow> (int \<times> pyfloat \<times> pyfloat) list) \<Rightarrow>
   packet list \<Rightarrow> string \<Rightarrow> pyfloat option \<Rightarrow> pyfloat option \<Rightarrow> packet_outcome result"
where
  "packet_metrics sort_values group_min merge client_packets server_packets b e =
     (case time_range b e of (begin_time, end_time) \<Rightarrow>
        let df_client = filter_relative_time_range sort_values client_packets begin_time end_time
        in if check_rollover sort_values df_client \<noteq> [] then Ok Rollover_exit
           else and_then (py_index df_client 0) (\<lambda>p.
             and_then (process_server_log server_packets (p_port p)) (\<lambda>log.
             let df_server = filter_relative_time_range sort_values log begin_time end_time
             in and_then (calculate_transit group_min merge df_server df_client) (\<lambda>df_matched.
                and_then (calculate_jitter (map (\<lambda>(s, es, ec, tr, t). tr) df_matched)) (\<lambda>(js, n).
                  Ok (Written df_matched js))))))"

text \<open>The socket-statistics branch: only logs with \<open>bbr\<close> in their name are
  parsed. \<open>filter_relative_time_range\<close> needs the column \<open>time\<close>.\<close>

definition entry_time :: "'d ss_entry \<Rightarrow> pyfloat" where
  "entry_time entry = (case map_of entry ''time'' of Some (Metric (Num x)) \<Rightarrow> x | _ \<Rightarrow> NaN)"

definition ss_branch ::
  "unit ss_entry sorter \<Rightarrow> (string \<rightharpoonup> string) \<Rightarrow> string \<Rightarrow> pyfloat option \<Rightarrow> pyfloat option \<Rightarrow>
   unit ss_entry list option result"
where
  "ss_branch sort_values files ss_log b e =
     (if \<not> contains ''bbr'' ss_log then Ok None
      else case time_range b e of (begin_time, end_time) \<Rightarrow>
        and_then (parse_ss files ss_log) (\<lambda>df_ss.
          if list_ex (\<lambda>r. map_of r ''time'' \<noteq> None) df_ss
          then Ok (Some (sort_values (\<lambda>r q. float_sort_le (entry_time r) (entry_time q))
                 (filter (\<lambda>r. float_le begin_time (entry_time r) \<and> float_le (entry_time r) end_time) df_ss)))
          else Raise KeyError))"

section \<open>The run of rfc-jitter.py\<close>

text \<open>Rows \<open>(seq, ack, send_ts, recv_ts)\<close>; the first label of an empty
  column is a missing key.\<close>

definition rfc_main ::
  "(int \<times> int) sorter \<Rightarrow> (int \<times> int \<times> int \<times> int) list \<Rightarrow> (int \<times> int \<times> pyfloat) list result"
where
  "rfc_main sort_values rows =
     (case rows of
        [] \<Rightarrow> Raise KeyError
      | (_, _, send0, _) # _ \<Rightarrow>
          Ok (compute_jitter_and_transit
                (sort_values (\<lambda>x y. fst x \<le> fst y)
                   (map (\<lambda>(seq, ack, send_ts, recv_ts). (send_ts - send0, recv_ts - send0)) rows))))"

text \<open>A CSV file as its rows; \<open>save_to_csv\<close> replaces the file.\<close>

definition save_to_csv :: "'r list \<Rightarrow> string \<Rightarrow> (string \<rightharpoonup> 'r list) \<Rightarrow> string \<rightharpoonup> 'r list" where
  "save_to_csv results output_file files = files(output_file \<mapsto> results)"

definition rfc_script ::
  "(int \<times> int) sorter \<Rightarrow> (string \<rightharpoonup> (int \<times> int \<times> int \<times> int) list) \<Rightarrow> (string \<rightharpoonup> (int \<times> int \<times> pyfloat) list) \<Rightarrow>
   (string \<rightharpoonup> (int \<times> int \<times> pyfloat) list) result"
where
  "rfc_script sort_values inputs outputs =
     (case inputs ''matched.csv'' of
        None \<Rightarrow> Raise FileNotFoundError
      | Some rows \<Rightarrow> and_then (rfc_main sort_values rows) (\<lambda>results. Ok (save_to_csv results ''jitter.csv'' outputs)))"

section \<open>Properties\<close>

lemma filter_relative_time_range_set:
  assumes "sort_values_spec sort_values"
  shows "set (filter_relative_time_range sort_values df lo hi)
    = {p \<in> set df. float_le lo (p_time p) \<and> float_le (p_time p) hi}"
proof -
  have "mset (filter_relative_time_range sort_values df lo hi)
      = mset (filter (\<lambda>p. float_le lo (p_time p) \<and> float_le (p_time p) hi) df)"
    using assms time_le_preorder unfolding sort_values_spec_def filter_relative_time_range_def by blast
  from mset_eq_setD[OF this] show ?thesis by simp
qed

lemma process_server_log_finite:
  assumes "\<forall>l \<in> set ls. log_line_ok l" "\<forall>(e, p, s, a) \<in> set (packet_lines ls). e \<le> 2 ^ 53"
    and "process_server_log (concat (map render_line ls)) port = Inr rows" "p \<in> set rows"
  shows "\<exists>x. p_epoch p = Fin x"
proof -
  have fin: "\<exists>x. mk_float (of_nat e / 1000) = Fin x" if "e \<le> 2 ^ 53" for e :: nat
  proof -
    have "rat_of_nat e \<le> of_nat (2 ^ 53)" using that by (simp only: of_nat_le_iff)
    moreover have "rat_of_nat (2 ^ 53) / 1000 \<le> 2 ^ 1023" by simp
    ultimately have "\<bar>rat_of_nat e / 1000\<bar> \<le> 2 ^ 1023" by simp
    then show ?thesis by (auto simp only: mk_float_Fin)
  qed
  let ?mine = "filter (\<lambda>(e, p, s, a). int p = port) (packet_lines ls)"
  obtain e0 q0 rest where mine: "?mine = (e0, q0) # rest"
    using assms(3) unfolding process_server_log_rows[OF assms(1,2)] by (auto split: list.splits)
  then have "p \<in> (\<lambda>(e, q, s, a). \<lparr>p_epoch = mk_float (of_nat e / 1000),
          p_time = float_sub (mk_float (of_nat e / 1000)) (mk_float (of_nat e0 / 1000)),
          p_port = port, p_seq = int s, p_ack = int a, p_len = 0\<rparr>) ` set ?mine"
    using assms(3,4) unfolding process_server_log_rows[OF assms(1,2)] by auto
  then obtain e q s a where "(e, q, s, a) \<in> set (packet_lines ls)" "p_epoch p = mk_float (of_nat e / 1000)" by auto
  moreover from this(1) have "e \<le> 2 ^ 53" using assms(2) by blast
  ultimately show ?thesis using fin[of e] by simp
qed

text \<open>(C33) The packet branch end to end: with a server log as the emulator
  writes it, finite client epochs and no rollover in the time window, a
  sequence number common to the window of the client capture and the window of
  the log of its port makes the branch write both tables: the transit rows are
  exactly the common sequence numbers in ascending order, and the jitter column
  has one value per transit row, the first 0.\<close>

theorem packet_metrics_tables:
  assumes "sort_values_spec sort_values" "group_min_spec group_min" "merge_spec merge"
    and "\<forall>l \<in> set ls. log_line_ok l" "\<forall>(ep, p, s, a) \<in> set (packet_lines ls). ep \<le> 2 ^ 53"
    and "\<forall>p \<in> set client_packets. \<exists>x. p_epoch p = Fin x"
    and "df_client = filter_relative_time_range sort_values client_packets (fst (time_range b e)) (snd (time_range b e))"
    and "check_rollover sort_values df_client = []" "df_client = p # ps"
    and "process_server_log (concat (map render_line ls)) (p_port p) = Ok log_rows"
    and "df_server = filter_relative_time_range sort_values log_rows (fst (time_range b e)) (snd (time_range b e))"
    and "p_seq ` set df_server \<inter> p_seq ` set df_client \<noteq> {}"
  shows "\<exists>rows js. packet_metrics sort_values group_min merge client_packets (concat (map render_line ls)) b e = Ok (Written rows js)
    \<and> sorted_wrt (<) (map fst rows) \<and> fst ` set rows = p_seq ` set df_server \<inter> p_seq ` set df_client
    \<and> length js = length rows \<and> js ! 0 = Fin 0"
proof -
  have fin: "\<forall>q \<in> set df_server \<union> set df_client. \<exists>x. p_epoch q = Fin x"
    using assms(6) process_server_log_finite[OF assms(4,5,10)]
    unfolding assms(7,11) filter_relative_time_range_set[OF assms(1)] by blast
  obtain rows where rows: "calculate_transit group_min merge df_server df_client = Ok rows"
      "sorted_wrt (<) (map fst rows)" "fst ` set rows = p_seq ` set df_server \<inter> p_seq ` set df_client"
    using calculate_transit_shared[OF assms(2,3) fin assms(12)] by blast
  have "rows \<noteq> []" using rows(3) assms(12) by auto
  then obtain js n where js: "calculate_jitter (map (\<lambda>(s, es, ec, tr, t). tr) rows) = Ok (js, n)"
      "length js = length rows" "js ! 0 = Fin 0"
    by (cases rows) (auto simp: calculate_jitter_def jitter_loop_length)
  obtain lo hi where r: "time_range b e = (lo, hi)" by (cases "time_range b e")
  have "packet_metrics sort_values group_min merge client_packets (concat (map render_line ls)) b e = Ok (Written rows js)"
    unfolding packet_metrics_def r prod.case Let_def
      assms(7)[unfolded r fst_conv snd_conv, symmetric]
    using assms(8-11) rows(1) js(1) by (simp add: r py_index_def)
  then show ?thesis using rows(2,3) js(2,3) by blast
qed

theorem packet_metrics_tables_witness:
  "\<exists>rows js. packet_metrics sort_rows group_min_rows merge_rows [demo_packet 2 7 0]
       (concat (map render_line [Packet_line [] 1000 80 7 8])) None None = Ok (Written rows js)
     \<and> fst ` set rows = {7} \<and> length js = length rows"
proof -
  let ?c = "[demo_packet 2 7 0]" and ?ls = "[Packet_line [] 1000 80 7 8]"
  let ?s = "[\<lparr>p_epoch = Fin 1, p_time = Fin 0, p_port = 80, p_seq = 7, p_ack = 8, p_len = 0\<rparr>]"
  have rng: "time_range None None = (Fin 0, Fin 1200)" by (simp add: time_range_def)
  have c: "?c = filter_relative_time_range sort_rows ?c (fst (time_range None None)) (snd (time_range None None))"
    by (simp add: filter_relative_time_range_def rng sort_rows_def demo_packet_def)
  have s: "?s = filter_relative_time_range sort_rows ?s (fst (time_range None None)) (snd (time_range None None))"
    by (simp add: filter_relative_time_range_def rng sort_rows_def)
  have "process_server_log (concat (map render_line ?ls)) 80 = Ok ?s"
    by (subst process_server_log_rows) (simp_all add: packet_lines_def float_sub_Fin)
  then have l: "process_server_log (concat (map render_line ?ls)) (p_port (demo_packet 2 7 0)) = Ok ?s"
    by (simp only: demo_packet_def packet.simps)
  have "\<exists>rows js. packet_metrics sort_rows group_min_rows merge_rows ?c (concat (map render_line ?ls)) None None = Ok (Written rows js)
    \<and> sorted_wrt (<) (map fst rows) \<and> fst ` set rows = p_seq ` set ?s \<inter> p_seq ` set ?c
    \<and> length js = length rows \<and> js ! 0 = Fin 0"
    by (rule packet_metrics_tables[OF sort_rows_spec group_min_rows_spec merge_rows_spec _ _ _ c _ _ l s])
      (simp_all add: packet_lines_def demo_packet_def check_rollover_def sort_rows_def)
  then show ?thesis by (auto simp: demo_packet_def)
qed

text \<open>The jitter run: on matched packets, \<open>rfc-jitter.py\<close> reports, in
  the order of sending, the send offset and the transit time of exactly the
  packets not received before they were sent; an empty file raises.\<close>

lemma rfc_main_reports:
  assumes "sort_values_spec sort_values" "rows = (s0, a0, send0, recv0) # rest"
  shows "\<exists>res. rfc_main sort_values rows = Ok res
    \<and> sorted (map fst res)
    \<and> mset (map (\<lambda>(sts, t, j). (sts, t)) res)
      = mset (map (\<lambda>(s, a, send, recv). (send - send0, recv - send)) (filter (\<lambda>(s, a, send, recv). send \<le> recv) rows))"
proof -
  let ?off = "map (\<lambda>(s, a, send, recv). (send - send0, recv - send0)) rows"
  let ?le = "\<lambda>x y :: int \<times> int. fst x \<le> fst y"
  let ?srt = "sort_values ?le ?off"
  have "total_preorder ?le" unfolding total_preorder_def by auto
  then have m: "mset ?srt = mset ?off" and s: "sorted_wrt ?le ?srt"
    using assms(1) unfolding sort_values_spec_def by blast+
  have res: "rfc_main sort_values rows = Ok (compute_jitter_and_transit ?srt)" by (simp add: rfc_main_def assms(2))
  have cols: "map (\<lambda>(sts, t, j). (sts, t)) (compute_jitter_and_transit ?srt)
      = map (\<lambda>(s, r). (s, r - s)) (filter (\<lambda>(s, r). s \<le> r) ?srt)"
    by (simp add: compute_jitter_and_transit_def jitter_transit_loop_map)
  have "map fst (compute_jitter_and_transit ?srt) = map fst (map (\<lambda>(sts, t, j). (sts, t)) (compute_jitter_and_transit ?srt))"
    by (simp add: case_prod_unfold)
  also have "\<dots> = map fst (filter (\<lambda>(s, r). s \<le> r) ?srt)" unfolding cols by (simp add: case_prod_unfold)
  finally have fsts: "map fst (compute_jitter_and_transit ?srt) = map fst (filter (\<lambda>(s, r). s \<le> r) ?srt)" .
  have "sorted (map fst (compute_jitter_and_transit ?srt))"
    unfolding fsts sorted_map using s by (rule sorted_wrt_filter_imp)
  moreover have "mset (map (\<lambda>(s, r). (s, r - s)) (filter (\<lambda>(s, r). s \<le> r) ?srt))
      = mset (map (\<lambda>(s, r). (s, r - s)) (filter (\<lambda>(s, r). s \<le> r) ?off))"
    unfolding mset_map mset_filter m ..
  moreover have "map (\<lambda>(s, r). (s, r - s)) (filter (\<lambda>(s, r). s \<le> r) ?off)
      = map (\<lambda>(s, a, send, recv). (send - send0, recv - send)) (filter (\<lambda>(s, a, send, recv). send \<le> recv) rows)"
    unfolding filter_map map_map by (rule arg_cong2[where f = map]) (auto simp: fun_eq_iff intro!: filter_cong)
  ultimately show ?thesis using res by (intro exI[of _ "compute_jitter_and_transit ?srt"]) (simp only: cols)
qed


lemma rfc_script_writes:
  assumes "sort_values_spec sort_values" "inputs ''matched.csv'' = Some rows" "rows \<noteq> []"
  shows "\<exists>res. rfc_script sort_values inputs outputs = Ok (outputs(''jitter.csv'' \<mapsto> res)) \<and> sorted (map fst res)"
proof -
  obtain s0 a0 send0 recv0 rest where "rows = (s0, a0, send0, recv0) # rest" using assms(3) by (cases rows) auto
  from rfc_main_reports [OF assms(1) this] show ?thesis
    using assms(2) by (auto simp: rfc_script_def save_to_csv_def)
qed

end
