(* ===== verification/Log_Scripts.thy ===== *)
theory Log_Scripts
  imports Scripts Log_Pipeline "HOL-Library.Sublist"
begin

text \<open>
  The two log scripts from their command lines: \<open>parse-logs.py\<close>, which turns the logs of a
  run into CSV files under \<open>output\<close>, and \<open>plot-logs.py\<close>, which finds such files by the
  same pre and draws them. The environment of \<open>parse-logs.py\<close> is a record: which files
  exist and their contents, decoded JSON, what \<open>tshark\<close> prints, and what pandas makes of a
  text and of rows. A file that is written is the table in it; \<open>csv_text\<close> is its text.
\<close>

section \<open>parse-logs.py\<close>

definition parse_logs_spec :: parser_spec where
  "parse_logs_spec =
     \<lparr>positionals = [],
      opts =
        [one_option [''--prefix''] ''prefix'' Str_arg,
         flag_option [''--nocap''] ''nocap'',
         one_option [''-i'', ''--iperf_log''] ''iperf_log'' Str_arg,
         one_option [''--client_pcap''] ''client_pcap'' Str_arg,
         one_option [''-c'', ''--client_packets''] ''client_packets'' Str_arg,
         one_option [''-s'', ''--server_packets''] ''server_packets'' Str_arg,
         one_option [''--ss_log''] ''ss_log'' Str_arg,
         one_option [''-b'', ''--begin''] ''begin'' Float_arg,
         one_option [''-e'', ''--end''] ''end'' Float_arg]\<rparr>"

record log_args =
  l_prefix :: "string option"
  l_iperf_log :: "string option"
  l_client_pcap :: "string option"
  l_client_packets :: "string option"
  l_server_packets :: "string option"
  l_ss_log :: "string option"
  l_begin :: "pyfloat option"
  l_end :: "pyfloat option"

definition log_args_of :: "namespace \<Rightarrow> log_args" where
  "log_args_of args =
     \<lparr>l_prefix = text_arg args ''prefix'', l_iperf_log = text_arg args ''iperf_log'',
      l_client_pcap = text_arg args ''client_pcap'', l_client_packets = text_arg args ''client_packets'',
      l_server_packets = text_arg args ''server_packets'', l_ss_log = text_arg args ''ss_log'',
      l_begin = float_arg args ''begin'', l_end = float_arg args ''end''\<rparr>"

datatype out_file =
    Text_file string
  | Throughput_csv "(pyfloat \<times> pyfloat) list"
  | Transit_csv "transit_row list"
  | Jitter_csv "(transit_row \<times> pyfloat) list"
  | Stats_csv "unit ss_entry list"

type_synonym written = "(string \<times> out_file) list"

record log_env =
  path_exists :: "string \<Rightarrow> bool"
  text_files :: "string \<rightharpoonup> string"
  json_load :: "string \<Rightarrow> json result"
  tshark :: "string list \<Rightarrow> string \<times> py_error option"
  read_packets :: "string \<Rightarrow> packet list result"
  csv_text :: "out_file \<Rightarrow> string"
  sort_packets :: "packet sorter"
  sort_entries :: "unit ss_entry sorter"
  group_min :: "seq_epochs \<Rightarrow> seq_epochs"
  merge_seq :: "seq_epochs \<Rightarrow> seq_epochs \<Rightarrow> (int \<times> pyfloat \<times> pyfloat) list"

text \<open>The files as a later part of the run finds them.\<close>

definition files_after :: "log_env \<Rightarrow> written \<Rightarrow> string \<rightharpoonup> string" where
  "files_after env w path =
     (case map_of (rev w) path of
        Some (Text_file s) \<Rightarrow> Some s
      | Some f \<Rightarrow> Some (csv_text env f)
      | None \<Rightarrow> text_files env path)"

definition out_path :: "string \<Rightarrow> string \<Rightarrow> string" where
  "out_path pre name = path_join ''output'' (pre @ name)"

text \<open>The prefix, and the log it finds.\<close>

definition prefix_args :: "(string \<Rightarrow> bool) \<Rightarrow> log_args \<Rightarrow> string \<times> log_args" where
  "prefix_args exists args =
     (case l_prefix args of
        None \<Rightarrow> (''manual'', args)
      | Some pre \<Rightarrow>
          let fname = path_join ''output'' (pre @ ''-iperf-client.json'')
          in (pre, if exists fname then args\<lparr>l_iperf_log := Some fname\<rparr> else args))"

text \<open>A part of the run: what it writes, and how it goes on or ends.\<close>

datatype log_stop = Exited | Raised py_error

type_synonym log_part = "written \<Rightarrow> log_args \<Rightarrow> written \<times> (log_stop + log_args)"

definition iperf_part :: "log_env \<Rightarrow> string \<Rightarrow> log_part" where
  "iperf_part env pre w args =
     (case l_iperf_log args of
        None \<Rightarrow> ([], Inr args)
      | Some iperf_log \<Rightarrow>
          (case and_then (json_load env iperf_log) (\<lambda>data. iperf_throughput data (l_begin args) (l_end args)) of
             Inl e \<Rightarrow> ([], Inl (Raised e))
           | Inr (average, rows) \<Rightarrow> ([(out_path pre ''-iperf-throughput.csv'', Throughput_csv rows)], Inr args)))"

definition tshark_cmd :: "string \<Rightarrow> string list" where
  "tshark_cmd pcap =
     [''tshark'', ''-r'', pcap, ''-Y'', ''tcp.stream == 1 && tcp.dstport == 5257'', ''-T'', ''fields'',
      ''-e'', ''frame.time_relative'', ''-e'', ''frame.time_epoch'', ''-e'', ''ip.src'', ''-e'', ''ip.dst'',
      ''-e'', ''tcp.srcport'', ''-e'', ''tcp.dstport'', ''-e'', ''tcp.seq_raw'', ''-e'', ''tcp.ack_raw'',
      ''-e'', ''tcp.len'', ''-E'', ''separator=,'']"

definition capture_header :: string where
  "capture_header = ''time,epoch,src_ip,dst_ip,src_port,dst_port,seq,ack,len'' @ [newline]"

text \<open>The header is on disk before \<open>tshark\<close> runs, and what it printed stays if it
  fails.\<close>

definition capture_part :: "log_env \<Rightarrow> string \<Rightarrow> log_part" where
  "capture_part env pre w args =
     (case l_client_pcap args of
        None \<Rightarrow> ([], Inr args)
      | Some pcap \<Rightarrow>
          (let output_file = out_path pre ''-packet-client.csv''
           in case tshark env (tshark_cmd pcap) of (out, err) \<Rightarrow>
                ([(output_file, Text_file (capture_header @ out))],
                 (case err of
                    Some e \<Rightarrow> Inl (Raised e)
                  | None \<Rightarrow> Inr (args\<lparr>l_client_packets := Some output_file\<rparr>)))))"

text \<open>The server log is opened after the check for a rollover and the choice of the port.\<close>

definition packet_run :: "log_env \<Rightarrow> packet list \<Rightarrow> string option \<Rightarrow> log_args \<Rightarrow> packet_outcome result" where
  "packet_run env client server args =
     (case server of
        Some content \<Rightarrow> packet_metrics (sort_packets env) (group_min env) (merge_seq env) client content
                          (l_begin args) (l_end args)
      | None \<Rightarrow>
          (case time_range (l_begin args) (l_end args) of (begin_time, end_time) \<Rightarrow>
             let df_client = filter_relative_time_range (sort_packets env) client begin_time end_time
             in if check_rollover (sort_packets env) df_client \<noteq> [] then Ok Rollover_exit
                else and_then (py_index df_client 0) (\<lambda>p. Raise FileNotFoundError)))"

definition packet_part :: "log_env \<Rightarrow> string \<Rightarrow> log_part" where
  "packet_part env pre w args =
     (case (l_server_packets args, l_client_packets args) of
        (Some server_packets, Some client_packets) \<Rightarrow>
          (case and_then (case files_after env w client_packets of
                            None \<Rightarrow> Raise FileNotFoundError
                          | Some content \<Rightarrow> read_packets env content)
                  (\<lambda>df_client. packet_run env df_client (files_after env w server_packets) args) of
             Inl e \<Rightarrow> ([], Inl (Raised e))
           | Inr Rollover_exit \<Rightarrow> ([], Inl Exited)
           | Inr (Written df_matched jitter) \<Rightarrow>
               ([(out_path pre ''-transit.csv'', Transit_csv df_matched),
                 (out_path pre ''-jitter.csv'', Jitter_csv (zip df_matched jitter))], Inr args))
      | _ \<Rightarrow> ([], Inr args))"

definition ss_part :: "log_env \<Rightarrow> string \<Rightarrow> log_part" where
  "ss_part env pre w args =
     (case l_ss_log args of
        None \<Rightarrow> ([], Inr args)
      | Some ss_log \<Rightarrow>
          (case ss_branch (sort_entries env) (files_after env w) ss_log (l_begin args) (l_end args) of
             Inl e \<Rightarrow> ([], Inl (Raised e))
           | Inr None \<Rightarrow> ([], Inr args)
           | Inr (Some df_ss) \<Rightarrow> ([(out_path pre ''-ss-server.csv'', Stats_csv df_ss)], Inr args)))"

fun run_parts :: "log_part list \<Rightarrow> written \<Rightarrow> log_args \<Rightarrow> written \<times> log_stop option" where
  "run_parts [] w args = (w, None)"
| "run_parts (part # parts) w args =
     (case part w args of
        (new, Inl stop) \<Rightarrow> (w @ new, Some stop)
      | (new, Inr args) \<Rightarrow> run_parts parts (w @ new) args)"

definition parse_logs :: "log_env \<Rightarrow> log_args \<Rightarrow> written \<times> log_stop option" where
  "parse_logs env args0 =
     (case prefix_args (path_exists env) args0 of (pre, args) \<Rightarrow>
        run_parts [iperf_part env pre, capture_part env pre, packet_part env pre, ss_part env pre] [] args)"

definition parse_logs_script :: "log_env \<Rightarrow> string list \<Rightarrow> parse_exit + (written \<times> log_stop option)" where
  "parse_logs_script env = run_script parse_logs_spec (\<lambda>args. parse_logs env (log_args_of args))"

section \<open>plot-logs.py\<close>

definition plot_logs_spec :: parser_spec where
  "plot_logs_spec =
     \<lparr>positionals = [],
      opts =
        [one_option [''-a'', ''--auto''] ''auto'' Str_arg,
         one_option [''-n'', ''--name''] ''name'' Str_arg,
         one_option [''-t'', ''--throughput''] ''throughput'' Str_arg,
         one_option [''-j'', ''--jitter''] ''jitter'' Str_arg,
         one_option [''-f'', ''--frames''] ''frames'' Str_arg,
         one_option [''-s'', ''--ss''] ''ss'' Str_arg,
         one_option [''-b'', ''--begin''] ''begin'' Float_arg,
         one_option [''-e'', ''--end''] ''end'' Float_arg]\<rparr>"

type_synonym points = "(pyfloat \<times> pyfloat) list"

text \<open>\<open>filter_relative_time_range\<close> of \<open>plot-logs.py\<close>, on rows of a time and a value.\<close>

definition filter_points :: "(pyfloat \<times> pyfloat) sorter \<Rightarrow> points \<Rightarrow> pyfloat \<Rightarrow> pyfloat \<Rightarrow> points" where
  "filter_points sort_values raw_df start_time end_time =
     sort_values (\<lambda>x y. float_sort_le (fst x) (fst y))
       (filter (\<lambda>x. float_le start_time (fst x) \<and> float_le (fst x) end_time) raw_df)"

text \<open>The drawing of one file on the next of \<open>n\<close> axes, if it is given.\<close>

definition draw_series ::
  "nat \<Rightarrow> (points \<Rightarrow> points) \<Rightarrow> (string \<Rightarrow> points result) \<Rightarrow> string option \<Rightarrow> string \<Rightarrow>
   nat \<Rightarrow> (nat \<times> (nat \<times> string \<times> points) list) result"
where
  "draw_series n select read_csv path label fig_id =
     (if truthy path
      then if fig_id < n
           then and_then (read_csv (the path)) (\<lambda>df. Ok (fig_id + 1, [(fig_id, label, select df)]))
           else Raise IndexError
      else Ok (fig_id, []))"

record log_figure =
  lf_axes :: nat
  lf_title :: "string option"
  lf_series :: "(nat \<times> string \<times> points) list"
  lf_average :: "pyfloat option"
  lf_name :: string

text \<open>\<open>None\<close> is the exit without an input. \<open>mean\<close> is the mean of a pandas column,
  printed for the throughput that is drawn.\<close>

definition plot_logs_main ::
  "(pyfloat list \<Rightarrow> pyfloat) \<Rightarrow> (string \<Rightarrow> bool) \<Rightarrow> (string \<Rightarrow> points result) \<Rightarrow> (string \<Rightarrow> points result) \<Rightarrow>
   (pyfloat \<times> pyfloat) sorter \<Rightarrow> plot_args \<Rightarrow> string option \<Rightarrow> pyfloat option \<Rightarrow> pyfloat option \<Rightarrow>
   log_figure option result"
where
  "plot_logs_main mean exists read_throughput read_ss sort_values args0 name b e =
     (let args = auto_args exists args0; n = n_subfig args
      in if n = 0 then Ok None
         else case time_range b e of (begin_time, end_time) \<Rightarrow>
           let select = (\<lambda>df. filter_points sort_values df begin_time end_time)
           in and_then (draw_series n select read_throughput (a_throughput args) ''Thuput(Mbps)'' 0) (\<lambda>(fig_id, s1).
              and_then (draw_series n select read_ss (a_ss args) ''bbr minRTT'' fig_id) (\<lambda>(fig_id, s2).
                Ok (Some \<lparr>lf_axes = n, lf_title = name, lf_series = s1 @ s2,
                     lf_average = (case s1 of [] \<Rightarrow> None | (_, _, df) # _ \<Rightarrow> Some (mean (map snd df))),
                     lf_name = ''test-'' @ (case name of None \<Rightarrow> ''unspec'' | Some nm \<Rightarrow> nm) @ ''.png''\<rparr>))))"

definition plot_logs_script ::
  "(pyfloat list \<Rightarrow> pyfloat) \<Rightarrow> (string \<Rightarrow> bool) \<Rightarrow> (string \<Rightarrow> points result) \<Rightarrow> (string \<Rightarrow> points result) \<Rightarrow>
   (pyfloat \<times> pyfloat) sorter \<Rightarrow> string list \<Rightarrow> parse_exit + log_figure option result"
where
  "plot_logs_script mean exists read_throughput read_ss sort_values = run_script plot_logs_spec (\<lambda>args.
     plot_logs_main mean exists read_throughput read_ss sort_values
       \<lparr>a_auto = text_arg args ''auto'', a_throughput = text_arg args ''throughput'',
        a_jitter = text_arg args ''jitter'', a_ss = text_arg args ''ss''\<rparr>
       (text_arg args ''name'') (float_arg args ''begin'') (float_arg args ''end''))"

lemmas log_spec_defs = parse_logs_spec_def plot_logs_spec_def one_option_def flag_option_def

interpretation parse_logs_cli: cli parse_logs_spec
  by (rule cli.intro) (simp add: spec_ok_def all_options_def help_option_def log_spec_defs)

interpretation plot_logs_cli: cli plot_logs_spec
  by (rule cli.intro) (simp add: spec_ok_def all_options_def help_option_def log_spec_defs)


section \<open>What parse-logs.py writes\<close>

definition output_names :: "string list" where
  "output_names = [''-iperf-throughput.csv'', ''-packet-client.csv'', ''-transit.csv'', ''-jitter.csv'', ''-ss-server.csv'']"

definition run_prefix :: "log_args \<Rightarrow> string" where
  "run_prefix args = (case l_prefix args of None \<Rightarrow> ''manual'' | Some pre \<Rightarrow> pre)"

text \<open>The contract of a part of the run: it writes some of its files, in their order, and
  all of them if it goes on after having written one.\<close>

locale log_stage =
  fixes part :: log_part and names :: "string list"
  assumes writes: "map fst (fst (part w args)) = [] \<or> map fst (fst (part w args)) = names"
begin

lemma blocks:
  assumes "part w args = (new, r)"
  shows "map fst new = [] \<or> map fst new = names"
  using writes [of w args] assms by simp

end

interpretation iperf_stage: log_stage "iperf_part env pre" "[out_path pre ''-iperf-throughput.csv'']" for env pre
  by (rule log_stage.intro) (auto simp: iperf_part_def split: option.splits sum.splits)

interpretation capture_stage: log_stage "capture_part env pre" "[out_path pre ''-packet-client.csv'']" for env pre
  by (rule log_stage.intro) (auto simp: capture_part_def Let_def split: option.splits prod.splits)

interpretation packets_stage: log_stage "packet_part env pre" "[out_path pre ''-transit.csv'', out_path pre ''-jitter.csv'']" for env pre
  by (rule log_stage.intro) (auto simp: packet_part_def split: option.splits sum.splits packet_outcome.splits)

interpretation ss_stage: log_stage "ss_part env pre" "[out_path pre ''-ss-server.csv'']" for env pre
  by (rule log_stage.intro) (auto simp: ss_part_def split: option.splits sum.splits)

text \<open>So what a run writes consists of whole blocks, in the order of the parts.\<close>

lemma run_parts_blocks:
  "list_all2 log_stage parts namess \<Longrightarrow>
     \<exists>bs. list_all2 (\<lambda>b names. b = [] \<or> b = names) bs namess \<and>
       map fst (fst (run_parts parts w args)) = map fst w @ concat bs"
proof (induction parts namess arbitrary: w args rule: list_all2_induct)
  case (Cons part parts names namess)
  obtain new r where p: "part w args = (new, r)" by force
  note b = log_stage.blocks [OF Cons.hyps(1) p]
  show ?case
  proof (cases r)
    case (Inl stop)
    have "list_all2 (\<lambda>b names. b = [] \<or> b = names) (map fst new # map (\<lambda>_. []) namess) (names # namess)"
      using b by (simp add: list_all2_map1 list_all2_same list.rel_refl)
    moreover have "concat (map (\<lambda>_. []) namess) = []" by simp
    ultimately show ?thesis using p Inl by (intro exI [of _ "map fst new # map (\<lambda>_. []) namess"]) simp
  next
    case (Inr args')
    obtain bs where "list_all2 (\<lambda>b names. b = [] \<or> b = names) bs namess"
      "map fst (fst (run_parts parts (w @ new) args')) = map fst (w @ new) @ concat bs"
      using Cons.IH by blast
    then show ?thesis using p Inr b by (intro exI [of _ "map fst new # bs"]) simp
  qed
qed simp

lemma parse_logs_names:
  "\<exists>b1 b2 b3 b4. map fst (fst (parse_logs env args)) = b1 @ b2 @ b3 @ b4 \<and>
     (b1 = [] \<or> b1 = [out_path (run_prefix args) ''-iperf-throughput.csv'']) \<and>
     (b2 = [] \<or> b2 = [out_path (run_prefix args) ''-packet-client.csv'']) \<and>
     (b3 = [] \<or> b3 = [out_path (run_prefix args) ''-transit.csv'', out_path (run_prefix args) ''-jitter.csv'']) \<and>
     (b4 = [] \<or> b4 = [out_path (run_prefix args) ''-ss-server.csv''])"
proof -
  obtain args' where a: "prefix_args (path_exists env) args = (run_prefix args, args')"
    by (cases "l_prefix args") (auto simp: prefix_args_def run_prefix_def Let_def)
  let ?p = "run_prefix args"
  have "list_all2 log_stage
      [iperf_part env ?p, capture_part env ?p, packet_part env ?p, ss_part env ?p]
      [[out_path ?p ''-iperf-throughput.csv''], [out_path ?p ''-packet-client.csv''],
       [out_path ?p ''-transit.csv'', out_path ?p ''-jitter.csv''], [out_path ?p ''-ss-server.csv'']]"
    using iperf_stage.log_stage_axioms capture_stage.log_stage_axioms packets_stage.log_stage_axioms
      ss_stage.log_stage_axioms by simp
  from run_parts_blocks [OF this, of "[]" args'] obtain bs where
    bs: "list_all2 (\<lambda>b names. b = [] \<or> b = names) bs
      [[out_path ?p ''-iperf-throughput.csv''], [out_path ?p ''-packet-client.csv''],
       [out_path ?p ''-transit.csv'', out_path ?p ''-jitter.csv''], [out_path ?p ''-ss-server.csv'']]"
    and fst: "map fst (fst (parse_logs env args)) = concat bs"
    by (auto simp: parse_logs_def a simp del: run_parts.simps)
  from bs obtain b1 b2 b3 b4 where "bs = [b1, b2, b3, b4]" by (auto simp: list_all2_Cons2)
  with bs fst show ?thesis by (intro exI [of _ b1] exI [of _ b2] exI [of _ b3] exI [of _ b4]) simp
qed

lemma out_path_inj:
  "n \<noteq> [] \<Longrightarrow> n' \<noteq> [] \<Longrightarrow> hd n = hd n' \<Longrightarrow> out_path pre n = out_path pre n' \<longleftrightarrow> n = n'"
  by (cases pre) (auto simp: out_path_def path_join_def split: if_splits)


lemma output_paths_distinct: "distinct (map (out_path pre) output_names)"
  by (simp add: output_names_def out_path_inj)

section \<open>From the logs to the figure\<close>

lemma iperf_throughput_rows:
  assumes "parse_iperf3_log data = Ok (ts, tps)"
    and "rows = filter (\<lambda>(t, v). float_le (Fin 0) t \<and> float_le t (Fin 1200)) (zip ts tps)" and "rows \<noteq> []"
  shows "\<exists>average. iperf_throughput data None None = Ok (average, rows)"
proof -
  have "filter_time_range_iperf ts tps (Fin 0) (Fin 1200) = (map fst rows, map snd rows)"
    using assms(2) by (simp add: filter_time_range_iperf_def filter_time_loop_eq case_prod_unfold Let_def)
  moreover have "is_ok (float_mean (map snd rows))"
    using assms(3) by (cases "float_sum (map snd rows)") (auto simp: float_mean_def)
  ultimately show ?thesis
    using assms(1) by (auto simp: iperf_throughput_def time_range_def is_ok_def zip_map_fst_snd split: sum.splits)
qed

lemma parse_logs_prefix:
  assumes "plain_arg pre"
  shows "parse_logs_script env [''--prefix'', pre] =
    Inr (if path_exists env (out_path pre ''-iperf-client.json'')
         then (case and_then (json_load env (out_path pre ''-iperf-client.json'')) (\<lambda>data. iperf_throughput data None None) of
                 Inl e \<Rightarrow> ([], Some (Raised e))
               | Inr (average, rows) \<Rightarrow> ([(out_path pre ''-iperf-throughput.csv'', Throughput_csv rows)], None))
         else ([], None))"
  using parse_logs_cli.parse_command_line [of "[]" "[(one_option [''--prefix''] ''prefix'' Str_arg, ''--prefix'', [pre])]"] assms
  by (simp add: parse_logs_script_def run_script_def command_line_def given_ok_def take_count_def log_spec_defs
      arg_defs log_args_of_def parse_logs_def prefix_args_def iperf_part_def capture_part_def packet_part_def
      ss_part_def out_path_def split: sum.splits)

lemma plot_logs_auto:
  assumes "plain_arg run" and "exists (out_path run ''-iperf-throughput.csv'')" and "\<not> exists (out_path run ''-ss-server.csv'')"
    and "read_throughput (out_path run ''-iperf-throughput.csv'') = Ok rows"
  shows "plot_logs_script mean exists read_throughput read_ss sort_values [''-a'', run] =
    Inr (Ok (Some \<lparr>lf_axes = 1, lf_title = None,
      lf_series = [(0, ''Thuput(Mbps)'', filter_points sort_values rows (Fin 0) (Fin 1200))],
      lf_average = Some (mean (map snd (filter_points sort_values rows (Fin 0) (Fin 1200)))),
      lf_name = ''test-unspec.png''\<rparr>))"
  using plot_logs_cli.parse_command_line [of "[]" "[(one_option [''-a'', ''--auto''] ''auto'' Str_arg, ''-a'', [run])]"] assms
  by (simp add: plot_logs_script_def run_script_def command_line_def given_ok_def take_count_def log_spec_defs
      arg_defs plot_logs_main_def auto_args_def n_subfig_def draw_series_def truthy_def time_range_def out_path_def path_join_def)


lemma filter_points_sorted:
  assumes "sort_values_spec sort_values"
  shows "mset (filter_points sort_values df lo hi) =
      mset (filter (\<lambda>(t, v). float_le lo t \<and> float_le t hi) df)"
    and "sorted_wrt (\<lambda>x y. float_le (fst x) (fst y)) (filter_points sort_values df lo hi)"
proof -
  let ?le = "\<lambda>x y :: pyfloat \<times> pyfloat. float_sort_le (fst x) (fst y)"
  let ?kept = "filter (\<lambda>x. float_le lo (fst x) \<and> float_le (fst x) hi) df"
  have "total_preorder ?le"
    unfolding total_preorder_def using float_sort_le_total float_sort_le_trans by blast
  then have srt: "mset (sort_values ?le ?kept) = mset ?kept" "sorted_wrt ?le (sort_values ?le ?kept)"
    using assms unfolding sort_values_spec_def by blast+
  then show "mset (filter_points sort_values df lo hi) =
      mset (filter (\<lambda>(t, v). float_le lo t \<and> float_le t hi) df)"
    by (simp add: filter_points_def case_prod_unfold)
  have "fst y \<noteq> NaN" if "y \<in> set (sort_values ?le ?kept)" for y
    using that mset_eq_setD [OF srt(1)] by (cases lo) auto
  then show "sorted_wrt (\<lambda>x y. float_le (fst x) (fst y)) (filter_points sort_values df lo hi)"
    using srt(2) unfolding filter_points_def
    by (auto simp: float_sort_le_def elim!: sorted_wrt_mono_rel [rotated])
qed



text \<open>An environment for examples: no capture and no server log, one JSON log.\<close>

definition demo_env :: "json \<Rightarrow> log_env" where
  "demo_env data =
     \<lparr>path_exists = (\<lambda>p. p = out_path ''r1'' ''-iperf-client.json''), text_files = [''s.log'' \<mapsto> []],
      json_load = (\<lambda>_. Ok data), tshark = (\<lambda>_. ([], None)), read_packets = (\<lambda>_. Ok []),
      csv_text = (\<lambda>_. []), sort_packets = sort_rows, sort_entries = sort_rows,
      group_min = group_min_rows, merge_seq = merge_rows\<rparr>"

definition demo_report :: json where
  "demo_report = JObj [(''intervals'', JArr [JObj [(''sum'', JObj
      [(''start'', JFloat (Fin 0)), (''end'', JFloat (Fin 0)), (''bits_per_second'', JFloat (Fin 0))])]])]"


text \<open>(C36) A capture goes through: with \<open>--client_pcap\<close> and \<open>-s\<close>, \<open>parse-logs.py\<close>
  puts what \<open>tshark\<close> prints below the header line into the client table, and the packet stage
  reads that very text against the server log: both tables are written, or the run exits at a
  rollover, or the exception of the stage ends it, with the client table on disk in each case.\<close>

theorem parse_logs_capture:
  assumes "list_all plain_arg [run, pcap, server]"
    and "\<not> path_exists env (out_path run ''-iperf-client.json'')"
    and "tshark env (tshark_cmd pcap) = (out, None)"
    and "read_packets env (capture_header @ out) = Ok client"
    and "text_files env server = Some content" and "server \<noteq> out_path run ''-packet-client.csv''"
  shows "parse_logs_script env [''--prefix'', run, ''--client_pcap'', pcap, ''-s'', server] =
    Inr (case packet_metrics (sort_packets env) (group_min env) (merge_seq env) client content None None of
        Inl e \<Rightarrow> ([(out_path run ''-packet-client.csv'', Text_file (capture_header @ out))], Some (Raised e))
      | Inr Rollover_exit \<Rightarrow>
          ([(out_path run ''-packet-client.csv'', Text_file (capture_header @ out))], Some Exited)
      | Inr (Written df js) \<Rightarrow>
          ([(out_path run ''-packet-client.csv'', Text_file (capture_header @ out)),
            (out_path run ''-transit.csv'', Transit_csv df),
            (out_path run ''-jitter.csv'', Jitter_csv (zip df js))], None))"
  using parse_logs_cli.parse_command_line [of "[]"
      "[(one_option [''--prefix''] ''prefix'' Str_arg, ''--prefix'', [run]),
        (one_option [''--client_pcap''] ''client_pcap'' Str_arg, ''--client_pcap'', [pcap]),
        (one_option [''-s'', ''--server_packets''] ''server_packets'' Str_arg, ''-s'', [server])]"] assms
  by (simp add: parse_logs_script_def run_script_def command_line_def given_ok_def take_count_def log_spec_defs
      arg_defs log_args_of_def parse_logs_def prefix_args_def iperf_part_def capture_part_def packet_part_def
      packet_run_def files_after_def ss_part_def out_path_def Let_def split: sum.splits packet_outcome.splits)


theorem parse_logs_capture_witness:
  "parse_logs_script (demo_env JNull) [''--prefix'', ''r2'', ''--client_pcap'', ''c.pcap'', ''-s'', ''s.log''] =
     Inr ([(out_path ''r2'' ''-packet-client.csv'', Text_file capture_header)], Some (Raised IndexError))"
proof -
  have "packet_metrics sort_rows group_min_rows merge_rows [] [] None None = Raise IndexError"
    by (simp add: packet_metrics_def time_range_def filter_relative_time_range_def check_rollover_def sort_rows_def
        py_index_def)
  moreover have "out_path ''r2'' ''-iperf-client.json'' \<noteq> out_path ''r1'' ''-iperf-client.json''"
    "''s.log'' \<noteq> out_path ''r2'' ''-packet-client.csv''"
    by (simp_all add: out_path_def path_join_def)
  ultimately show ?thesis
    using parse_logs_capture [of "''r2''" "''c.pcap''" "''s.log''" "demo_env JNull" "[]" "[]" "[]"]
    by (simp add: demo_env_def plain_arg_def)
qed

end
