(* ===== verification/C_Prelude.thy ===== *)
theory C_Prelude
  imports Prelude "HOL-Library.Word" "HOL-Library.Multiset" "HOL-Library.Monad_Syntax"
begin

text \<open>
  What the theories of the emulator (the C sources under \<open>src/src\<close>) share.
  A C function that can run into undefined behaviour returns an \<open>option\<close>:
  \<open>None\<close> is an access through a null or uninitialised pointer, an index outside
  an array, a signed overflow. A C \<open>int\<close> is an \<open>int\<close> whose
  decrement and addition are checked against the 32-bit range; the unsigned types are
  words of their width.
\<close>

unbundle bit_operations_syntax

named_theorems c_simps \<open>evaluation of the checked operations of C\<close>

section \<open>Signed arithmetic\<close>

definition INT_MIN :: int where "INT_MIN = - (2 ^ 31)"
definition INT_MAX :: int where "INT_MAX = 2 ^ 31 - 1"

definition c_int :: "int \<Rightarrow> int option" where
  "c_int x = (if INT_MIN \<le> x \<and> x \<le> INT_MAX then Some x else None)"

text \<open>The value a post-decrement leaves in the variable.\<close>

definition c_dec :: "int \<Rightarrow> int option" where
  "c_dec x = c_int (x - 1)"

text \<open>The conversion to \<open>int\<close> of a value of a wider type keeps the low 32 bits.\<close>

definition to_int32 :: "int \<Rightarrow> int" where
  "to_int32 x = signed_take_bit 31 x"

lemma c_int_Some [c_simps]: "INT_MIN \<le> x \<Longrightarrow> x \<le> INT_MAX \<Longrightarrow> c_int x = Some x"
  by (simp add: c_int_def)

lemma c_int_eq_Some: "c_int x = Some y \<longleftrightarrow> y = x \<and> INT_MIN \<le> x \<and> x \<le> INT_MAX"
  by (auto simp: c_int_def)

lemma c_dec_Some [c_simps]: "INT_MIN < x \<Longrightarrow> x \<le> INT_MAX \<Longrightarrow> c_dec x = Some (x - 1)"
  by (simp add: c_dec_def c_int_def)

lemma c_dec_eq_Some: "c_dec x = Some y \<longleftrightarrow> y = x - 1 \<and> INT_MIN < x \<and> x \<le> INT_MAX + 1"
  by (auto simp: c_dec_def c_int_eq_Some)

lemma to_int32_range: "INT_MIN \<le> to_int32 x" "to_int32 x \<le> INT_MAX"
  using signed_take_bit_int_greater_eq_minus_exp [of 31 x]
    signed_take_bit_int_less_exp [of 31 x]
  by (simp_all add: to_int32_def INT_MIN_def INT_MAX_def)

lemma to_int32_id: "INT_MIN \<le> x \<Longrightarrow> x \<le> INT_MAX \<Longrightarrow> to_int32 x = x"
  by (simp add: to_int32_def INT_MIN_def INT_MAX_def signed_take_bit_int_eq_self_iff)

section \<open>Network byte order\<close>

type_synonym byte = "8 word"

definition be16 :: "byte \<Rightarrow> byte \<Rightarrow> 16 word" where
  "be16 h l = push_bit 8 (ucast h) OR ucast l"

definition be32 :: "byte \<Rightarrow> byte \<Rightarrow> byte \<Rightarrow> byte \<Rightarrow> 32 word" where
  "be32 a b c d =
     push_bit 24 (ucast a) OR push_bit 16 (ucast b) OR push_bit 8 (ucast c) OR ucast d"

definition hi8 :: "16 word \<Rightarrow> byte" where "hi8 w = ucast (drop_bit 8 w)"
definition lo8 :: "16 word \<Rightarrow> byte" where "lo8 w = ucast w"

lemma be16_hi_lo [simp]: "be16 (hi8 w) (lo8 w) = w"
  by (rule bit_word_eqI) (auto simp: be16_def hi8_def lo8_def bit_simps)

lemma ucast_64_32_add: "(ucast (a + b :: 64 word) :: 32 word) = ucast a + ucast b"
proof -
  have "take_bit 32 (i + j) = take_bit 32 (take_bit 64 i + take_bit 64 j)" for i j :: int
    using take_bit_add [of 32 i j] take_bit_add [of 32 "take_bit 64 i" "take_bit 64 j"]
    by simp
  then show ?thesis by transfer simp
qed

lemma ucast_64_32_ucast [simp]: "(ucast (ucast (x :: 32 word) :: 64 word) :: 32 word) = x"
  by transfer simp

end
