(* ===== verification/Worker.thy ===== *)
theory Worker
  imports C_Prelude
begin

text \<open>
  The packet worker of the emulator, \<open>src/src/worker.c\<close>: the state
  \<open>worker_ctx\<close>, the operations by which the scheduler thread configures it,
  the four handlers a queued packet goes through in the netfilter queue thread, and
  the callback that composes them.

  A handler returns whether it took the packet over, the verdicts it issued, in order,
  and the new state; \<open>None\<close> is undefined behaviour. The return value \<open>ret\<close>
  of the verdict calls and the log lines are not modelled; \<open>id\<close>, a label for the
  log, the locks and \<open>burst_sample_interval\<close>, which nothing uses, are left out of the
  record. The four locks make every handler and every
  configuring operation one step; between two handlers of the same packet the scheduler
  thread may act, and \<open>worker_step\<close> below allows exactly that.

  The checksum routine of libnetfilter\_queue is a parameter.
\<close>

section \<open>State\<close>

record worker_ctx =
  mark :: "32 word"
  do_reorder :: int
  reorder_count :: int
  reorder_offset :: int
  reorder_id_cur :: int
  reorder_ids :: "32 word list"
  do_drop :: int
  drop_count :: int
  do_rwnd :: int
  tune_rwnd :: "16 word"
  do_burst :: int
  data_rcvd :: "64 word"
  do_adapt :: int
  do_dedup :: int
  last_ack :: "32 word"

text \<open>A packet of the queue: its identifier, and its payload unless
  \<open>nfq_get_payload\<close> reports an error (it returns \<open>-1\<close>).\<close>

record nfq_packet =
  packet_id :: "32 word"
  payload :: "byte list option"

text \<open>\<open>nfq_set_verdict\<close> with \<open>NF_DROP\<close>, and \<open>nfq_set_verdict2\<close> with
  \<open>NF_ACCEPT\<close>, a mark, and a replacement of the payload or none.\<close>

datatype verdict =
    Drop (verdict_id: "32 word")
  | Accept (verdict_id: "32 word") (verdict_mark: "32 word") (new_payload: "byte list option")

type_synonym handled = "(bool \<times> verdict list \<times> worker_ctx) option"

definition WORKER_MAX_REORDER_COUNT :: nat where
  "WORKER_MAX_REORDER_COUNT = 1000"

section \<open>Configuration, by the scheduler thread\<close>

text \<open>The record is allocated and not cleared: what the initialisation does not write
  keeps the value \<open>raw\<close> has. The array of identifiers has its capacity from here on.\<close>

definition worker_init_ctx :: "worker_ctx \<Rightarrow> worker_ctx" where
  "worker_init_ctx raw =
     raw\<lparr>mark := 0, do_rwnd := 0, do_dedup := 0, do_reorder := 0, do_drop := 0,
         do_adapt := 0, do_burst := 0,
         reorder_ids := take WORKER_MAX_REORDER_COUNT
           (reorder_ids raw @ replicate WORKER_MAX_REORDER_COUNT 0)\<rparr>"

definition worker_set_mark :: "32 word \<Rightarrow> worker_ctx \<Rightarrow> worker_ctx" where
  "worker_set_mark m ctx = ctx\<lparr>mark := m\<rparr>"

definition worker_sol_update :: "int \<Rightarrow> worker_ctx \<Rightarrow> worker_ctx" where
  "worker_sol_update rwnd ctx =
     ctx\<lparr>do_adapt := 0, do_burst := 0, tune_rwnd := word_of_int rwnd\<rparr>"

definition worker_set_rwnd :: "16 word \<Rightarrow> worker_ctx \<Rightarrow> worker_ctx" where
  "worker_set_rwnd rwnd ctx = ctx\<lparr>tune_rwnd := rwnd\<rparr>"

definition worker_set_burst :: "int \<Rightarrow> int \<Rightarrow> worker_ctx \<Rightarrow> worker_ctx" where
  "worker_set_burst enable rwnd ctx =
     (let ctx = ctx\<lparr>do_burst := enable\<rparr>
      in if enable > 0
         then ctx\<lparr>do_adapt := 0, data_rcvd := 0, tune_rwnd := word_of_int rwnd\<rparr>
         else ctx)"

definition worker_set_adapt :: "int \<Rightarrow> int \<Rightarrow> worker_ctx \<Rightarrow> worker_ctx" where
  "worker_set_adapt enable rwnd ctx =
     (let ctx = ctx\<lparr>do_adapt := enable\<rparr>
      in if enable > 0
         then ctx\<lparr>do_burst := 0, data_rcvd := 0, tune_rwnd := word_of_int rwnd\<rparr>
         else ctx)"

definition worker_init_tcp_sched :: "int \<Rightarrow> worker_ctx \<Rightarrow> worker_ctx" where
  "worker_init_tcp_sched rw ctx = ctx\<lparr>do_rwnd := rw, do_adapt := 1, data_rcvd := 0\<rparr>"

definition worker_set_dedup :: "int \<Rightarrow> worker_ctx \<Rightarrow> worker_ctx" where
  "worker_set_dedup enable ctx = ctx\<lparr>do_dedup := enable\<rparr>"

definition worker_set_reorder :: "int \<Rightarrow> 16 word \<Rightarrow> 16 word \<Rightarrow> worker_ctx \<Rightarrow> worker_ctx" where
  "worker_set_reorder enable cnt ofs ctx =
     (let cnt = (if unat cnt > WORKER_MAX_REORDER_COUNT
                 then of_nat WORKER_MAX_REORDER_COUNT else cnt);
          ctx = ctx\<lparr>do_reorder := enable\<rparr>
      in if enable \<noteq> 0
         then ctx\<lparr>reorder_count := uint cnt, reorder_offset := uint ofs,
                  reorder_id_cur := 0\<rparr>
         else ctx)"

definition worker_set_drop :: "int \<Rightarrow> int \<Rightarrow> worker_ctx \<Rightarrow> worker_ctx" where
  "worker_set_drop enable n ctx =
     (let ctx = ctx\<lparr>do_drop := enable\<rparr>
      in if enable \<noteq> 0 then ctx\<lparr>drop_count := n\<rparr> else ctx)"

section \<open>Packet fields\<close>

text \<open>Header lengths and fields as the casts to \<open>struct iphdr\<close> and
  \<open>struct tcphdr\<close> read them.\<close>

definition IPHDR_SIZE :: nat where "IPHDR_SIZE = 20"
definition TCPHDR_SIZE :: nat where "TCPHDR_SIZE = 20"

definition ip_ihl :: "byte list \<Rightarrow> nat" where
  "ip_ihl bs = unat (bs ! 0 AND 15) * 4"

definition tcp_ack :: "byte list \<Rightarrow> 32 word" where
  "tcp_ack bs = (let t = ip_ihl bs in be32 (bs ! (t + 8)) (bs ! (t + 9)) (bs ! (t + 10)) (bs ! (t + 11)))"

definition tcp_doff :: "byte list \<Rightarrow> nat" where
  "tcp_doff bs = unat (drop_bit 4 (bs ! (ip_ihl bs + 12))) * 4"

definition tcp_window :: "byte list \<Rightarrow> 16 word" where
  "tcp_window bs = (let t = ip_ihl bs in be16 (bs ! (t + 14)) (bs ! (t + 15)))"

definition set_tcp_window :: "16 word \<Rightarrow> byte list \<Rightarrow> byte list" where
  "set_tcp_window w bs = (let t = ip_ihl bs in bs[t + 14 := hi8 w, t + 15 := lo8 w])"

section \<open>Handlers, by the queue thread\<close>

definition worker_handle_drop :: "worker_ctx \<Rightarrow> nfq_packet \<Rightarrow> handled" where
  "worker_handle_drop ctx p =
     (if do_drop ctx = 0 then Some (False, [], ctx)
      else do {
        n \<leftarrow> c_dec (drop_count ctx);
        let drops = drop_count ctx > 0;
        Some (drops, (if drops then [Drop (packet_id p)] else []),
              ctx\<lparr>drop_count := n, do_drop := (if n \<le> 0 then 0 else do_drop ctx)\<rparr>)
      })"

text \<open>The loop that releases the queued packets, from the last to the first.\<close>

fun release_loop :: "worker_ctx \<Rightarrow> nat \<Rightarrow> verdict list" where
  "release_loop ctx 0 = []"
| "release_loop ctx (Suc i) = Accept (reorder_ids ctx ! i) (mark ctx) None # release_loop ctx i"

text \<open>The first branch: queue the packet, or let it pass while the offset lasts.\<close>

definition reorder_queue :: "worker_ctx \<Rightarrow> nfq_packet \<Rightarrow> (verdict list \<times> worker_ctx) option" where
  "reorder_queue ctx p = do {
     n \<leftarrow> c_dec (reorder_count ctx);
     if reorder_count ctx > 0
     then (if 0 \<le> reorder_id_cur ctx \<and> reorder_id_cur ctx < int (length (reorder_ids ctx))
           then Some ([], ctx\<lparr>reorder_count := n,
                  reorder_ids := (reorder_ids ctx)[nat (reorder_id_cur ctx) := packet_id p],
                  reorder_id_cur := reorder_id_cur ctx + 1\<rparr>)
           else None)
     else do {
       m \<leftarrow> c_dec (reorder_offset ctx);
       Some (if reorder_offset ctx > 0 then [Accept (packet_id p) (mark ctx) None] else [],
             ctx\<lparr>reorder_count := n, reorder_offset := m\<rparr>)
     }
   }"

text \<open>The second: once the offset is used up, release what is queued.\<close>

definition reorder_release :: "worker_ctx \<Rightarrow> (verdict list \<times> worker_ctx) option" where
  "reorder_release ctx =
     (if reorder_offset ctx \<le> 0
      then if reorder_id_cur ctx \<le> int (length (reorder_ids ctx))
           then Some (release_loop ctx (nat (reorder_id_cur ctx)),
                      ctx\<lparr>do_reorder := 0, reorder_id_cur := 0\<rparr>)
           else None
      else Some ([], ctx))"

definition worker_handle_reorder :: "worker_ctx \<Rightarrow> nfq_packet \<Rightarrow> handled" where
  "worker_handle_reorder ctx p =
     (if do_reorder ctx = 0 then Some (False, [], ctx)
      else do {
        (passed, ctx1) \<leftarrow> reorder_queue ctx p;
        (released, ctx2) \<leftarrow> reorder_release ctx1;
        Some (True, passed @ released, ctx2)
      })"

text \<open>A failed \<open>nfq_get_payload\<close> leaves \<open>-1\<close> in \<open>len\<close>, which the comparison
  with an unsigned size lets through: the pointer read next was never set.\<close>

definition worker_handle_dedup :: "worker_ctx \<Rightarrow> nfq_packet \<Rightarrow> handled" where
  "worker_handle_dedup ctx p =
     (if do_dedup ctx = 0 then Some (False, [], ctx)
      else do {
        bs \<leftarrow> payload p;
        if length bs < IPHDR_SIZE \<or> length bs < ip_ihl bs + TCPHDR_SIZE
        then Some (False, [], ctx)
        else if tcp_ack bs = last_ack ctx \<and> length bs \<le> ip_ihl bs + tcp_doff bs
        then Some (True, [Drop (packet_id p)], ctx)
        else Some (False, [], ctx)
      })"

definition worker_handle_rwnd ::
  "(byte list \<Rightarrow> byte list) \<Rightarrow> worker_ctx \<Rightarrow> nfq_packet \<Rightarrow> handled" where
  "worker_handle_rwnd tcp_checksum ctx p = do {
     bs \<leftarrow> payload p;
     if length bs < IPHDR_SIZE \<or> ip_ihl bs < IPHDR_SIZE \<or> length bs < ip_ihl bs + TCPHDR_SIZE
     then Some (False, [], ctx)
     else if do_rwnd ctx = 0 then Some (False, [], ctx)
     else
       let recv = tcp_ack bs - last_ack ctx;
           ctx = ctx\<lparr>data_rcvd := data_rcvd ctx + ucast recv, last_ack := tcp_ack bs\<rparr>
       in if tune_rwnd ctx < tcp_window bs
          then Some (True, [Accept (packet_id p) (mark ctx)
                 (Some (tcp_checksum (set_tcp_window (tune_rwnd ctx) bs)))], ctx)
          else Some (False, [], ctx)
   }"

text \<open>The debugging hook that runs first reads the payload in the same way. For a
  packet from 10.0.0.1 it logs the source port, the sequence and the acknowledgement
  number (with the time of day, which the theory \<open>Packet_Log\<close> adds).\<close>

definition packet_logging :: "nfq_packet \<Rightarrow> (16 word \<times> 32 word \<times> 32 word) option option" where
  "packet_logging p = do {
     bs \<leftarrow> payload p;
     if length bs < IPHDR_SIZE \<or> length bs < ip_ihl bs + TCPHDR_SIZE then Some None
     else if be32 (bs ! 12) (bs ! 13) (bs ! 14) (bs ! 15) = be32 10 0 0 1
     then let t = ip_ihl bs
          in Some (Some (be16 (bs ! t) (bs ! (t + 1)),
               be32 (bs ! (t + 4)) (bs ! (t + 5)) (bs ! (t + 6)) (bs ! (t + 7)), tcp_ack bs))
     else Some None
   }"

section \<open>The callback\<close>

text \<open>The chain of handlers: the first that takes the packet over ends it.\<close>

fun run_handlers :: "(worker_ctx \<Rightarrow> nfq_packet \<Rightarrow> handled) list \<Rightarrow> worker_ctx \<Rightarrow> nfq_packet
    \<Rightarrow> (verdict list \<times> worker_ctx) option" where
  "run_handlers [] ctx p = Some ([Accept (packet_id p) (mark ctx) None], ctx)"
| "run_handlers (h # hs) ctx p = do {
     (handled, out, ctx1) \<leftarrow> h ctx p;
     if handled then Some (out, ctx1)
     else do {
       (out2, ctx2) \<leftarrow> run_handlers hs ctx1 p;
       Some (out @ out2, ctx2)
     }
   }"

definition worker_handlers ::
  "(byte list \<Rightarrow> byte list) \<Rightarrow> (worker_ctx \<Rightarrow> nfq_packet \<Rightarrow> handled) list" where
  "worker_handlers tcp_checksum =
     [worker_handle_drop, worker_handle_reorder, worker_handle_dedup,
      worker_handle_rwnd tcp_checksum]"

definition worker_callback ::
  "(byte list \<Rightarrow> byte list) \<Rightarrow> worker_ctx \<Rightarrow> nfq_packet \<Rightarrow> (verdict list \<times> worker_ctx) option" where
  "worker_callback tcp_checksum ctx p = do {
     logged \<leftarrow> packet_logging p;
     run_handlers (worker_handlers tcp_checksum) ctx p
   }"

text \<open>The queue thread on its own, with no configuration in between.\<close>

fun run_callbacks :: "(byte list \<Rightarrow> byte list) \<Rightarrow> worker_ctx \<Rightarrow> nfq_packet list
    \<Rightarrow> (verdict list \<times> worker_ctx) option" where
  "run_callbacks f ctx [] = Some ([], ctx)"
| "run_callbacks f ctx (p # ps) = do {
     (out, ctx1) \<leftarrow> worker_callback f ctx p;
     (outs, ctx2) \<leftarrow> run_callbacks f ctx1 ps;
     Some (out @ outs, ctx2)
   }"


section \<open>The two threads\<close>

text \<open>What the scheduler thread may do to a worker, one operation at a time.
  \<open>Tune\<close> is the effect of \<open>tcp_schedule\<close> (\<open>src/src/action.c\<close>).\<close>

datatype worker_op =
    SetMark "32 word"
  | SolUpdate int
  | SetRwnd "16 word"
  | SetBurst int int
  | SetAdapt int int
  | InitTcpSched int
  | SetDedup int
  | SetReorder int "16 word" "16 word"
  | SetDrop int int
  | Tune "16 word"

fun apply_op :: "worker_op \<Rightarrow> worker_ctx \<Rightarrow> worker_ctx" where
  "apply_op (SetMark m) = worker_set_mark m"
| "apply_op (SolUpdate rwnd) = worker_sol_update rwnd"
| "apply_op (SetRwnd rwnd) = worker_set_rwnd rwnd"
| "apply_op (SetBurst e rwnd) = worker_set_burst e rwnd"
| "apply_op (SetAdapt e rwnd) = worker_set_adapt e rwnd"
| "apply_op (InitTcpSched e) = worker_init_tcp_sched e"
| "apply_op (SetDedup e) = worker_set_dedup e"
| "apply_op (SetReorder e cnt ofs) = worker_set_reorder e cnt ofs"
| "apply_op (SetDrop e n) = worker_set_drop e n"
| "apply_op (Tune w) = (\<lambda>ctx. ctx\<lparr>tune_rwnd := w, data_rcvd := 0\<rparr>)"

text \<open>A drop count is an \<open>int\<close>; the least one could not be decremented.\<close>

fun op_ok :: "worker_op \<Rightarrow> bool" where
  "op_ok (SetDrop e n) \<longleftrightarrow> INT_MIN < n \<and> n \<le> INT_MAX"
| "op_ok _ \<longleftrightarrow> True"

datatype stage = Waiting | AtHandler nat nfq_packet

record worker_state =
  wctx :: worker_ctx
  stage :: stage
  arrived :: "32 word list"
  issued :: "verdict list"

definition worker_start :: "worker_ctx \<Rightarrow> worker_state" where
  "worker_start raw =
     \<lparr>wctx = worker_init_ctx raw, stage = Waiting, arrived = [], issued = []\<rparr>"

inductive worker_step ::
  "(worker_ctx \<Rightarrow> nfq_packet \<Rightarrow> handled) list \<Rightarrow> worker_state \<Rightarrow> worker_state \<Rightarrow> bool"
  for hs where
  arrive: "stage s = Waiting \<Longrightarrow> payload p \<noteq> None \<Longrightarrow>
     worker_step hs s (s\<lparr>stage := AtHandler 0 p, arrived := arrived s @ [packet_id p]\<rparr>)"
| taken: "stage s = AtHandler i p \<Longrightarrow> i < length hs \<Longrightarrow>
     (hs ! i) (wctx s) p = Some (True, out, c) \<Longrightarrow>
     worker_step hs s (s\<lparr>wctx := c, stage := Waiting, issued := issued s @ out\<rparr>)"
| passed: "stage s = AtHandler i p \<Longrightarrow> i < length hs \<Longrightarrow>
     (hs ! i) (wctx s) p = Some (False, out, c) \<Longrightarrow>
     worker_step hs s (s\<lparr>wctx := c, stage := AtHandler (Suc i) p, issued := issued s @ out\<rparr>)"
| accepted: "stage s = AtHandler i p \<Longrightarrow> i = length hs \<Longrightarrow>
     worker_step hs s (s\<lparr>stage := Waiting,
       issued := issued s @ [Accept (packet_id p) (mark (wctx s)) None]\<rparr>)"
| configure: "op_ok op \<Longrightarrow> worker_step hs s (s\<lparr>wctx := apply_op op (wctx s)\<rparr>)"

inductive worker_reach ::
  "(worker_ctx \<Rightarrow> nfq_packet \<Rightarrow> handled) list \<Rightarrow> worker_state \<Rightarrow> bool" for hs where
  start: "worker_reach hs (worker_start raw)"
| step: "worker_reach hs s \<Longrightarrow> worker_step hs s t \<Longrightarrow> worker_reach hs t"

section \<open>Invariants\<close>

text \<open>While reordering is on, the identifiers still to be queued fit in the array, and
  the two counters stay in the range of an \<open>int\<close>.\<close>

definition reorder_inv :: "worker_ctx \<Rightarrow> bool" where
  "reorder_inv ctx \<longleftrightarrow> length (reorder_ids ctx) = WORKER_MAX_REORDER_COUNT \<and>
     (do_reorder ctx \<noteq> 0 \<longrightarrow>
        0 \<le> reorder_id_cur ctx \<and>
        reorder_id_cur ctx + max 0 (reorder_count ctx) \<le> int WORKER_MAX_REORDER_COUNT \<and>
        0 \<le> reorder_offset ctx \<and> reorder_offset ctx \<le> 65535 \<and>
        (0 \<le> reorder_count ctx \<or> reorder_offset ctx - 65535 \<le> reorder_count ctx))"

definition drop_inv :: "worker_ctx \<Rightarrow> bool" where
  "drop_inv ctx \<longleftrightarrow> (do_drop ctx \<noteq> 0 \<longrightarrow> INT_MIN < drop_count ctx \<and> drop_count ctx \<le> INT_MAX)"

definition worker_inv :: "worker_ctx \<Rightarrow> bool" where
  "worker_inv ctx \<longleftrightarrow> reorder_inv ctx \<and> drop_inv ctx"

text \<open>The packets that wait for their release.\<close>

definition held :: "worker_ctx \<Rightarrow> 32 word list" where
  "held ctx = (if do_reorder ctx \<noteq> 0 then take (nat (reorder_id_cur ctx)) (reorder_ids ctx) else [])"

lemmas inv_defs = worker_inv_def reorder_inv_def drop_inv_def WORKER_MAX_REORDER_COUNT_def

section \<open>What a handler promises\<close>

text \<open>The contract of a stage of the callback: it is defined wherever the invariant
  holds and the payload is there, it keeps the invariant, and it never issues a verdict
  for a packet that is neither the current one nor held, nor two for the same.\<close>

locale packet_stage =
  fixes handle :: "worker_ctx \<Rightarrow> nfq_packet \<Rightarrow> handled"
  assumes defined: "worker_inv ctx \<Longrightarrow> payload p \<noteq> None \<Longrightarrow> handle ctx p \<noteq> None"
    and keeps: "worker_inv ctx \<Longrightarrow> handle ctx p = Some (h, out, ctx') \<Longrightarrow> worker_inv ctx'"
    and accounts: "worker_inv ctx \<Longrightarrow> handle ctx p = Some (h, out, ctx') \<Longrightarrow>
      mset (map verdict_id out) + mset (held ctx') + (if h then {#} else {#packet_id p#})
        \<subseteq># mset (held ctx) + {#packet_id p#}"

subsection \<open>Dropping\<close>

lemma worker_handle_drop_Some:
  "worker_handle_drop ctx p = Some (h, out, ctx') \<longleftrightarrow>
     (if do_drop ctx = 0 then \<not> h \<and> out = [] \<and> ctx' = ctx
      else INT_MIN < drop_count ctx \<and> drop_count ctx \<le> INT_MAX + 1 \<and>
        h = (drop_count ctx > 0) \<and> out = (if h then [Drop (packet_id p)] else []) \<and>
        ctx' = ctx\<lparr>drop_count := drop_count ctx - 1,
          do_drop := (if drop_count ctx \<le> 1 then 0 else do_drop ctx)\<rparr>)"
  by (auto simp: worker_handle_drop_def bind_eq_Some_conv c_dec_eq_Some Let_def)

interpretation drop_stage: packet_stage worker_handle_drop
proof
  fix ctx :: worker_ctx and p :: nfq_packet
  assume "worker_inv ctx"
  then show "worker_handle_drop ctx p \<noteq> None"
    by (auto simp: worker_handle_drop_def inv_defs c_simps Let_def)
next
  fix ctx ctx' :: worker_ctx and p :: nfq_packet and h out
  assume inv: "worker_inv ctx" and r: "worker_handle_drop ctx p = Some (h, out, ctx')"
  show "worker_inv ctx'"
    using inv r by (auto simp: worker_handle_drop_Some inv_defs INT_MIN_def split: if_splits)
  show "mset (map verdict_id out) + mset (held ctx') + (if h then {#} else {#packet_id p#})
      \<subseteq># mset (held ctx) + {#packet_id p#}"
    using r by (auto simp: worker_handle_drop_Some held_def split: if_splits)
qed

subsection \<open>Reordering\<close>

lemma release_loop_ids:
  "n \<le> length (reorder_ids ctx) \<Longrightarrow>
     release_loop ctx n = map (\<lambda>i. Accept i (mark ctx) None) (rev (take n (reorder_ids ctx)))"
  by (induction n) (simp_all add: take_Suc_conv_app_nth)

lemma reorder_queue_inv:
  assumes "reorder_inv ctx" and "do_reorder ctx \<noteq> 0"
  shows "\<exists>out ctx'. reorder_queue ctx p = Some (out, ctx') \<and>
    length (reorder_ids ctx') = WORKER_MAX_REORDER_COUNT \<and> do_reorder ctx' \<noteq> 0 \<and>
    0 \<le> reorder_id_cur ctx' \<and>
    reorder_id_cur ctx' + max 0 (reorder_count ctx') \<le> int WORKER_MAX_REORDER_COUNT \<and>
    reorder_offset ctx' \<le> 65535 \<and>
    (0 \<le> reorder_count ctx' \<or> reorder_offset ctx' - 65535 \<le> reorder_count ctx') \<and>
    do_drop ctx' = do_drop ctx \<and> drop_count ctx' = drop_count ctx \<and>
    mset (map verdict_id out) + mset (held ctx') \<subseteq># mset (held ctx) + {#packet_id p#}"
proof (cases "reorder_count ctx > 0")
  case True
  with assms have "c_dec (reorder_count ctx) = Some (reorder_count ctx - 1)"
    and "take (nat (reorder_id_cur ctx + 1))
        ((reorder_ids ctx)[nat (reorder_id_cur ctx) := packet_id p]) =
      take (nat (reorder_id_cur ctx)) (reorder_ids ctx) @ [packet_id p]"
    by (auto simp: inv_defs c_dec_eq_Some INT_MIN_def INT_MAX_def nat_add_distrib
        take_Suc_conv_app_nth)
  with True assms show ?thesis
    by (auto simp: reorder_queue_def inv_defs held_def)
next
  case False
  with assms have "c_dec (reorder_count ctx) = Some (reorder_count ctx - 1)"
    and "c_dec (reorder_offset ctx) = Some (reorder_offset ctx - 1)"
    by (auto simp: inv_defs c_dec_eq_Some INT_MIN_def INT_MAX_def)
  with False assms show ?thesis
    by (auto simp: reorder_queue_def inv_defs held_def)
qed

lemma worker_handle_reorder_inv:
  assumes "worker_inv ctx"
  shows "\<exists>h out ctx'. worker_handle_reorder ctx p = Some (h, out, ctx') \<and> worker_inv ctx' \<and>
    mset (map verdict_id out) + mset (held ctx') + (if h then {#} else {#packet_id p#})
      \<subseteq># mset (held ctx) + {#packet_id p#}"
proof (cases "do_reorder ctx = 0")
  case True
  with assms show ?thesis
    by (intro exI [of _ False] exI [of _ "[]"] exI [of _ ctx])
      (simp add: worker_handle_reorder_def)
next
  case False
  from assms have inv: "reorder_inv ctx" by (simp add: worker_inv_def)
  obtain out c where q: "reorder_queue ctx p = Some (out, c)"
    and len: "length (reorder_ids c) = WORKER_MAX_REORDER_COUNT" and on: "do_reorder c \<noteq> 0"
    and cur: "0 \<le> reorder_id_cur c"
      "reorder_id_cur c + max 0 (reorder_count c) \<le> int WORKER_MAX_REORDER_COUNT"
    and rest: "reorder_offset c \<le> 65535"
      "0 \<le> reorder_count c \<or> reorder_offset c - 65535 \<le> reorder_count c"
      "do_drop c = do_drop ctx" "drop_count c = drop_count ctx"
    and acc: "mset (map verdict_id out) + mset (held c) \<subseteq># mset (held ctx) + {#packet_id p#}"
    using reorder_queue_inv [OF inv False, of p] by blast
  show ?thesis
  proof (cases "reorder_offset c \<le> 0")
    case True
    from len cur have le: "nat (reorder_id_cur c) \<le> length (reorder_ids c)" by linarith
    then have "mset (map verdict_id (release_loop c (nat (reorder_id_cur c)))) = mset (held c)"
      using on by (simp add: release_loop_ids held_def comp_def)
    with acc have "mset (map verdict_id (out @ release_loop c (nat (reorder_id_cur c))))
        + mset (held (c\<lparr>do_reorder := 0, reorder_id_cur := 0\<rparr>)) + {#}
        \<subseteq># mset (held ctx) + {#packet_id p#}"
      by (simp add: held_def)
    moreover have "worker_inv (c\<lparr>do_reorder := 0, reorder_id_cur := 0\<rparr>)"
      using len rest assms by (simp add: inv_defs)
    moreover have "worker_handle_reorder ctx p =
        Some (True, out @ release_loop c (nat (reorder_id_cur c)),
          c\<lparr>do_reorder := 0, reorder_id_cur := 0\<rparr>)"
      using True False le q by (simp add: worker_handle_reorder_def reorder_release_def)
    ultimately show ?thesis by auto
  next
    case offs: False
    then have "worker_handle_reorder ctx p = Some (True, out, c)"
      using False q by (simp add: worker_handle_reorder_def reorder_release_def)
    moreover have "worker_inv c"
      using offs len cur rest assms by (simp add: inv_defs)
    ultimately show ?thesis using acc by auto
  qed
qed

interpretation reorder_stage: packet_stage worker_handle_reorder
proof
  fix ctx :: worker_ctx and p :: nfq_packet
  assume "worker_inv ctx"
  then show "worker_handle_reorder ctx p \<noteq> None"
    using worker_handle_reorder_inv [of ctx p] by auto
next
  fix ctx ctx' :: worker_ctx and p :: nfq_packet and h out
  assume "worker_inv ctx" and "worker_handle_reorder ctx p = Some (h, out, ctx')"
  then show "worker_inv ctx'"
    and "mset (map verdict_id out) + mset (held ctx') + (if h then {#} else {#packet_id p#})
      \<subseteq># mset (held ctx) + {#packet_id p#}"
    using worker_handle_reorder_inv [of ctx p] by auto
qed

subsection \<open>Duplicate acknowledgements and the receive window\<close>

lemma worker_handle_dedup_Some:
  "worker_handle_dedup ctx p = Some (h, out, ctx') \<Longrightarrow>
     ctx' = ctx \<and> out = (if h then [Drop (packet_id p)] else [])"
  by (auto simp: worker_handle_dedup_def bind_eq_Some_conv split: if_splits)

interpretation dedup_stage: packet_stage worker_handle_dedup
proof
  fix ctx :: worker_ctx and p :: nfq_packet
  assume "payload p \<noteq> None"
  then show "worker_handle_dedup ctx p \<noteq> None"
    by (auto simp: worker_handle_dedup_def)
qed (auto dest: worker_handle_dedup_Some)

lemma worker_handle_rwnd_Some:
  assumes "worker_handle_rwnd f ctx p = Some (h, out, ctx')"
  shows "worker_inv ctx' = worker_inv ctx" "held ctx' = held ctx"
    "map verdict_id out = (if h then [packet_id p] else [])"
  using assms
  by (auto simp: worker_handle_rwnd_def bind_eq_Some_conv Let_def inv_defs held_def
      split: if_splits)

interpretation rwnd_stage: packet_stage "worker_handle_rwnd f" for f
proof
  fix ctx :: worker_ctx and p :: nfq_packet
  assume "payload p \<noteq> None"
  then show "worker_handle_rwnd f ctx p \<noteq> None"
    by (auto simp: worker_handle_rwnd_def Let_def)
qed (simp_all add: worker_handle_rwnd_Some)

section \<open>The chain of handlers\<close>

text \<open>Whatever keeps the contract at every stage keeps it across the callback, with
  configuring operations of the other thread in between.\<close>

lemma worker_set_reorder_on:
  "e \<noteq> 0 \<Longrightarrow> worker_set_reorder e cnt ofs ctx =
     ctx\<lparr>do_reorder := e, reorder_count := int (min (unat cnt) WORKER_MAX_REORDER_COUNT),
         reorder_offset := int (unat ofs), reorder_id_cur := 0\<rparr>"
  by (simp add: worker_set_reorder_def WORKER_MAX_REORDER_COUNT_def min_def)

lemma apply_op_inv: "op_ok op \<Longrightarrow> worker_inv ctx \<Longrightarrow> worker_inv (apply_op op ctx)"
proof (cases op)
  case (SetReorder e cnt ofs)
  assume inv: "worker_inv ctx"
  show ?thesis
  proof (cases "e = 0")
    case True
    with inv SetReorder show ?thesis by (simp add: worker_set_reorder_def inv_defs)
  next
    case False
    have "uint ofs \<le> 65535" using uint_lt2p [of ofs] by simp
    with False inv SetReorder show ?thesis by (simp add: worker_set_reorder_on inv_defs)
  qed
qed (auto simp: inv_defs worker_set_mark_def worker_sol_update_def worker_set_rwnd_def
    worker_set_burst_def worker_set_adapt_def worker_init_tcp_sched_def worker_set_dedup_def
    worker_set_drop_def Let_def)

lemma apply_op_held: "mset (held (apply_op op ctx)) \<subseteq># mset (held ctx)"
  by (cases op) (auto simp: held_def worker_set_mark_def worker_sol_update_def
    worker_set_rwnd_def worker_set_burst_def worker_set_adapt_def worker_init_tcp_sched_def
    worker_set_dedup_def worker_set_drop_def worker_set_reorder_def Let_def)

lemma worker_init_inv: "worker_inv (worker_init_ctx raw)"
  by (simp add: worker_init_ctx_def inv_defs)

definition in_flight :: "stage \<Rightarrow> 32 word multiset" where
  "in_flight st = (case st of Waiting \<Rightarrow> {#} | AtHandler i p \<Rightarrow> {#packet_id p#})"

definition chain_inv :: "nat \<Rightarrow> worker_state \<Rightarrow> bool" where
  "chain_inv n s \<longleftrightarrow> worker_inv (wctx s) \<and>
     (case stage s of Waiting \<Rightarrow> True | AtHandler i p \<Rightarrow> i \<le> n \<and> payload p \<noteq> None) \<and>
     mset (map verdict_id (issued s)) + mset (held (wctx s)) + in_flight (stage s)
       \<subseteq># mset (arrived s)"

locale handler_chain =
  fixes hs :: "(worker_ctx \<Rightarrow> nfq_packet \<Rightarrow> handled) list"
  assumes stages: "i < length hs \<Longrightarrow> packet_stage (hs ! i)"
begin

lemma handled_step:
  assumes inv: "chain_inv (length hs) s" and st: "stage s = AtHandler i p"
    and i: "i < length hs" and r: "(hs ! i) (wctx s) p = Some (h, out, c)"
  shows "chain_inv (length hs)
    (s\<lparr>wctx := c, stage := (if h then Waiting else AtHandler (Suc i) p), issued := issued s @ out\<rparr>)"
proof -
  from i have ps: "packet_stage (hs ! i)" by (rule stages)
  from inv have w: "worker_inv (wctx s)" by (simp add: chain_inv_def)
  have c: "worker_inv c" using packet_stage.keeps [OF ps w r] .
  have "mset (map verdict_id out) + mset (held c) + in_flight (if h then Waiting else AtHandler (Suc i) p)
      \<subseteq># mset (held (wctx s)) + {#packet_id p#}"
    using packet_stage.accounts [OF ps w r] by (cases h) (simp_all add: in_flight_def)
  then have "mset (map verdict_id (issued s)) +
      (mset (map verdict_id out) + mset (held c) + in_flight (if h then Waiting else AtHandler (Suc i) p))
      \<subseteq># mset (map verdict_id (issued s)) + (mset (held (wctx s)) + {#packet_id p#})"
    by (rule subset_mset.add_left_mono)
  also have "\<dots> \<subseteq># mset (arrived s)"
    using inv st by (simp add: chain_inv_def in_flight_def)
  finally show ?thesis
    using inv st i c by (simp add: chain_inv_def ac_simps)
qed

lemma step_inv:
  assumes "worker_step hs s t" and "chain_inv (length hs) s"
  shows "chain_inv (length hs) t"
  using assms
proof (induction rule: worker_step.induct)
  case (arrive s p)
  then show ?case by (simp add: chain_inv_def in_flight_def subset_mset.add_increasing2)
next
  case (taken s i p out c)
  then show ?case using handled_step [of s i p True out c] by simp
next
  case (passed s i p out c)
  then show ?case using handled_step [of s i p False out c] by simp
next
  case (accepted s i p)
  then show ?case by (simp add: chain_inv_def in_flight_def)
next
  case (configure op s)
  have "mset (held (apply_op op (wctx s))) \<subseteq># mset (held (wctx s))" by (rule apply_op_held)
  then have "mset (map verdict_id (issued s)) + mset (held (apply_op op (wctx s))) + in_flight (stage s)
      \<subseteq># mset (map verdict_id (issued s)) + mset (held (wctx s)) + in_flight (stage s)"
    by simp
  also have "\<dots> \<subseteq># mset (arrived s)" using configure by (simp add: chain_inv_def)
  finally show ?case using configure by (simp add: chain_inv_def apply_op_inv)
qed

lemma reach_inv: "worker_reach hs s \<Longrightarrow> chain_inv (length hs) s"
proof (induction rule: worker_reach.induct)
  case (start raw)
  then show ?case
    by (simp add: chain_inv_def worker_start_def worker_init_inv in_flight_def)
      (simp add: worker_init_ctx_def held_def)
next
  case (step s t)
  then show ?case by (blast intro: step_inv)
qed

lemma handler_defined:
  assumes "worker_reach hs s" and "stage s = AtHandler i p" and "i < length hs"
  shows "(hs ! i) (wctx s) p \<noteq> None"
proof -
  from reach_inv [OF assms(1)] assms(2) have "payload p \<noteq> None" and "worker_inv (wctx s)"
    by (auto simp: chain_inv_def)
  then show ?thesis using packet_stage.defined [OF stages [OF assms(3)]] by blast
qed

text \<open>From a packet at any stage the queue thread alone brings the callback to its end.\<close>

lemma callback_ends:
  assumes "worker_reach hs s" and "stage s = AtHandler i p"
  shows "\<exists>t. (worker_step hs)\<^sup>*\<^sup>* s t \<and> stage t = Waiting \<and> arrived t = arrived s"
  using assms
proof (induction "length hs - i" arbitrary: s i)
  case 0
  moreover from reach_inv [OF 0(2)] 0(3) have "i \<le> length hs" by (auto simp: chain_inv_def)
  ultimately have "i = length hs" by simp
  with 0(3) have "worker_step hs s (s\<lparr>stage := Waiting,
      issued := issued s @ [Accept (packet_id p) (mark (wctx s)) None]\<rparr>)"
    by (rule worker_step.accepted)
  then show ?case by (intro exI conjI, rule r_into_rtranclp) simp_all
next
  case (Suc n)
  then have i: "i < length hs" by simp
  with Suc.prems obtain h out c where r: "(hs ! i) (wctx s) p = Some (h, out, c)"
    using handler_defined by (metis not_None_eq prod_cases3)
  show ?case
  proof (cases h)
    case True
    with r have "worker_step hs s (s\<lparr>wctx := c, stage := Waiting, issued := issued s @ out\<rparr>)"
      using worker_step.taken [OF Suc.prems(2) i] by simp
    then show ?thesis by (intro exI conjI, rule r_into_rtranclp) simp_all
  next
    case False
    define t where "t = s\<lparr>wctx := c, stage := AtHandler (Suc i) p, issued := issued s @ out\<rparr>"
    with r False have st: "worker_step hs s t"
      using worker_step.passed [OF Suc.prems(2) i] by simp
    have "worker_reach hs t" using Suc.prems(1) st by (rule worker_reach.step)
    moreover have "stage t = AtHandler (Suc i) p" by (simp add: t_def)
    moreover have "n = length hs - Suc i" using Suc.hyps(2) by simp
    ultimately obtain u where "(worker_step hs)\<^sup>*\<^sup>* t u" "stage u = Waiting" "arrived u = arrived t"
      using Suc.hyps(1) by blast
    with st show ?thesis
      by (auto simp: t_def intro: converse_rtranclp_into_rtranclp)
  qed
qed

end

lemma worker_handlers_stages:
  assumes "i < length (worker_handlers f)"
  shows "packet_stage (worker_handlers f ! i)"
proof -
  from assms have "i = 0 \<or> i = 1 \<or> i = 2 \<or> i = 3" by (auto simp: worker_handlers_def)
  then show ?thesis
    by (auto simp: worker_handlers_def drop_stage.packet_stage_axioms
        reorder_stage.packet_stage_axioms dedup_stage.packet_stage_axioms
        rwnd_stage.packet_stage_axioms)
qed

interpretation worker_chain: handler_chain "worker_handlers f" for f
  by (rule handler_chain.intro) (rule worker_handlers_stages)

section \<open>Bursts of drops and reordering\<close>

abbreviation has_payload :: "nfq_packet \<Rightarrow> bool" where
  "has_payload p \<equiv> payload p \<noteq> None"

definition accept_plain :: "worker_ctx \<Rightarrow> nfq_packet \<Rightarrow> verdict" where
  "accept_plain ctx p = Accept (packet_id p) (mark ctx) None"

lemma run_callbacks_append:
  "run_callbacks f ctx (ps @ qs) = do {
     (out, ctx1) \<leftarrow> run_callbacks f ctx ps;
     (outs, ctx2) \<leftarrow> run_callbacks f ctx1 qs;
     Some (out @ outs, ctx2)
   }"
proof (induction ps arbitrary: ctx)
  case Nil
  then show ?case by (cases "run_callbacks f ctx qs") auto
next
  case (Cons p ps)
  then show ?case
    by (auto simp: Cons.IH split: Option.bind_split prod.splits)
qed

lemma packet_logging_defined: "has_payload p \<Longrightarrow> packet_logging p \<noteq> None"
  by (auto simp: packet_logging_def Let_def)

lemma worker_callback_eq:
  "has_payload p \<Longrightarrow>
     worker_callback f ctx p = run_handlers (worker_handlers f) ctx p"
  using packet_logging_defined [of p] by (auto simp: worker_callback_def)

lemma callback_drops:
  assumes "has_payload p" and "e \<noteq> 0" and "0 < n" and "n \<le> INT_MAX"
  shows "worker_callback f (worker_set_drop e n ctx) p =
    Some ([Drop (packet_id p)],
      if n = 1 then ctx\<lparr>do_drop := 0, drop_count := 0\<rparr> else worker_set_drop e (n - 1) ctx)"
proof -
  have "c_dec n = Some (n - 1)" using assms by (simp add: c_dec_eq_Some INT_MIN_def)
  with assms show ?thesis
    by (auto simp: worker_callback_eq worker_handlers_def worker_handle_drop_def
        worker_set_drop_def)
qed

lemma run_drops:
  assumes "list_all has_payload ps" and "e \<noteq> 0" and "ps \<noteq> []" and "int (length ps) \<le> INT_MAX"
  shows "run_callbacks f (worker_set_drop e (int (length ps)) ctx) ps =
    Some (map (Drop \<circ> packet_id) ps, ctx\<lparr>do_drop := 0, drop_count := 0\<rparr>)"
  using assms
proof (induction ps)
  case (Cons p ps)
  then show ?case
    using callback_drops [of p e "int (length (p # ps))" f ctx]
    by (cases "ps = []") auto
qed simp

lemma callback_queues:
  assumes "has_payload p" and "do_drop ctx = 0" and "do_reorder ctx \<noteq> 0"
    and "reorder_id_cur ctx = int (length us)" and "reorder_ids ctx = us @ x # vs"
    and "0 < reorder_count ctx" and "reorder_count ctx \<le> INT_MAX" and "0 < reorder_offset ctx"
  shows "worker_callback f ctx p =
    Some ([], ctx\<lparr>reorder_count := reorder_count ctx - 1,
      reorder_ids := us @ packet_id p # vs, reorder_id_cur := int (length us) + 1\<rparr>)"
proof -
  have "c_dec (reorder_count ctx) = Some (reorder_count ctx - 1)"
    using assms by (simp add: c_dec_eq_Some INT_MIN_def)
  with assms show ?thesis
    by (simp add: worker_callback_eq worker_handlers_def worker_handle_drop_def
        worker_handle_reorder_def reorder_queue_def reorder_release_def)
qed

lemma run_queues:
  assumes "list_all has_payload ps" and "do_drop ctx = 0" and "do_reorder ctx \<noteq> 0"
    and "reorder_id_cur ctx = int (length us)" and "reorder_ids ctx = us @ xs @ vs"
    and "length xs = length ps"
    and "reorder_count ctx = int (length ps)" and "int (length ps) \<le> INT_MAX"
    and "0 < reorder_offset ctx"
  shows "run_callbacks f ctx ps =
    Some ([], ctx\<lparr>reorder_count := 0, reorder_ids := us @ map packet_id ps @ vs,
      reorder_id_cur := int (length us + length ps)\<rparr>)"
  using assms
proof (induction ps arbitrary: ctx us xs)
  case Nil
  then show ?case by simp
next
  case (Cons p ps)
  then obtain x ys where xs: "xs = x # ys" by (cases xs) auto
  let ?c = "ctx\<lparr>reorder_count := reorder_count ctx - 1,
      reorder_ids := us @ packet_id p # ys @ vs, reorder_id_cur := int (length us) + 1\<rparr>"
  have "worker_callback f ctx p = Some ([], ?c)"
    using Cons.prems xs by (intro callback_queues [where x = x]) auto
  moreover have "run_callbacks f ?c ps = Some ([], ?c\<lparr>reorder_count := 0,
      reorder_ids := (us @ [packet_id p]) @ map packet_id ps @ vs,
      reorder_id_cur := int (length (us @ [packet_id p]) + length ps)\<rparr>)"
    using Cons.prems xs by (intro Cons.IH [where xs = ys]) auto
  ultimately show ?case by simp
qed

lemma callback_passes:
  assumes "has_payload p" and "do_drop ctx = 0" and "do_reorder ctx \<noteq> 0"
    and "0 \<le> reorder_id_cur ctx" and "reorder_id_cur ctx \<le> int (length (reorder_ids ctx))"
    and "INT_MIN < reorder_count ctx" and "reorder_count ctx \<le> 0"
    and "0 < reorder_offset ctx" and "reorder_offset ctx \<le> INT_MAX"
  shows "worker_callback f ctx p =
    (if reorder_offset ctx = 1
     then Some (accept_plain ctx p # map (\<lambda>i. Accept i (mark ctx) None) (rev (held ctx)),
       ctx\<lparr>reorder_count := reorder_count ctx - 1, reorder_offset := 0, do_reorder := 0,
           reorder_id_cur := 0\<rparr>)
     else Some ([accept_plain ctx p], ctx\<lparr>reorder_count := reorder_count ctx - 1,
           reorder_offset := reorder_offset ctx - 1\<rparr>))"
proof -
  have "c_dec (reorder_count ctx) = Some (reorder_count ctx - 1)"
    "c_dec (reorder_offset ctx) = Some (reorder_offset ctx - 1)"
    using assms by (simp_all add: c_dec_eq_Some INT_MIN_def INT_MAX_def)
  with assms show ?thesis
    by (auto simp: worker_callback_eq worker_handlers_def worker_handle_drop_def
        worker_handle_reorder_def reorder_queue_def reorder_release_def release_loop_ids
        held_def accept_plain_def)
qed

lemma run_passes:
  assumes "list_all has_payload ps" and "ps \<noteq> []"
    and "do_drop ctx = 0" and "do_reorder ctx \<noteq> 0"
    and "0 \<le> reorder_id_cur ctx" and "reorder_id_cur ctx \<le> int (length (reorder_ids ctx))"
    and "INT_MIN + int (length ps) < reorder_count ctx" and "reorder_count ctx \<le> 0"
    and "reorder_offset ctx = int (length ps)" and "int (length ps) \<le> INT_MAX"
  shows "run_callbacks f ctx ps =
    Some (map (accept_plain ctx) ps @ map (\<lambda>i. Accept i (mark ctx) None) (rev (held ctx)),
      ctx\<lparr>reorder_count := reorder_count ctx - int (length ps), reorder_offset := 0,
          do_reorder := 0, reorder_id_cur := 0\<rparr>)"
  using assms
proof (induction ps arbitrary: ctx)
  case Nil
  then show ?case by simp
next
  case (Cons p ps)
  note cb = callback_passes [of p ctx f]
  show ?case
  proof (cases "ps = []")
    case True
    then show ?thesis using Cons.prems cb by simp
  next
    case False
    let ?c = "ctx\<lparr>reorder_count := reorder_count ctx - 1,
      reorder_offset := reorder_offset ctx - 1\<rparr>"
    have "worker_callback f ctx p = Some ([accept_plain ctx p], ?c)"
      using False Cons.prems cb by simp
    moreover have "run_callbacks f ?c ps =
        Some (map (accept_plain ?c) ps @ map (\<lambda>i. Accept i (mark ?c) None) (rev (held ?c)),
          ?c\<lparr>reorder_count := reorder_count ?c - int (length ps), reorder_offset := 0,
            do_reorder := 0, reorder_id_cur := 0\<rparr>)"
      using False Cons.prems by (intro Cons.IH) auto
    moreover have "accept_plain ?c = accept_plain ctx" "held ?c = held ctx"
      by (simp_all add: accept_plain_def fun_eq_iff held_def)
    ultimately show ?thesis by (simp add: algebra_simps)
  qed
qed

lemma run_reorder:
  assumes "list_all has_payload (qs @ ps)" and "do_drop ctx = 0" and "e \<noteq> 0"
    and "length (reorder_ids ctx) = WORKER_MAX_REORDER_COUNT"
    and "length qs = min (unat cnt) WORKER_MAX_REORDER_COUNT"
    and "length ps = unat ofs" and "ofs \<noteq> 0"
  shows "\<exists>ctx'. run_callbacks f (worker_set_reorder e cnt ofs ctx) (qs @ ps) =
      Some (map (accept_plain ctx) (ps @ rev qs), ctx') \<and>
    do_reorder ctx' = 0 \<and> do_drop ctx' = 0"
proof -
  define k where "k = length qs"
  have k: "k \<le> length (reorder_ids ctx)" "k \<le> 1000"
    using assms(4,5) by (simp_all add: k_def WORKER_MAX_REORDER_COUNT_def)
  have "int (length ps) < 65536" unfolding assms(6) using uint_lt2p [of ofs] by simp
  then have p16: "length ps \<le> 65535" by linarith
  have pne: "ps \<noteq> []" using assms(6,7) unat_eq_zero by fastforce
  define c where "c = worker_set_reorder e cnt ofs ctx"
  have c: "c = ctx\<lparr>do_reorder := e, reorder_count := int k, reorder_offset := int (length ps),
      reorder_id_cur := 0\<rparr>"
    using assms by (simp add: c_def k_def worker_set_reorder_on)
  define d where "d = c\<lparr>reorder_count := 0, reorder_ids := map packet_id qs @ drop k (reorder_ids ctx),
      reorder_id_cur := int k\<rparr>"
  have "run_callbacks f c qs = Some ([], c\<lparr>reorder_count := 0,
      reorder_ids := [] @ map packet_id qs @ drop k (reorder_ids ctx),
      reorder_id_cur := int (length ([] :: 32 word list) + length qs)\<rparr>)"
    using assms(1-3) pne k
    by (intro run_queues [where xs = "take k (reorder_ids ctx)"])
      (simp_all add: c k_def INT_MAX_def)
  then have q: "run_callbacks f c qs = Some ([], d)" by (simp add: d_def k_def)
  have held: "held d = map packet_id qs"
    using assms(3) k by (simp add: d_def c held_def k_def)
  have "run_callbacks f d ps =
      Some (map (accept_plain d) ps @ map (\<lambda>i. Accept i (mark d) None) (rev (held d)),
        d\<lparr>reorder_count := reorder_count d - int (length ps), reorder_offset := 0,
          do_reorder := 0, reorder_id_cur := 0\<rparr>)"
    using assms(1-3) pne k p16
    by (intro run_passes) (simp_all add: d_def c k_def INT_MIN_def INT_MAX_def)
  moreover have "accept_plain d = accept_plain ctx" "mark d = mark ctx"
    by (simp_all add: accept_plain_def fun_eq_iff d_def c)
  ultimately show ?thesis
    using q assms(2)
    by (simp add: run_callbacks_append held rev_map comp_def accept_plain_def flip: c_def)
      (simp add: d_def c)
qed

section \<open>The receive window and the acknowledgements\<close>

text \<open>A packet whose TCP header the window handler reads.\<close>

definition tcp_packet :: "nfq_packet \<Rightarrow> byte list \<Rightarrow> bool" where
  "tcp_packet p bs \<longleftrightarrow> payload p = Some bs \<and> IPHDR_SIZE \<le> ip_ihl bs \<and>
     ip_ihl bs + TCPHDR_SIZE \<le> length bs"

lemma worker_handle_rwnd_tcp:
  assumes "tcp_packet p bs" and "do_rwnd ctx \<noteq> 0"
  shows "worker_handle_rwnd f ctx p =
    (let c = ctx\<lparr>data_rcvd := data_rcvd ctx + ucast (tcp_ack bs - last_ack ctx),
               last_ack := tcp_ack bs\<rparr>
     in Some (if tune_rwnd ctx < tcp_window bs
              then (True, [Accept (packet_id p) (mark ctx)
                     (Some (f (set_tcp_window (tune_rwnd ctx) bs)))], c)
              else (False, [], c)))"
  using assms by (auto simp: worker_handle_rwnd_def tcp_packet_def Let_def)

lemma ip_ihl_set_window:
  assumes "IPHDR_SIZE \<le> ip_ihl bs" and "ip_ihl bs + TCPHDR_SIZE \<le> length bs"
  shows "ip_ihl (set_tcp_window w bs) = ip_ihl bs"
  using assms by (simp add: ip_ihl_def set_tcp_window_def Let_def IPHDR_SIZE_def nth_list_update)

lemma tcp_window_set_window:
  assumes "IPHDR_SIZE \<le> ip_ihl bs" and "ip_ihl bs + TCPHDR_SIZE \<le> length bs"
  shows "tcp_window (set_tcp_window w bs) = w"
  using ip_ihl_set_window [OF assms, of w] assms
  by (simp add: tcp_window_def Let_def set_tcp_window_def TCPHDR_SIZE_def)

text \<open>The callback with reordering and dropping off and no duplicate to suppress.\<close>

lemma callback_rwnd:
  assumes "tcp_packet p bs" and "do_drop ctx = 0" and "do_reorder ctx = 0"
    and "do_dedup ctx = 0" and "do_rwnd ctx \<noteq> 0"
  shows "\<exists>data. worker_callback f ctx p = Some ([Accept (packet_id p) (mark ctx) data],
      ctx\<lparr>data_rcvd := data_rcvd ctx + ucast (tcp_ack bs - last_ack ctx),
          last_ack := tcp_ack bs\<rparr>) \<and>
    data = (if tune_rwnd ctx < tcp_window bs
            then Some (f (set_tcp_window (tune_rwnd ctx) bs)) else None)"
  using assms worker_handle_rwnd_tcp [OF assms(1,5)]
  by (auto simp: worker_callback_eq worker_handlers_def worker_handle_drop_def
      worker_handle_reorder_def worker_handle_dedup_def tcp_packet_def Let_def)

lemma run_handlers_keeps:
  assumes "run_handlers hs ctx p = Some (out, ctx')" and "P ctx"
    and "\<And>h c handled o' c'. h \<in> set hs \<Longrightarrow> h c p = Some (handled, o', c') \<Longrightarrow> P c \<Longrightarrow> P c'"
  shows "P ctx'"
  using assms
proof (induction hs arbitrary: ctx out)
  case Nil
  then show ?case by simp
next
  case (Cons h hs)
  from Cons.prems(1) obtain handled o1 c1 where h: "h ctx p = Some (handled, o1, c1)"
    and rest: "handled \<and> ctx' = c1 \<or> (\<exists>o2. run_handlers hs c1 p = Some (o2, ctx'))"
    by (auto simp: bind_eq_Some_conv split: if_splits)
  have "P c1" using Cons.prems(2) Cons.prems(3) [of h ctx handled o1 c1] h by simp
  with rest show ?case using Cons.IH Cons.prems(3) by (metis list.set_intros(2))
qed

lemma reorder_keeps_ack:
  "worker_handle_reorder c p = Some (h, out, c') \<Longrightarrow> last_ack c' = last_ack c \<and> do_rwnd c' = do_rwnd c"
  by (auto simp: worker_handle_reorder_def reorder_queue_def reorder_release_def
      bind_eq_Some_conv split: if_splits)

text \<open>With the window handler off nothing records the acknowledgements.\<close>

lemma last_ack_unchanged:
  assumes "worker_callback f ctx p = Some (out, ctx')" and "do_rwnd ctx = 0"
  shows "last_ack ctx' = last_ack ctx \<and> do_rwnd ctx' = 0"
proof -
  from assms(1) have "run_handlers (worker_handlers f) ctx p = Some (out, ctx')"
    by (auto simp: worker_callback_def bind_eq_Some_conv)
  then show ?thesis
  proof (rule run_handlers_keeps)
    fix h c handled o' c'
    assume "h \<in> set (worker_handlers f)" "h c p = Some (handled, o', c')"
      "last_ack c = last_ack ctx \<and> do_rwnd c = 0"
    then show "last_ack c' = last_ack ctx \<and> do_rwnd c' = 0"
      by (auto simp: worker_handlers_def worker_handle_drop_Some worker_handle_rwnd_def
          bind_eq_Some_conv split: if_splits dest!: reorder_keeps_ack worker_handle_dedup_Some)
  qed (use assms in simp)
qed

section \<open>Properties of the worker\<close>


definition plain_ctx :: worker_ctx where
  "plain_ctx = \<lparr>mark = 0, do_reorder = 0, reorder_count = 0, reorder_offset = 0,
     reorder_id_cur = 0, reorder_ids = replicate 1000 0, do_drop = 0, drop_count = 0,
     do_rwnd = 0, tune_rwnd = 0, do_burst = 0, data_rcvd = 0, do_adapt = 0, do_dedup = 0,
     last_ack = 0\<rparr>"

definition plain_packet :: "32 word \<Rightarrow> nfq_packet" where
  "plain_packet i = \<lparr>packet_id = i, payload = Some []\<rparr>"

lemma reach_one_packet:
  "worker_reach hs ((worker_start raw)\<lparr>stage := AtHandler 0 (plain_packet i), arrived := [i]\<rparr>)"
  using worker_reach.step [OF worker_reach.start worker_step.arrive
      [where s = "worker_start raw" and p = "plain_packet i"]]
  by (simp add: worker_start_def plain_packet_def)


text \<open>(C4) No packet is given two verdicts, and no verdict is for a packet that did not
  arrive: in every reachable state the verdicts issued, the packets held back for
  reordering and the packet in the callback are together at most the packets that
  arrived, counted with multiplicity.\<close>

theorem worker_one_verdict:
  assumes "worker_reach (worker_handlers f) s"
  shows "mset (map verdict_id (issued s)) + mset (held (wctx s)) + in_flight (stage s)
    \<subseteq># mset (arrived s)"
  using worker_chain.reach_inv [OF assms] by (simp add: chain_inv_def)

theorem worker_one_verdict_witness:
  "in_flight (AtHandler 0 (plain_packet 7)) \<subseteq># {#7#}"
  using worker_one_verdict [OF reach_one_packet [where hs = "worker_handlers id" and raw = plain_ctx and i = 7]]
  by (simp add: worker_start_def worker_init_ctx_def held_def)

text \<open>Progress of the queue thread: from every reachable state with a packet in the
  callback, its own steps lead to the end of the callback, whatever was configured
  before.\<close>

lemma worker_callback_ends:
  assumes "worker_reach (worker_handlers f) s" and "stage s \<noteq> Waiting"
  shows "\<exists>t. (worker_step (worker_handlers f))\<^sup>*\<^sup>* s t \<and> stage t = Waiting \<and>
    arrived t = arrived s"
  using assms(2) worker_chain.callback_ends [OF assms(1)] by (cases "stage s") auto

text \<open>(C5) The damage of one handover, as the trace format documents it: after
  \<open>worker_set_drop\<close> with a count and \<open>worker_set_reorder\<close> with a count and an
  offset that is not 0, exactly the next so many packets are dropped; then the next
  packets (at most 1000) are held, the following ones, as many as the offset says, pass,
  and the held ones are released in reverse order. After that both are off.\<close>

theorem worker_handover_damage:
  assumes "length (reorder_ids ctx) = WORKER_MAX_REORDER_COUNT"
    and "list_all has_payload (ds @ qs @ ps)"
    and "ds \<noteq> []" and "int (length ds) \<le> INT_MAX"
    and "length qs = min (unat cnt) WORKER_MAX_REORDER_COUNT"
    and "length ps = unat ofs" and "ofs \<noteq> 0"
  shows "\<exists>ctx'. run_callbacks f
      (worker_set_reorder 1 cnt ofs (worker_set_drop 1 (int (length ds)) ctx)) (ds @ qs @ ps) =
      Some (map (Drop \<circ> packet_id) ds @ map (accept_plain ctx) (ps @ rev qs), ctx') \<and>
    do_reorder ctx' = 0 \<and> do_drop ctx' = 0"
proof -
  let ?n = "int (length ds)" and ?r = "worker_set_reorder 1 cnt ofs"
  have swap: "?r (worker_set_drop 1 ?n ctx) = worker_set_drop 1 ?n (?r ctx)"
    by (simp add: worker_set_reorder_on worker_set_drop_def)
  have after: "(?r ctx)\<lparr>do_drop := 0, drop_count := 0\<rparr> = ?r (ctx\<lparr>do_drop := 0, drop_count := 0\<rparr>)"
    by (simp add: worker_set_reorder_on)
  have acc: "accept_plain (ctx\<lparr>do_drop := 0, drop_count := 0\<rparr>) = accept_plain ctx"
    by (simp add: accept_plain_def fun_eq_iff)
  have "run_callbacks f (worker_set_drop 1 ?n (?r ctx)) ds =
      Some (map (Drop \<circ> packet_id) ds, ?r (ctx\<lparr>do_drop := 0, drop_count := 0\<rparr>))"
    using run_drops [of ds 1 f "?r ctx"] assms by (simp add: after)
  moreover obtain ctx' where "run_callbacks f (?r (ctx\<lparr>do_drop := 0, drop_count := 0\<rparr>)) (qs @ ps) =
      Some (map (accept_plain ctx) (ps @ rev qs), ctx')" "do_reorder ctx' = 0" "do_drop ctx' = 0"
    using run_reorder [of qs ps "ctx\<lparr>do_drop := 0, drop_count := 0\<rparr>" 1 cnt ofs f] assms
    by (auto simp: acc)
  ultimately show ?thesis
    unfolding swap by (subst run_callbacks_append) simp
qed

theorem worker_handover_damage_witness:
  "\<exists>ctx'. run_callbacks id (worker_set_reorder 1 2 1 (worker_set_drop 1 1 plain_ctx))
      (map plain_packet [1, 2, 3, 4]) =
    Some ([Drop 1, Accept 4 0 None, Accept 3 0 None, Accept 2 0 None], ctx')"
  using worker_handover_damage [of plain_ctx "map plain_packet [1]" "map plain_packet [2, 3]"
      "map plain_packet [4]" 2 1 id]
  by (auto simp: plain_ctx_def plain_packet_def WORKER_MAX_REORDER_COUNT_def INT_MAX_def
      accept_plain_def)

text \<open>The window the peer is told of: that of the replaced payload, or of the original.\<close>

definition advertised :: "verdict \<Rightarrow> byte list \<Rightarrow> 16 word" where
  "advertised v bs = tcp_window (case new_payload v of None \<Rightarrow> bs | Some b \<Rightarrow> b)"

lemma callback_rwnd_window:
  assumes "tcp_packet p bs" and "do_drop ctx = 0" and "do_reorder ctx = 0"
    and "do_dedup ctx = 0" and "do_rwnd ctx \<noteq> 0" and "\<And>b. tcp_window (f b) = tcp_window b"
  shows "\<exists>v. worker_callback f ctx p = Some ([v],
      ctx\<lparr>data_rcvd := data_rcvd ctx + ucast (tcp_ack bs - last_ack ctx),
          last_ack := tcp_ack bs\<rparr>) \<and>
    verdict_id v = packet_id p \<and> advertised v bs = min (tune_rwnd ctx) (tcp_window bs)"
proof -
  have w: "tcp_window (f (set_tcp_window r bs)) = r" for r
    using assms(1) by (simp add: assms(6) tcp_window_set_window tcp_packet_def)
  obtain data where "worker_callback f ctx p = Some ([Accept (packet_id p) (mark ctx) data],
      ctx\<lparr>data_rcvd := data_rcvd ctx + ucast (tcp_ack bs - last_ack ctx), last_ack := tcp_ack bs\<rparr>)"
    and "data = (if tune_rwnd ctx < tcp_window bs
            then Some (f (set_tcp_window (tune_rwnd ctx) bs)) else None)"
    using callback_rwnd [OF assms(1-5)] by blast
  then show ?thesis by (auto simp: advertised_def w min_def not_less not_le)
qed


definition ack_packet :: "32 word \<Rightarrow> byte \<Rightarrow> nfq_packet" where
  "ack_packet i a = \<lparr>packet_id = i, payload = Some
     ([5] @ replicate 19 0 @ replicate 11 0 @ [a] @ [0x50, 0x10, 0xFF, 0xFF] @ replicate 4 0)\<rparr>"


lemma run_last_ack_unchanged:
  "run_callbacks f ctx ps = Some (out, ctx') \<Longrightarrow> do_rwnd ctx = 0 \<Longrightarrow> last_ack ctx' = last_ack ctx"
proof (induction ps arbitrary: ctx out)
  case Nil
  then show ?case by simp
next
  case (Cons p ps)
  then show ?case
    by (auto simp: bind_eq_Some_conv dest!: last_ack_unchanged)
qed

text \<open>With an offset of 0 the first packet already ends the reordering: it is released at
  once, and with a count of 0 as well it is taken over and gets no verdict at all.\<close>

lemma reorder_offset_zero:
  assumes "reorder_ids ctx \<noteq> []"
  shows "\<exists>ctx'. worker_handle_reorder (worker_set_reorder 1 cnt 0 ctx) p =
      Some (True, if cnt = 0 then [] else [accept_plain ctx p], ctx') \<and>
    do_reorder ctx' = 0 \<and> held ctx' = []"
proof -
  let ?n = "int (min (unat cnt) WORKER_MAX_REORDER_COUNT)"
  have "c_dec ?n = Some (?n - 1)" "c_dec 0 = Some (- 1)"
    by (simp_all add: c_dec_eq_Some INT_MIN_def INT_MAX_def WORKER_MAX_REORDER_COUNT_def min_def)
  moreover have "0 < ?n \<longleftrightarrow> cnt \<noteq> 0"
    by (simp add: WORKER_MAX_REORDER_COUNT_def unat_gt_0)
  moreover obtain x xs where "reorder_ids ctx = x # xs" using assms by (cases "reorder_ids ctx") auto
  ultimately show ?thesis
    by (cases "cnt = 0")
      (simp_all add: worker_handle_reorder_def worker_set_reorder_on reorder_queue_def
        reorder_release_def held_def accept_plain_def)
qed

end
