(* ===== verification/Logging.thy ===== *)
theory Logging
  imports PyStr C_Prelude
begin

text \<open>
  The logging library of the emulator, \<open>src/src/log.c\<close> and \<open>log.h\<close>, built without
  \<open>LOG_USE_COLOR\<close>. Streams (\<open>FILE *\<close>) are numbers; the world holds the text each of
  them received and whether the mutex of the log is taken. An event carries the text its format
  and arguments print. \<open>None\<close> is undefined behaviour: a level without a name, a null time, a
  mutex that is released twice or taken again by its holder.
\<close>

section \<open>Levels and times\<close>

definition LOG_TRACE :: int where "LOG_TRACE = 0"
definition LOG_DEBUG :: int where "LOG_DEBUG = 1"
definition LOG_INFO :: int where "LOG_INFO = 2"
definition LOG_WARN :: int where "LOG_WARN = 3"
definition LOG_ERROR :: int where "LOG_ERROR = 4"
definition LOG_FATAL :: int where "LOG_FATAL = 5"

lemmas log_levels = LOG_TRACE_def LOG_DEBUG_def LOG_INFO_def LOG_WARN_def LOG_ERROR_def LOG_FATAL_def

definition level_strings :: "string list" where
  "level_strings = [''TRACE'', ''DEBUG'', ''INFO'', ''WARN'', ''ERROR'', ''FATAL'']"

definition log_level_string :: "int \<Rightarrow> string option" where
  "log_level_string lv =
     (if 0 \<le> lv \<and> lv < int (length level_strings) then Some (level_strings ! nat lv) else None)"

record tm =
  tm_sec :: int
  tm_min :: int
  tm_hour :: int
  tm_mday :: int
  tm_mon :: int
  tm_year :: int

text \<open>The expansions of \<open>%H:%M:%S\<close> and \<open>%Y-%m-%d %H:%M:%S\<close>, and what
  \<open>buf[strftime(buf, size, ..)] = '\0'\<close> leaves in the buffer: \<open>strftime\<close> returns 0 when
  the text and its end do not fit.\<close>

definition clock_text :: "tm \<Rightarrow> string" where
  "clock_text t = pad2 (nat (tm_hour t)) @ '':'' @ pad2 (nat (tm_min t)) @ '':'' @ pad2 (nat (tm_sec t))"

definition date_text :: "tm \<Rightarrow> string" where
  "date_text t = string_of_int (tm_year t + 1900) @ ''-'' @ pad2 (nat (tm_mon t + 1)) @ ''-'' @
     pad2 (nat (tm_mday t)) @ '' '' @ clock_text t"

definition strftime_buf :: "nat \<Rightarrow> string \<Rightarrow> string" where
  "strftime_buf n s = (if length s < n then s else [])"

text \<open>The ranges of the fields that \<open>localtime\<close> fills in.\<close>

definition tm_ok :: "tm \<Rightarrow> bool" where
  "tm_ok t \<longleftrightarrow> 0 \<le> tm_sec t \<and> tm_sec t \<le> 60 \<and> 0 \<le> tm_min t \<and> tm_min t \<le> 59 \<and>
     0 \<le> tm_hour t \<and> tm_hour t \<le> 23 \<and> 1 \<le> tm_mday t \<and> tm_mday t \<le> 31 \<and>
     0 \<le> tm_mon t \<and> tm_mon t \<le> 11 \<and> 0 \<le> tm_year t \<and> tm_year t \<le> 8099"

section \<open>Events and callbacks\<close>

record log_Event =
  ev_text :: string
  ev_file :: string
  ev_time :: "tm option"
  ev_udata :: nat
  ev_line :: int
  ev_level :: int

record log_world =
  streams :: "nat \<Rightarrow> string"
  mutex :: bool

type_synonym log_LogFn = "log_Event \<Rightarrow> log_world \<Rightarrow> log_world option"
type_synonym log_LockFn = "bool \<Rightarrow> nat \<Rightarrow> log_world \<Rightarrow> log_world option"

definition stderr_fp :: nat where
  "stderr_fp = 2"

definition fprintf :: "nat \<Rightarrow> string \<Rightarrow> log_world \<Rightarrow> log_world" where
  "fprintf fp s w = w\<lparr>streams := (streams w)(fp := streams w fp @ s)\<rparr>"

text \<open>The conversion \<open>%-5s\<close>.\<close>

definition pad_right :: "nat \<Rightarrow> string \<Rightarrow> string" where
  "pad_right n s = s @ replicate (n - length s) (CHR '' '')"

text \<open>Both callbacks print \<open>%s %-5s %s:%d: \<close>, the message and a newline.\<close>

definition print_event :: "string \<Rightarrow> log_Event \<Rightarrow> log_world \<Rightarrow> log_world option" where
  "print_event buf ev w =
     do {
       lv \<leftarrow> log_level_string (ev_level ev);
       Some (fprintf (ev_udata ev)
         (buf @ '' '' @ pad_right 5 lv @ '' '' @ ev_file ev @ '':'' @ string_of_int (ev_line ev) @ '': '' @
          ev_text ev @ [newline]) w)
     }"

definition stdout_callback :: log_LogFn where
  "stdout_callback ev w = do { t \<leftarrow> ev_time ev; print_event (strftime_buf 16 (clock_text t)) ev w }"

definition file_callback :: log_LogFn where
  "file_callback ev w = do { t \<leftarrow> ev_time ev; print_event (strftime_buf 64 (date_text t)) ev w }"

section \<open>The logger\<close>

definition MAX_CALLBACKS :: nat where
  "MAX_CALLBACKS = 32"

record log_Callback =
  cb_fn :: "log_LogFn option"
  cb_udata :: nat
  cb_level :: int

record logger =
  lg_udata :: nat
  lg_lock :: "log_LockFn option"
  lg_level :: int
  lg_quiet :: bool
  lg_callbacks :: "log_Callback list"

text \<open>The static variable \<open>L\<close>, all zero at the start.\<close>

definition no_callback :: log_Callback where
  "no_callback = \<lparr>cb_fn = None, cb_udata = 0, cb_level = 0\<rparr>"

definition L_init :: logger where
  "L_init = \<lparr>lg_udata = 0, lg_lock = None, lg_level = 0, lg_quiet = False,
     lg_callbacks = replicate MAX_CALLBACKS no_callback\<rparr>"

definition log_set_lock :: "log_LockFn option \<Rightarrow> nat \<Rightarrow> logger \<Rightarrow> logger" where
  "log_set_lock f udata L = L\<lparr>lg_lock := f, lg_udata := udata\<rparr>"

definition log_set_level :: "int \<Rightarrow> logger \<Rightarrow> logger" where
  "log_set_level lv L = L\<lparr>lg_level := lv\<rparr>"

definition log_set_quiet :: "bool \<Rightarrow> logger \<Rightarrow> logger" where
  "log_set_quiet enable L = L\<lparr>lg_quiet := enable\<rparr>"

text \<open>The loop of \<open>log_add_callback\<close> over the array: the first slot without a function is
  overwritten, \<open>None\<close> when there is none.\<close>

fun fill_slot :: "log_Callback \<Rightarrow> log_Callback list \<Rightarrow> log_Callback list option" where
  "fill_slot new [] = None"
| "fill_slot new (c # cs) =
     (if cb_fn c = None then Some (new # cs) else map_option (Cons c) (fill_slot new cs))"

definition log_add_callback :: "log_LogFn option \<Rightarrow> nat \<Rightarrow> int \<Rightarrow> logger \<Rightarrow> int \<times> logger" where
  "log_add_callback f udata lv L =
     (case fill_slot \<lparr>cb_fn = f, cb_udata = udata, cb_level = lv\<rparr> (lg_callbacks L) of
        Some cs \<Rightarrow> (0, L\<lparr>lg_callbacks := cs\<rparr>)
      | None \<Rightarrow> (- 1, L))"

definition log_add_fp :: "nat \<Rightarrow> int \<Rightarrow> logger \<Rightarrow> int \<times> logger" where
  "log_add_fp fp lv = log_add_callback (Some file_callback) fp lv"

text \<open>The time is read once per message, by the first callback that is called.\<close>

definition init_event :: "tm \<Rightarrow> nat \<Rightarrow> log_Event \<Rightarrow> log_Event" where
  "init_event now udata ev =
     (let ev = (if ev_time ev = None then ev\<lparr>ev_time := Some now\<rparr> else ev)
      in ev\<lparr>ev_udata := udata\<rparr>)"

definition lock_log :: "bool \<Rightarrow> logger \<Rightarrow> log_world \<Rightarrow> log_world option" where
  "lock_log b L w = (case lg_lock L of None \<Rightarrow> Some w | Some f \<Rightarrow> f b (lg_udata L) w)"

fun run_log_callbacks :: "tm \<Rightarrow> log_Callback list \<Rightarrow> log_Event \<Rightarrow> log_world \<Rightarrow> log_world option" where
  "run_log_callbacks now [] ev w = Some w"
| "run_log_callbacks now (c # cs) ev w =
     (case cb_fn c of
        None \<Rightarrow> Some w
      | Some f \<Rightarrow>
          if ev_level ev \<ge> cb_level c
          then let ev = init_event now (cb_udata c) ev
               in do { w \<leftarrow> f ev w; run_log_callbacks now cs ev w }
          else run_log_callbacks now cs ev w)"

definition log_log :: "tm \<Rightarrow> int \<Rightarrow> string \<Rightarrow> int \<Rightarrow> string \<Rightarrow> logger \<Rightarrow> log_world \<Rightarrow> log_world option" where
  "log_log now lv file line msg L w =
     (let ev = \<lparr>ev_text = msg, ev_file = file, ev_time = None, ev_udata = 0, ev_line = line, ev_level = lv\<rparr>
      in do {
        w \<leftarrow> lock_log True L w;
        (ev, w) \<leftarrow> (if \<not> lg_quiet L \<and> lv \<ge> lg_level L
          then let ev = init_event now stderr_fp ev in map_option (Pair ev) (stdout_callback ev w)
          else Some (ev, w));
        w \<leftarrow> run_log_callbacks now (lg_callbacks L) ev w;
        lock_log False L w
      })"

text \<open>The lock of the emulator, \<open>do_log_lock\<close> of \<open>emulator.c\<close>.\<close>

definition do_log_lock :: log_LockFn where
  "do_log_lock b udata w =
     (if b then if mutex w then None else Some (w\<lparr>mutex := True\<rparr>)
      else if mutex w then Some (w\<lparr>mutex := False\<rparr>) else None)"

text \<open>The logger that \<open>main\<close> of \<open>emulator.c\<close> sets up for the packet log.\<close>

definition emulator_logger :: "nat \<Rightarrow> logger" where
  "emulator_logger logFile =
     snd (log_add_fp logFile LOG_FATAL
       (log_set_quiet True (log_set_level LOG_FATAL (log_set_lock (Some do_log_lock) 0 L_init))))"

section \<open>What a message writes\<close>

text \<open>A line of the log with the time in front.\<close>

definition log_text :: "string \<Rightarrow> int \<Rightarrow> string \<Rightarrow> int \<Rightarrow> string \<Rightarrow> string" where
  "log_text date lv file line msg =
     date @ '' '' @ pad_right 5 (level_strings ! nat lv) @ '' '' @ file @ '':'' @ string_of_int line @ '': '' @
     msg @ [newline]"

lemma clock_fits: "strftime_buf 16 (clock_text t) = clock_text t"
  by (simp add: strftime_buf_def clock_text_def pad2_def)

lemma date_fits:
  assumes "tm_ok t"
  shows "strftime_buf 64 (date_text t) = date_text t"
proof -
  have "length (string_of_int (tm_year t + 1900)) \<le> 4"
    using assms length_string_of_nat [of "nat (tm_year t + 1900)" 3]
    by (simp add: string_of_int_def tm_ok_def nat_less_iff)
  then show ?thesis by (simp add: strftime_buf_def date_text_def clock_text_def pad2_def)
qed

lemma print_event_known:
  assumes "LOG_TRACE \<le> ev_level ev" "ev_level ev \<le> LOG_FATAL"
  shows "print_event buf ev w =
    Some (fprintf (ev_udata ev) (log_text buf (ev_level ev) (ev_file ev) (ev_line ev) (ev_text ev)) w)"
  using assms by (simp add: print_event_def log_level_string_def log_text_def log_levels level_strings_def)

definition file_slot :: "nat \<times> int \<Rightarrow> log_Callback" where
  "file_slot r = \<lparr>cb_fn = Some file_callback, cb_udata = fst r, cb_level = snd r\<rparr>"

text \<open>The streams of the callbacks get the text in the order of the slots, each once per slot
  whose level is not above the message's.\<close>

definition deliver :: "(nat \<times> int) list \<Rightarrow> int \<Rightarrow> string \<Rightarrow> log_world \<Rightarrow> log_world" where
  "deliver rs lv line w =
     w\<lparr>streams := \<lambda>fp. streams w fp @ concat (map (\<lambda>(g, m). if g = fp \<and> m \<le> lv then line else []) rs)\<rparr>"

lemma deliver_simps [simp]:
  "deliver [] lv line w = w"
  "deliver ((g, m) # rs) lv line w = deliver rs lv line (if m \<le> lv then fprintf g line w else w)"
  by (auto simp: deliver_def fprintf_def fun_eq_iff)

lemma run_file_slots:
  assumes "tm_ok now" "LOG_TRACE \<le> ev_level ev" "ev_level ev \<le> LOG_FATAL" "ev_time ev \<in> {None, Some now}"
  shows "run_log_callbacks now (map file_slot rs @ replicate k no_callback) ev w =
    Some (deliver rs (ev_level ev)
      (log_text (date_text now) (ev_level ev) (ev_file ev) (ev_line ev) (ev_text ev)) w)"
  using assms(2-)
proof (induction rs arbitrary: ev w)
  case Nil
  then show ?case by (cases k) (simp_all add: no_callback_def)
next
  case (Cons r rs)
  obtain g m where r: "r = (g, m)" by (cases r)
  have "file_callback (init_event now g ev) w =
      Some (fprintf g (log_text (date_text now) (ev_level ev) (ev_file ev) (ev_line ev) (ev_text ev)) w)"
    using Cons.prems by (auto simp: file_callback_def init_event_def date_fits assms(1) print_event_known)
  moreover have "ev_time (init_event now g ev) = Some now" using Cons.prems by (auto simp: init_event_def)
  moreover have "ev_level (init_event now g ev) = ev_level ev" "ev_text (init_event now g ev) = ev_text ev"
    "ev_file (init_event now g ev) = ev_file ev" "ev_line (init_event now g ev) = ev_line ev"
    by (simp_all add: init_event_def)
  ultimately show ?case using Cons by (simp add: r file_slot_def)
qed

section \<open>Registering streams\<close>

definition add_streams :: "(nat \<times> int) list \<Rightarrow> logger \<Rightarrow> logger" where
  "add_streams rs L = fold (\<lambda>(fp, lv) L. snd (log_add_fp fp lv L)) rs L"

text \<open>The array as it is after streams were added: files first, then the empty slots.\<close>

definition slots :: "(nat \<times> int) list \<Rightarrow> log_Callback list" where
  "slots rs = map file_slot rs @ replicate (MAX_CALLBACKS - length rs) no_callback"

lemma fill_slot_files:
  "fill_slot new (map file_slot rs @ replicate k no_callback) =
     (if k = 0 then None else Some (map file_slot rs @ new # replicate (k - 1) no_callback))"
proof (induction rs)
  case Nil
  then show ?case by (cases k) (simp_all add: no_callback_def)
qed (simp add: file_slot_def)

lemma log_add_fp_slots:
  assumes "lg_callbacks L = slots rs"
  shows "log_add_fp fp lv L =
    (if length rs < MAX_CALLBACKS then (0, L\<lparr>lg_callbacks := slots (rs @ [(fp, lv)])\<rparr>) else (- 1, L))"
  using assms by (simp add: log_add_fp_def log_add_callback_def slots_def fill_slot_files file_slot_def)

lemma add_streams_slots:
  assumes "lg_callbacks L = slots rs" "length rs \<le> MAX_CALLBACKS"
  shows "add_streams qs L = L\<lparr>lg_callbacks := slots (take MAX_CALLBACKS (rs @ qs))\<rparr>"
  using assms
proof (induction qs arbitrary: rs L)
  case (Cons r qs)
  obtain fp lv where r: "r = (fp, lv)" by (cases r)
  have step: "add_streams (r # qs) L = add_streams qs (snd (log_add_fp fp lv L))"
    by (simp add: add_streams_def r)
  show ?case
  proof (cases "length rs < MAX_CALLBACKS")
    case True
    then show ?thesis
      unfolding step using Cons.IH [of "L\<lparr>lg_callbacks := slots (rs @ [(fp, lv)])\<rparr>" "rs @ [(fp, lv)]"] Cons.prems
      by (simp add: log_add_fp_slots [OF Cons.prems(1)] r)
  next
    case False
    then show ?thesis
      unfolding step using Cons.IH [OF Cons.prems] Cons.prems
      by (simp add: log_add_fp_slots [OF Cons.prems(1)])
  qed
qed (simp add: add_streams_def)

text \<open>The settings \<open>main\<close> makes, with any level and any streams.\<close>

definition configured :: "int \<Rightarrow> bool \<Rightarrow> (nat \<times> int) list \<Rightarrow> logger" where
  "configured level quiet rs =
     add_streams rs (log_set_quiet quiet (log_set_level level (log_set_lock (Some do_log_lock) 0 L_init)))"

lemma configured_fields:
  "lg_callbacks (configured level quiet rs) = slots (take MAX_CALLBACKS rs)"
  "lg_level (configured level quiet rs) = level"
  "lg_quiet (configured level quiet rs) = quiet"
  "lock_log b (configured level quiet rs) w = do_log_lock b 0 w"
proof -
  have "lg_callbacks (log_set_quiet quiet (log_set_level level (log_set_lock (Some do_log_lock) 0 L_init))) = slots []"
    by (simp add: L_init_def slots_def log_set_lock_def log_set_level_def log_set_quiet_def)
  from add_streams_slots [OF this]
  have *: "configured level quiet rs =
      (log_set_quiet quiet (log_set_level level (log_set_lock (Some do_log_lock) 0 L_init)))
        \<lparr>lg_callbacks := slots (take MAX_CALLBACKS rs)\<rparr>"
    by (simp add: configured_def)
  show "lg_callbacks (configured level quiet rs) = slots (take MAX_CALLBACKS rs)"
    "lg_level (configured level quiet rs) = level"
    "lg_quiet (configured level quiet rs) = quiet"
    "lock_log b (configured level quiet rs) w = do_log_lock b 0 w"
    unfolding * lock_log_def by (simp_all add: log_set_lock_def log_set_level_def log_set_quiet_def)
qed

lemma emulator_logger_configured: "emulator_logger fp = configured LOG_FATAL True [(fp, LOG_FATAL)]"
  by (simp add: emulator_logger_def configured_def add_streams_def)

lemma log_log_configured:
  assumes "tm_ok now" "LOG_TRACE \<le> lv" "lv \<le> LOG_FATAL" "\<not> mutex w"
  shows "log_log now lv file line msg (configured level quiet rs) w =
    Some (deliver (take MAX_CALLBACKS rs) lv (log_text (date_text now) lv file line msg)
      (if \<not> quiet \<and> level \<le> lv then fprintf stderr_fp (log_text (clock_text now) lv file line msg) w else w))"
proof -
  define ev where
    "ev = \<lparr>ev_text = msg, ev_file = file, ev_time = None, ev_udata = 0, ev_line = line, ev_level = lv\<rparr>"
  have err: "stdout_callback (init_event now stderr_fp ev) v =
      Some (fprintf stderr_fp (log_text (clock_text now) lv file line msg) v)" for v
    using assms(2,3) by (simp add: stdout_callback_def init_event_def ev_def clock_fits print_event_known)
  have run: "run_log_callbacks now (slots qs) e v =
      Some (deliver qs lv (log_text (date_text now) lv file line msg) v)"
    if "e \<in> {ev, init_event now stderr_fp ev}" for e v qs
    unfolding slots_def using that assms(2,3)
    by (subst run_file_slots [OF assms(1)]) (auto simp: ev_def init_event_def)
  show ?thesis
    using assms(4)
    by (simp add: log_log_def ev_def [symmetric] configured_fields do_log_lock_def err run)
      (simp add: deliver_def fprintf_def)
qed

text \<open>(C14) A message of the logging library reaches exactly the streams it should: with any level,
  any quiet flag and any number of registered files, \<open>log_log\<close> returns with the mutex free
  again; standard error got the line with the time of day when the logger is not quiet and the
  message's level is not below the logger's, and every one of the first 32 registered files, in
  the order of registration, got the line with the date when its own level is not above the
  message's; no other stream changed.\<close>

theorem log_log_streams:
  assumes "tm_ok now" "LOG_TRACE \<le> lv" "lv \<le> LOG_FATAL" "\<not> mutex w"
  shows "\<exists>w'. log_log now lv file line msg (configured level quiet rs) w = Some w' \<and> \<not> mutex w' \<and>
    streams w' = (\<lambda>fp. streams w fp @
      (if fp = stderr_fp \<and> \<not> quiet \<and> level \<le> lv then log_text (clock_text now) lv file line msg else []) @
      concat (map (\<lambda>(g, m). if g = fp \<and> m \<le> lv then log_text (date_text now) lv file line msg else [])
        (take 32 rs)))"
  unfolding log_log_configured [OF assms] using assms(4)
  by (auto simp: deliver_def fprintf_def fun_eq_iff MAX_CALLBACKS_def)

definition demo_time :: tm where
  "demo_time = \<lparr>tm_sec = 7, tm_min = 30, tm_hour = 12, tm_mday = 5, tm_mon = 2, tm_year = 124\<rparr>"

theorem log_log_streams_witness:
  "\<exists>w'. log_log demo_time LOG_ERROR ''a.c'' 3 ''m'' (configured LOG_WARN False [(5, LOG_ERROR), (6, LOG_FATAL)])
      \<lparr>streams = \<lambda>_. [], mutex = False\<rparr> = Some w' \<and> \<not> mutex w' \<and>
    streams w' 2 = log_text ''12:30:07'' LOG_ERROR ''a.c'' 3 ''m'' \<and>
    streams w' 5 = log_text ''2024-03-05 12:30:07'' LOG_ERROR ''a.c'' 3 ''m'' \<and> streams w' 6 = []"
proof -
  have "clock_text demo_time = ''12:30:07''" "date_text demo_time = ''2024-03-05 12:30:07''"
    by code_simp+
  then show ?thesis
    using log_log_streams [of demo_time LOG_ERROR "\<lparr>streams = \<lambda>_. [], mutex = False\<rparr>"
        "''a.c''" 3 "''m''" LOG_WARN False "[(5, LOG_ERROR), (6, LOG_FATAL)]"]
    by (auto simp: tm_ok_def demo_time_def log_levels stderr_fp_def)
qed

end
