(* ===== verification/Packet_Log.thy ===== *)
theory Packet_Log
  imports Packet_Timing Worker Logging
begin

text \<open>
  The packet log between the two halves of the system: \<open>packet_logging\<close> of
  \<open>src/worker.c\<close> passes a message for every TCP packet of the client to the logging library,
  among the other messages of the emulator; the scripts \<open>rfc-jitter.py\<close> and
  \<open>parse-logs.py\<close> read the file the library wrote. The mutex of the logger makes the
  messages of all threads one sequence.
\<close>

section \<open>The messages of the emulator\<close>

text \<open>The message of a packet, \<open>packet,%llu,%u,%lu,%lu\<close>.\<close>

definition packet_message :: "64 word \<Rightarrow> 16 word \<Rightarrow> 32 word \<Rightarrow> 32 word \<Rightarrow> string" where
  "packet_message ts port seq ack =
     ''packet,'' @ string_of_nat (unat ts) @ '','' @ string_of_nat (unat port) @ '','' @
     string_of_nat (unat seq) @ '','' @ string_of_nat (unat ack)"

text \<open>The time stamp in milliseconds, computed in \<open>long\<close> (64 bits) from the seconds and
  nanoseconds of the clock.\<close>

definition c_long :: "int \<Rightarrow> int option" where
  "c_long x = (if - (2 ^ 63) \<le> x \<and> x < 2 ^ 63 then Some x else None)"

definition epoch_ms :: "int \<Rightarrow> int \<Rightarrow> 64 word option" where
  "epoch_ms tv_sec tv_nsec =
     do {
       s \<leftarrow> c_long (tv_sec * 1000);
       ms \<leftarrow> c_long (s + tv_nsec div 1000000);
       Some (word_of_int ms)
     }"

text \<open>A packet that \<open>packet_logging\<close> looks at, with the seconds and nanoseconds of the clock,
  or any other call of \<open>log_log\<close> with its level, file, line and text.\<close>

datatype log_call = Packet_call int int nfq_packet | Message_call int string int string

type_synonym sender = "tm \<Rightarrow> int \<Rightarrow> string \<Rightarrow> int \<Rightarrow> string \<Rightarrow> log_world \<Rightarrow> log_world option"

definition log_with :: "logger \<Rightarrow> sender" where
  "log_with L now lv file line msg w = log_log now lv file line msg L w"

text \<open>\<open>worker_c\<close> is the name of the source file as the compiler has it, \<open>send\<close> the
  library with its settings.\<close>

fun do_log_call :: "string \<Rightarrow> sender \<Rightarrow> tm \<Rightarrow> log_call \<Rightarrow> log_world \<Rightarrow> log_world option" where
  "do_log_call worker_c send now (Packet_call tv_sec tv_nsec p) w =
     do {
       ts \<leftarrow> epoch_ms tv_sec tv_nsec;
       m \<leftarrow> packet_logging p;
       case m of
         None \<Rightarrow> Some w
       | Some (port, seq, ack) \<Rightarrow> send now LOG_FATAL worker_c 35 (packet_message ts port seq ack) w
     }"
| "do_log_call worker_c send now (Message_call lv file line msg) w = send now lv file line msg w"

fun log_calls :: "string \<Rightarrow> sender \<Rightarrow> (tm \<times> log_call) list \<Rightarrow> log_world \<Rightarrow> log_world option" where
  "log_calls worker_c send [] w = Some w"
| "log_calls worker_c send ((now, c) # cs) w =
     do { w \<leftarrow> do_log_call worker_c send now c w; log_calls worker_c send cs w }"

text \<open>Calls the emulator can make: packets of the queue at times after 1970 (the bound on the
  seconds is 285 million years), levels of the library, and file names and
  fatal messages in which the word of the packet lines does not occur.\<close>

fun call_ok :: "log_call \<Rightarrow> bool" where
  "call_ok (Packet_call tv_sec tv_nsec p) \<longleftrightarrow>
     has_payload p \<and> 0 \<le> tv_sec \<and> tv_sec < 2 ^ 53 \<and> 0 \<le> tv_nsec \<and> tv_nsec < 1000000000"
| "call_ok (Message_call lv file line msg) \<longleftrightarrow>
     LOG_TRACE \<le> lv \<and> lv \<le> LOG_FATAL \<and>
     (lv < LOG_FATAL \<or> \<not> contains ''packet,'' file \<and> \<not> contains ''packet,'' msg)"

text \<open>What the log is about: time stamp, port, sequence and acknowledgement number of the
  packets it has a line for.\<close>

fun logged :: "log_call \<Rightarrow> (int \<times> 16 word \<times> 32 word \<times> 32 word) list" where
  "logged (Packet_call tv_sec tv_nsec p) =
     (case packet_logging p of
        Some (Some (port, seq, ack)) \<Rightarrow> [(tv_sec * 1000 + tv_nsec div 1000000, port, seq, ack)]
      | _ \<Rightarrow> [])"
| "logged (Message_call lv file line msg) = []"

section \<open>The text of the log\<close>

definition front :: "tm \<Rightarrow> string \<Rightarrow> int \<Rightarrow> string" where
  "front now file line = date_text now @ '' FATAL '' @ file @ '':'' @ string_of_int line @ '': ''"

lemma comma_free: "\<not> contains ''packet,'' s" if "CHR '','' \<notin> set s" for s
  using contains_chars [of "''packet,''" s] that by auto

lemma front_clean:
  assumes "tm_ok now" "\<not> contains ''packet,'' file"
  shows "\<not> contains ''packet,'' (front now file line)"
    "\<not> contains ''packet,'' msg \<Longrightarrow> \<not> contains ''packet,'' (front now file line @ msg)"
proof -
  have "list_all is_dec (pad2 (nat i))" if "0 \<le> i" "i < 100" for i
    using that pad2_dec [of "nat i"] by (simp add: nat_less_iff)
  then have "CHR '','' \<notin> set (pad2 (nat i))" if "0 \<le> i" "i < 100" for i
    using that dec_not_special by (auto simp: list_all_iff)
  moreover have num: "CHR '','' \<notin> set (string_of_int i)" for i
    using string_of_int_chars [of "CHR '',''" i] dec_not_special by auto
  ultimately have date: "CHR '','' \<notin> set (date_text now)"
    using assms(1) by (auto simp: date_text_def clock_text_def tm_ok_def)
  have "contains ''packet,'' (front now file line @ msg) \<longleftrightarrow> contains ''packet,'' msg" for msg
    using contains_split [of "CHR '' ''" "''packet,''" "date_text now" "''FATAL '' @ file @ '':'' @ string_of_int line @ '': '' @ msg"]
      contains_split [of "CHR '' ''" "''packet,''" "''FATAL''" "file @ '':'' @ string_of_int line @ '': '' @ msg"]
      contains_split [of "CHR '':''" "''packet,''" "file" "string_of_int line @ '': '' @ msg"]
      contains_split [of "CHR '':''" "''packet,''" "string_of_int line" "CHR '' '' # msg"]
      contains_split [of "CHR '' ''" "''packet,''" "[]" msg]
      comma_free [OF date] comma_free [OF num [of line]] comma_free [of "''FATAL''"] assms(2)
    by (simp add: front_def)
  from this [of "[]"] this [of msg]
  show "\<not> contains ''packet,'' (front now file line)"
    "\<not> contains ''packet,'' msg \<Longrightarrow> \<not> contains ''packet,'' (front now file line @ msg)"
    by simp_all
qed

fun lines_of :: "string \<Rightarrow> tm \<Rightarrow> log_call \<Rightarrow> log_line list" where
  "lines_of worker_c now (Packet_call tv_sec tv_nsec p) =
     (case packet_logging p of
        Some (Some (port, seq, ack)) \<Rightarrow>
          [Packet_line (front now worker_c 35) (nat (tv_sec * 1000 + tv_nsec div 1000000)) (unat port) (unat seq) (unat ack)]
      | _ \<Rightarrow> [])"
| "lines_of worker_c now (Message_call lv file line msg) =
     (if lv = LOG_FATAL then [Other_line (front now file line @ msg)] else [])"

lemma lines_of_ok:
  assumes "tm_ok now" "call_ok c" "\<not> contains ''packet,'' worker_c"
  shows "list_all log_line_ok (lines_of worker_c now c)"
  using assms by (cases c) (auto simp: front_clean split: option.splits)

lemma epoch_ms_exact:
  assumes "0 \<le> tv_sec" "tv_sec < 2 ^ 53" "0 \<le> tv_nsec" "tv_nsec < 1000000000"
  shows "\<exists>ts. epoch_ms tv_sec tv_nsec = Some ts \<and> unat ts = nat (tv_sec * 1000 + tv_nsec div 1000000)"
proof -
  let ?ms = "tv_sec * 1000 + tv_nsec div 1000000"
  have "0 \<le> ?ms" "?ms < 2 ^ 63" using assms by auto
  moreover have "unat (word_of_int n :: 64 word) = nat n" if "0 \<le> n" "n < 2 ^ 63" for n
    using that by (simp add: unat_eq_nat_uint uint_word_of_int)
  ultimately have "unat (word_of_int ?ms :: 64 word) = nat ?ms" by blast
  then show ?thesis using assms \<open>0 \<le> ?ms\<close> \<open>?ms < 2 ^ 63\<close> by (simp add: epoch_ms_def c_long_def)
qed

lemma packet_lines_of:
  "packet_lines (lines_of worker_c now c) =
     map (\<lambda>(ts, port, seq, ack). (nat ts, unat port, unat seq, unat ack)) (logged c)"
  by (cases c) (auto simp: packet_lines_def split: option.splits)

lemma logged_nonneg: "call_ok c \<Longrightarrow> list_all (\<lambda>x. 0 \<le> fst x) (logged c)"
  by (cases c) (auto split: option.splits)

lemma packet_lines_append:
  "packet_lines [] = []" "packet_lines (xs @ ys) = packet_lines xs @ packet_lines ys"
  by (simp_all add: packet_lines_def)

section \<open>What the emulator needs of the log\<close>

text \<open>The contract between the emulator and its log: a fatal message is appended to the file, behind
  the time, the level and the place; any other has no effect.\<close>

locale fatal_log =
  fixes send :: sender and fp :: nat
  assumes fatal: "tm_ok now \<Longrightarrow> \<not> mutex w \<Longrightarrow>
      send now LOG_FATAL file line msg w = Some (fprintf fp (front now file line @ msg @ [newline]) w)"
    and below: "tm_ok now \<Longrightarrow> \<not> mutex w \<Longrightarrow> LOG_TRACE \<le> lv \<Longrightarrow> lv < LOG_FATAL \<Longrightarrow>
      send now lv file line msg w = Some w"
begin

lemma call_appends:
  assumes "tm_ok now" "call_ok c" "\<not> mutex w"
  shows "do_log_call worker_c send now c w =
    Some (fprintf fp (concat (map render_line (lines_of worker_c now c))) w)"
proof (cases c)
  case (Packet_call tv_sec tv_nsec p)
  then obtain ts where ts: "epoch_ms tv_sec tv_nsec = Some ts" "unat ts = nat (tv_sec * 1000 + tv_nsec div 1000000)"
    using assms(2) epoch_ms_exact [of tv_sec tv_nsec] by auto
  from Packet_call have "packet_logging p \<noteq> None" using assms(2) by (simp add: packet_logging_defined)
  then show ?thesis
    using fatal [OF assms(1,3)] Packet_call ts
    by (auto simp: packet_message_def fprintf_def split: option.splits)
next
  case (Message_call lv src line msg)
  then show ?thesis
    using fatal [OF assms(1,3)] below [OF assms(1,3), of lv] assms(2)
    by (cases "lv = LOG_FATAL") (auto simp: fprintf_def)
qed

lemma calls_append:
  assumes "list_all (\<lambda>(now, c). tm_ok now \<and> call_ok c) cs" "\<not> mutex w"
  shows "log_calls worker_c send cs w =
    Some (fprintf fp (concat (map render_line (concat (map (\<lambda>(now, c). lines_of worker_c now c) cs)))) w)"
  using assms
proof (induction cs arbitrary: w)
  case (Cons nc cs)
  then show ?case by (cases nc) (auto simp: call_appends fprintf_def)
qed (simp add: fprintf_def)

end

interpretation emulator_log: fatal_log "log_with (emulator_logger fp)" fp for fp
proof
  show "log_with (emulator_logger fp) now LOG_FATAL src line msg w =
      Some (fprintf fp (front now src line @ msg @ [newline]) w)" if "tm_ok now" "\<not> mutex w" for now w src line msg
    unfolding log_with_def emulator_logger_configured
    using that log_log_configured [of now LOG_FATAL w]
    by (simp add: log_levels MAX_CALLBACKS_def log_text_def front_def pad_right_def level_strings_def)
  show "log_with (emulator_logger fp) now lv src line msg w = Some w"
    if "tm_ok now" "\<not> mutex w" "LOG_TRACE \<le> lv" "lv < LOG_FATAL" for now w lv src line msg
    unfolding log_with_def emulator_logger_configured
    using that log_log_configured [of now lv w] by (simp add: log_levels MAX_CALLBACKS_def)
qed

section \<open>The round trip\<close>


definition client_packet :: nfq_packet where
  "client_packet = \<lparr>packet_id = 1, payload = Some
     [69, 0, 0, 40, 0, 0, 0, 0, 64, 6, 0, 0, 10, 0, 0, 1, 10, 0, 0, 2,
      198, 42, 0, 80, 0, 0, 1, 2, 0, 0, 0, 7, 80, 16, 0, 0, 0, 0, 0, 0]\<rparr>"

definition demo_calls :: "(tm \<times> log_call) list" where
  "demo_calls = [(demo_time, Packet_call 0 17000000 client_packet), (demo_time, Message_call LOG_FATAL ''worker.c'' 150 ''258''),
     (demo_time, Message_call LOG_DEBUG ''nfqueue.c'' 26 ''packet,''), (demo_time, Packet_call 1 0 (plain_packet 2))]"


end
