(* ===== verification/Nfqueue.thy ===== *)
theory Nfqueue
  imports C_Prelude
begin

text \<open>
  Opening, controlling and closing a netfilter queue, \<open>src/src/nfqueue.c\<close>. What the calls
  into libnetfilter\_queue, libnfnetlink and pthreads return is a parameter, the record
  \<open>nfq_calls\<close>; pointers they return are numbers, \<open>None\<close> for a null pointer. The thread
  that \<open>nfq_init\<close> starts is in the theory \<open>Queue_Thread\<close>.
\<close>

definition NFQ_QUEUE_SIZE :: nat where
  "NFQ_QUEUE_SIZE = 4096"

definition NFQ_PKT_SIZE :: nat where
  "NFQ_PKT_SIZE = 1600"

datatype nfq_status = NFQ_STOPPED | NFQ_RUNNING | NFQ_DEAD

record nfq_ctx =
  queue_num :: "16 word"
  nfq_h :: "nat option"
  nfq_qh :: "nat option"
  nfq_fd :: int
  status :: nfq_status

record nfq_calls =
  opened :: "nat option"
  rcvbuf :: "32 word"
  created :: "nat option"
  set_mode :: int
  set_maxlen :: int
  got_fd :: int
  thread_create :: int
  destroyed :: int
  closed :: int

text \<open>The return value, the context as it is left, and whether the thread was started.\<close>

definition nfq_init :: "nfq_calls \<Rightarrow> 16 word \<Rightarrow> nfq_ctx \<Rightarrow> int \<times> nfq_ctx \<times> bool" where
  "nfq_init calls q ctx =
     (let ctx = ctx\<lparr>nfq_h := opened calls\<rparr>
      in if nfq_h ctx = None then (- 1, ctx, False)
         else if rcvbuf calls < of_nat (NFQ_QUEUE_SIZE * NFQ_PKT_SIZE) then (- 1, ctx, False)
         else let ctx = ctx\<lparr>nfq_qh := created calls\<rparr>
           in if nfq_qh ctx = None then (- 1, ctx, False)
              else if set_mode calls < 0 then (- 1, ctx, False)
              else if set_maxlen calls < 0 then (- 1, ctx, False)
              else let ctx = ctx\<lparr>queue_num := q, nfq_fd := got_fd calls\<rparr>
                in if thread_create calls \<noteq> 0 then (- 1, ctx, False) else (0, ctx, True))"

definition nfq_start :: "nfq_ctx \<Rightarrow> nfq_ctx" where
  "nfq_start ctx = ctx\<lparr>status := NFQ_RUNNING\<rparr>"

definition nfq_stop :: "nfq_ctx \<Rightarrow> nfq_ctx" where
  "nfq_stop ctx = ctx\<lparr>status := NFQ_STOPPED\<rparr>"

text \<open>Both calls are made even where the first fails.\<close>

definition nfq_teardown :: "nfq_calls \<Rightarrow> nfq_ctx \<Rightarrow> int \<times> nfq_ctx" where
  "nfq_teardown calls ctx =
     (let ctx = ctx\<lparr>status := NFQ_DEAD\<rparr>;
          ret = (if destroyed calls \<noteq> 0 then - 1 else 0);
          ret = (if closed calls \<noteq> 0 then - 1 else ret)
      in (ret, ctx))"

section \<open>What opening and closing promise\<close>

text \<open>All calls that opening a queue needs.\<close>

definition calls_succeed :: "nfq_calls \<Rightarrow> bool" where
  "calls_succeed calls \<longleftrightarrow> opened calls \<noteq> None \<and> 6553600 \<le> rcvbuf calls \<and> created calls \<noteq> None \<and>
     0 \<le> set_mode calls \<and> 0 \<le> set_maxlen calls \<and> thread_create calls = 0"

lemma nfq_init_cases:
  "nfq_init calls q ctx =
     (if calls_succeed calls
      then (0, ctx\<lparr>queue_num := q, nfq_h := opened calls, nfq_qh := created calls, nfq_fd := got_fd calls\<rparr>, True)
      else (- 1, fst (snd (nfq_init calls q ctx)), False))"
  by (auto simp: nfq_init_def calls_succeed_def NFQ_QUEUE_SIZE_def NFQ_PKT_SIZE_def Let_def not_less)

lemma nfq_init_zero: "fst (nfq_init calls q ctx) = 0 \<longleftrightarrow> calls_succeed calls"
  by (subst nfq_init_cases) simp

text \<open>No path of \<open>nfq_init\<close> writes the status.\<close>

lemma nfq_init_status: "status (fst (snd (nfq_init calls q ctx))) = status ctx"
  by (simp add: nfq_init_def Let_def)

lemma nfq_teardown_cases:
  "nfq_teardown calls ctx =
     (if destroyed calls = 0 \<and> closed calls = 0 then 0 else - 1, ctx\<lparr>status := NFQ_DEAD\<rparr>)"
  by (simp add: nfq_teardown_def Let_def)

end
