(* ===== verification/Action.thy ===== *)
theory Action
  imports Worker Nfqueue PyFloat
begin

text \<open>
  The actions the scheduler executes, \<open>src/src/action.c\<close>, and the sampler \<open>tcp_schedule\<close> of the
  receive-window controller.

  Workers are objects: \<open>heap\<close> lists all that were ever allocated, \<open>None\<close> once
  destroyed, and the array \<open>workers\<close> and the pointer \<open>wkctx\<close> of the controller
  refer to them by position, so that both can name the same worker. An action ends in
  \<open>Next\<close> with the new state, in \<open>Exited\<close> (\<open>exit(1)\<close>) or in
  \<open>Undef\<close>, undefined behaviour. What the environment decides (the bytes of fresh
  memory, the results of the calls into libnetfilter\_queue) is a parameter.
  The C \<open>float\<close> values are rationals rounded to binary32 by \<open>fl32\<close>, the
  \<open>double\<close> values are rounded by \<open>fl\<close>.
\<close>

section \<open>State\<close>

datatype 'a outcome = Next 'a | Exited | Undef

fun continue :: "'a outcome \<Rightarrow> ('a \<Rightarrow> 'b outcome) \<Rightarrow> 'b outcome" where
  "continue (Next x) f = f x"
| "continue Exited f = Exited"
| "continue Undef f = Undef"

record link_parameter =
  link_mark :: int
  hist_rw :: int
  rtt :: int

record tcp_ctx =
  fire :: "64 word"
  wkctx :: "nat option"
  tcp_mark :: int
  sample_interval :: int
  burst_sample_interval :: int
  threshold :: rat
  pace :: rat
  enable_rw :: int
  hist_param :: "link_parameter list"

record action_ctx =
  queues :: "nat \<Rightarrow> nfq_ctx option"
  workers :: "nat \<Rightarrow> nat option"
  heap :: "worker_ctx option list"
  tcp_sched :: tcp_ctx
  commands :: "string list"

record environment =
  fresh_worker :: worker_ctx
  fresh_queue :: nfq_ctx
  nfq_results :: "16 word \<Rightarrow> nfq_calls"

definition ACTION_MAX_NFQUEUE :: nat where
  "ACTION_MAX_NFQUEUE = 255"

section \<open>Initialisation\<close>

text \<open>\<open>calloc\<close> clears the two arrays; the controller's record lives on the stack and
  keeps what \<open>raw\<close> holds where nothing is written.\<close>

definition init_tcp_scheduler :: "tcp_ctx \<Rightarrow> tcp_ctx" where
  "init_tcp_scheduler raw = raw\<lparr>fire := 0xFFFFFFFF, wkctx := None, sample_interval := 0\<rparr>"

definition action_init_ctx :: "tcp_ctx \<Rightarrow> action_ctx" where
  "action_init_ctx tctx =
     \<lparr>queues = (\<lambda>_. None), workers = (\<lambda>_. None), heap = [], tcp_sched = tctx, commands = []\<rparr>"

section \<open>Queues\<close>

text \<open>Element access of the two arrays, and the object a pointer names.\<close>

definition queue_at :: "action_ctx \<Rightarrow> 16 word \<Rightarrow> nfq_ctx outcome" where
  "queue_at a q =
     (if unat q < ACTION_MAX_NFQUEUE
      then case queues a (unat q) of None \<Rightarrow> Undef | Some c \<Rightarrow> Next c
      else Undef)"

definition deref :: "action_ctx \<Rightarrow> nat option \<Rightarrow> (nat \<times> worker_ctx) outcome" where
  "deref a ptr =
     (case ptr of
        None \<Rightarrow> Undef
      | Some i \<Rightarrow> (if i < length (heap a)
                   then case heap a ! i of None \<Rightarrow> Undef | Some w \<Rightarrow> Next (i, w)
                   else Undef))"

definition worker_at :: "action_ctx \<Rightarrow> 16 word \<Rightarrow> (nat \<times> worker_ctx) outcome" where
  "worker_at a q =
     (if unat q < ACTION_MAX_NFQUEUE then deref a (workers a (unat q)) else Undef)"

definition store_worker :: "nat \<Rightarrow> worker_ctx \<Rightarrow> action_ctx \<Rightarrow> action_ctx" where
  "store_worker i w a = a\<lparr>heap := (heap a)[i := Some w]\<rparr>"

definition update_worker ::
  "16 word \<Rightarrow> (worker_ctx \<Rightarrow> worker_ctx) \<Rightarrow> action_ctx \<Rightarrow> action_ctx outcome" where
  "update_worker q f a = continue (worker_at a q) (\<lambda>(i, w). Next (store_worker i (f w) a))"

section \<open>The controller's table\<close>

definition param_at :: "tcp_ctx \<Rightarrow> int \<Rightarrow> link_parameter outcome" where
  "param_at t m =
     (if 0 \<le> m \<and> m < int (length (hist_param t)) then Next (hist_param t ! nat m) else Undef)"

definition set_hist_rw :: "int \<Rightarrow> int \<Rightarrow> tcp_ctx \<Rightarrow> tcp_ctx outcome" where
  "set_hist_rw m rw t =
     continue (param_at t m)
       (\<lambda>lp. Next (t\<lparr>hist_param := (hist_param t)[nat m := lp\<lparr>hist_rw := rw\<rparr>]\<rparr>))"

section \<open>Sampling the receive window\<close>

text \<open>Rounding to binary32, and the conversions to integers that are undefined outside
  the range of their target.\<close>

definition ulp_exp32 :: "rat \<Rightarrow> int" where
  "ulp_exp32 x = max (binexp x - 23) (- 149)"

definition fl32 :: "rat \<Rightarrow> rat" where
  "fl32 x =
     (if x = 0 then 0
      else of_int (round_even (x / 2 powi ulp_exp32 x)) * 2 powi ulp_exp32 x)"

definition to_u16 :: "rat \<Rightarrow> 16 word outcome" where
  "to_u16 x = (if - 1 < x \<and> x < 65536 then Next (word_of_int (trunc_rat x)) else Undef)"

definition to_int :: "rat \<Rightarrow> int outcome" where
  "to_int x =
     (if of_int INT_MIN - 1 < x \<and> x < of_int INT_MAX + 1 then Next (trunc_rat x) else Undef)"

definition RWSCALE :: nat where "RWSCALE = 10"

text \<open>While bursting: the window the sample suggests, if it is larger. A sample interval
  of 0 makes the rate infinite, and its conversion undefined.\<close>

definition sample_burst :: "tcp_ctx \<Rightarrow> worker_ctx \<Rightarrow> worker_ctx outcome" where
  "sample_burst t w =
     continue (param_at t (tcp_mark t)) (\<lambda>lp.
       if sample_interval t = 0 then Undef
       else continue (to_int (fl (fl (of_nat (unat (data_rcvd w))) *
                                  fl (of_int (rtt lp) / of_int (sample_interval t))))) (\<lambda>n.
         let rw_est = drop_bit RWSCALE (word_of_int n :: 64 word)
         in Next (if ucast (tune_rwnd w) < rw_est then w\<lparr>tune_rwnd := ucast rw_est\<rparr> else w)))"

text \<open>While adapting: grow above the threshold, shrink below 0.7.\<close>

definition utilisation :: "worker_ctx \<Rightarrow> rat" where
  "utilisation w = fl (fl (of_nat (unat (drop_bit RWSCALE (data_rcvd w)))) /
     of_nat (unat (tune_rwnd w)))"

definition sample_adapt :: "tcp_ctx \<Rightarrow> worker_ctx \<Rightarrow> worker_ctx outcome" where
  "sample_adapt t w =
     (let r = of_nat (unat (tune_rwnd w)); rate = utilisation w
      in if tune_rwnd w = 0 then Next w
         else if rate > threshold t
         then continue (to_u16 (fl32 (r * fl32 (1 + pace t)))) (\<lambda>n. Next (w\<lparr>tune_rwnd := n\<rparr>))
         else if rate < fl (7 / 10)
         then continue (to_u16 (fl32 (r * fl32 (1 - fl32 (pace t / 4))))) (\<lambda>n. Next (w\<lparr>tune_rwnd := n\<rparr>))
         else Next w)"

definition tcp_schedule :: "action_ctx \<Rightarrow> action_ctx outcome" where
  "tcp_schedule a =
     continue (deref a (wkctx (tcp_sched a))) (\<lambda>(i, w).
       continue (if do_burst w \<noteq> 0 then sample_burst (tcp_sched a) w
                 else if do_adapt w \<noteq> 0 then sample_adapt (tcp_sched a) w
                 else Next w) (\<lambda>w.
         Next (store_worker i (w\<lparr>data_rcvd := 0\<rparr>) a)))"

section \<open>Actions\<close>

record sched_args =
  arg_enable :: int
  arg_sample_interval :: int
  arg_threshold :: rat
  arg_pace :: rat
  arg_fire :: int
  arg_mark :: int
  init_param :: "link_parameter list"

datatype action =
    Action_command string
  | Action_init_nfqueue "16 word"
  | Action_start_nfqueue "16 word"
  | Action_stop_nfqueue "16 word"
  | Action_teardown_nfqueue "16 word"
  | Action_set_mark "16 word" "32 word"
  | Action_sol_update "16 word" "32 word"
  | Action_set_reorder "16 word" int "16 word" "16 word"
  | Action_set_drop "16 word" int int
  | Action_set_rwnd "16 word" "16 word"
  | Action_set_dedup "16 word" int
  | Action_set_burst "16 word" int
  | Action_set_adapt "16 word" int
  | Action_init_tcp_sched "16 word" sched_args

text \<open>\<open>system(command)\<close>: the commands run are recorded.\<close>

definition action_command :: "string \<Rightarrow> action_ctx \<Rightarrow> action_ctx outcome" where
  "action_command c a = Next (a\<lparr>commands := commands a @ [c]\<rparr>)"

definition action_init_nfqueue :: "environment \<Rightarrow> 16 word \<Rightarrow> action_ctx \<Rightarrow> action_ctx outcome" where
  "action_init_nfqueue env q a =
     (case nfq_init (nfq_results env q) q (fresh_queue env) of (ret, qctx, _) \<Rightarrow>
        if ret \<noteq> 0 then Exited
        else if unat q < ACTION_MAX_NFQUEUE
        then Next (a\<lparr>queues := (queues a)(unat q \<mapsto> qctx),
                     workers := (workers a)(unat q \<mapsto> length (heap a)),
                     heap := heap a @ [Some (worker_init_ctx (fresh_worker env))]\<rparr>)
        else Undef)"

definition set_queue :: "16 word \<Rightarrow> (nfq_ctx \<Rightarrow> nfq_ctx) \<Rightarrow> action_ctx \<Rightarrow> action_ctx outcome" where
  "set_queue q f a =
     continue (queue_at a q) (\<lambda>c. Next (a\<lparr>queues := (queues a)(unat q \<mapsto> f c)\<rparr>))"

definition action_start_nfqueue :: "16 word \<Rightarrow> action_ctx \<Rightarrow> action_ctx outcome" where
  "action_start_nfqueue q = set_queue q nfq_start"

definition action_stop_nfqueue :: "16 word \<Rightarrow> action_ctx \<Rightarrow> action_ctx outcome" where
  "action_stop_nfqueue q = set_queue q nfq_stop"

text \<open>The queue is dead even where closing it fails; then the rest is skipped.\<close>

definition action_teardown_nfqueue ::
  "environment \<Rightarrow> 16 word \<Rightarrow> action_ctx \<Rightarrow> action_ctx outcome" where
  "action_teardown_nfqueue env q a =
     continue (queue_at a q) (\<lambda>qctx.
       case nfq_teardown (nfq_results env q) qctx of (ret, qctx) \<Rightarrow>
       let a = a\<lparr>queues := (queues a)(unat q \<mapsto> qctx)\<rparr>
       in if ret \<noteq> 0 then Next a
       else continue (worker_at a q) (\<lambda>(i, w).
         Next (a\<lparr>heap := (heap a)[i := None], queues := (queues a)(unat q := None),
                 workers := (workers a)(unat q := None)\<rparr>)))"

definition action_set_mark :: "16 word \<Rightarrow> 32 word \<Rightarrow> action_ctx \<Rightarrow> action_ctx outcome" where
  "action_set_mark q m = update_worker q (worker_set_mark m)"

definition action_set_reorder ::
  "16 word \<Rightarrow> int \<Rightarrow> 16 word \<Rightarrow> 16 word \<Rightarrow> action_ctx \<Rightarrow> action_ctx outcome" where
  "action_set_reorder q e cnt ofs = update_worker q (worker_set_reorder e cnt ofs)"

definition action_set_drop :: "16 word \<Rightarrow> int \<Rightarrow> int \<Rightarrow> action_ctx \<Rightarrow> action_ctx outcome" where
  "action_set_drop q e n = update_worker q (worker_set_drop e n)"

definition action_set_dedup :: "16 word \<Rightarrow> int \<Rightarrow> action_ctx \<Rightarrow> action_ctx outcome" where
  "action_set_dedup q e = update_worker q (worker_set_dedup e)"

text \<open>The current window is remembered for the link that is left.\<close>

definition remember_window :: "worker_ctx \<Rightarrow> 32 word \<Rightarrow> tcp_ctx \<Rightarrow> tcp_ctx outcome" where
  "remember_window w m t =
     (if tune_rwnd w \<noteq> 0
      then continue (set_hist_rw (tcp_mark t) (uint (tune_rwnd w)) t)
             (\<lambda>t. Next (t\<lparr>tcp_mark := sint m\<rparr>))
      else Next t)"

definition action_sol_update :: "16 word \<Rightarrow> 32 word \<Rightarrow> action_ctx \<Rightarrow> action_ctx outcome" where
  "action_sol_update q m a =
     continue (worker_at a q) (\<lambda>(i, w).
       continue (remember_window w m (tcp_sched a)) (\<lambda>t.
         continue (param_at t (uint m)) (\<lambda>lp.
           Next (store_worker i (worker_sol_update (hist_rw lp) w) (a\<lparr>tcp_sched := t\<rparr>)))))"

definition action_set_rwnd :: "16 word \<Rightarrow> 16 word \<Rightarrow> action_ctx \<Rightarrow> action_ctx outcome" where
  "action_set_rwnd q rwnd = update_worker q (worker_set_rwnd (if rwnd < 10 then 10 else rwnd))"

definition action_set_burst :: "16 word \<Rightarrow> int \<Rightarrow> action_ctx \<Rightarrow> action_ctx outcome" where
  "action_set_burst q enable a =
     continue (worker_at a q) (\<lambda>(i, w).
       let t = tcp_sched a in
       continue (param_at t (tcp_mark t)) (\<lambda>lp.
         let w = worker_set_burst enable (hist_rw lp) w; a = store_worker i w a in
         if enable > 0 then Next (a\<lparr>tcp_sched := t\<lparr>sample_interval := burst_sample_interval t\<rparr>\<rparr>)
         else if uint (tune_rwnd w) > hist_rw lp
         then continue (set_hist_rw (tcp_mark t) (uint (tune_rwnd w)) t)
                (\<lambda>t. Next (a\<lparr>tcp_sched := t\<rparr>))
         else Next a))"

definition action_set_adapt :: "16 word \<Rightarrow> int \<Rightarrow> action_ctx \<Rightarrow> action_ctx outcome" where
  "action_set_adapt q enable a =
     continue (worker_at a q) (\<lambda>(i, w).
       let t = tcp_sched a in
       continue (param_at t (tcp_mark t)) (\<lambda>lp.
         let a = (if enable > 0 then a\<lparr>tcp_sched := t\<lparr>sample_interval := rtt lp\<rparr>\<rparr> else a)
         in Next (store_worker i (worker_set_adapt enable (hist_rw lp) w) a)))"

text \<open>The loop over the two links copies the parameters, numbering the links itself.\<close>

definition copy_params :: "link_parameter list \<Rightarrow> link_parameter list \<Rightarrow> link_parameter list" where
  "copy_params ini hist = hist[1 := (ini ! 1)\<lparr>link_mark := 1\<rparr>, 2 := (ini ! 2)\<lparr>link_mark := 2\<rparr>]"

definition action_init_tcp_sched :: "16 word \<Rightarrow> sched_args \<Rightarrow> action_ctx \<Rightarrow> action_ctx outcome" where
  "action_init_tcp_sched q args a =
     (if unat q < ACTION_MAX_NFQUEUE \<and> 0 \<le> arg_mark args \<and> arg_mark args < 3
      then let t = (tcp_sched a)\<lparr>wkctx := workers a (unat q), fire := word_of_int (arg_fire args),
                 burst_sample_interval := arg_sample_interval args,
                 threshold := arg_threshold args, pace := arg_pace args,
                 tcp_mark := arg_mark args,
                 sample_interval := rtt (init_param args ! nat (arg_mark args)),
                 enable_rw := arg_enable args,
                 hist_param := copy_params (init_param args) (hist_param (tcp_sched a))\<rparr>
           in continue (update_worker q (worker_init_tcp_sched (arg_enable args)) (a\<lparr>tcp_sched := t\<rparr>))
                (\<lambda>a. continue (param_at t (tcp_mark t)) (\<lambda>lp.
                   update_worker q (worker_set_rwnd (word_of_int (hist_rw lp))) a))
      else Undef)"

text \<open>The call of a handler with its argument record.\<close>

fun perform :: "environment \<Rightarrow> action \<Rightarrow> action_ctx \<Rightarrow> action_ctx outcome" where
  "perform env (Action_command c) a = action_command c a"
| "perform env (Action_init_nfqueue q) a = action_init_nfqueue env q a"
| "perform env (Action_start_nfqueue q) a = action_start_nfqueue q a"
| "perform env (Action_stop_nfqueue q) a = action_stop_nfqueue q a"
| "perform env (Action_teardown_nfqueue q) a = action_teardown_nfqueue env q a"
| "perform env (Action_set_mark q m) a = action_set_mark q m a"
| "perform env (Action_sol_update q m) a = action_sol_update q m a"
| "perform env (Action_set_reorder q e cnt ofs) a = action_set_reorder q e cnt ofs a"
| "perform env (Action_set_drop q e n) a = action_set_drop q e n a"
| "perform env (Action_set_rwnd q rwnd) a = action_set_rwnd q rwnd a"
| "perform env (Action_set_dedup q e) a = action_set_dedup q e a"
| "perform env (Action_set_burst q e) a = action_set_burst q e a"
| "perform env (Action_set_adapt q e) a = action_set_adapt q e a"
| "perform env (Action_init_tcp_sched q args) a = action_init_tcp_sched q args a"

lemmas worker_actions = action_set_mark_def action_set_reorder_def action_set_drop_def
  action_set_dedup_def action_set_rwnd_def

section \<open>Frame lemmas\<close>

lemma continue_eq_Next: "continue r f = Next y \<longleftrightarrow> (\<exists>x. r = Next x \<and> f x = Next y)"
  by (cases r) auto

text \<open>A queue is opened, with the status its fresh memory happens to hold, exactly when every call
  into the library succeeds; otherwise the program exits.\<close>

lemma action_init_nfqueue_opens:
  assumes "unat q < ACTION_MAX_NFQUEUE"
  shows "action_init_nfqueue env q a =
    (let calls = nfq_results env q
     in if calls_succeed calls
        then Next (a\<lparr>queues := (queues a)(unat q \<mapsto> (fresh_queue env)
                \<lparr>queue_num := q, nfq_h := opened calls, nfq_qh := created calls, nfq_fd := got_fd calls\<rparr>),
              workers := (workers a)(unat q \<mapsto> length (heap a)),
              heap := heap a @ [Some (worker_init_ctx (fresh_worker env))]\<rparr>)
        else Exited)"
  using assms unfolding action_init_nfqueue_def
  by (subst nfq_init_cases) (simp add: Let_def)

lemma param_at_eq_Next:
  "param_at t m = Next lp \<longleftrightarrow>
     0 \<le> m \<and> m < int (length (hist_param t)) \<and> lp = hist_param t ! nat m"
  by (auto simp: param_at_def)

lemma update_worker_tcp: "update_worker q f a = Next b \<Longrightarrow> tcp_sched b = tcp_sched a"
  by (auto simp: update_worker_def continue_eq_Next store_worker_def split: prod.splits)

lemma set_queue_tcp: "set_queue q f a = Next b \<Longrightarrow> tcp_sched b = tcp_sched a"
  by (auto simp: set_queue_def continue_eq_Next)

section \<open>The controller adapts in the right direction\<close>

text \<open>Rounding to binary32 does not cross an integer of at most 23 bits.\<close>

lemma fl32_nearest:
  assumes "x \<noteq> 0"
  shows "\<bar>fl32 x - x\<bar> \<le> \<bar>of_int k * 2 powi ulp_exp32 x - x\<bar>"
proof -
  define u :: rat where "u = 2 powi ulp_exp32 x"
  have u: "0 < u" by (simp add: u_def)
  have "\<bar>of_int (round_even (x / u)) - x / u\<bar> * u \<le> \<bar>of_int k - x / u\<bar> * u"
    using round_even_nearest [of "x / u" k] u by (intro mult_right_mono) auto
  moreover have "\<bar>of_int (round_even (x / u)) - x / u\<bar> * u = \<bar>fl32 x - x\<bar>"
    using u assms by (simp add: fl32_def abs_if field_simps flip: u_def)
  moreover have "\<bar>of_int k - x / u\<bar> * u = \<bar>of_int k * u - x\<bar>"
    using u by (simp add: abs_if field_simps)
  ultimately have "\<bar>fl32 x - x\<bar> \<le> \<bar>of_int k * u - x\<bar>" by (simp only:)
  then show ?thesis by (simp add: u_def)
qed

lemma on_grid:
  assumes "e \<le> 0"
  shows "\<exists>k. of_int n = of_int k * (2 :: rat) powi e"
proof (intro exI [of _ "n * 2 ^ nat (- e)"])
  have "(2 :: rat) powi e = inverse (2 ^ nat (- e))"
    using assms by (simp add: power_int_def power_divide inverse_eq_divide)
  then show "of_int n = of_int (n * 2 ^ nat (- e)) * (2 :: rat) powi e" by simp
qed

lemma fl32_le_int:
  assumes "0 \<le> x" and "x \<le> of_int n" and "n < 2 ^ 23"
  shows "fl32 x \<le> of_int n"
proof (cases "x = 0")
  case True
  with assms show ?thesis by (simp add: fl32_def)
next
  case False
  have "2 powi binexp x \<le> x" using binexp_bounds(1) [OF False] assms(1) by simp
  also have "x < of_int (2 ^ 23)" using assms(2,3) by (meson le_less_trans of_int_less_iff)
  finally have "(2 :: rat) powi binexp x < 2 powi 23" by simp
  then have "binexp x < 23"
    by (metis not_less power_int_increasing one_le_numeral order_less_irrefl order_less_le_trans)
  then have "ulp_exp32 x \<le> 0" by (simp add: ulp_exp32_def)
  then obtain k where "of_int n = of_int k * (2 :: rat) powi ulp_exp32 x" using on_grid by blast
  with fl32_nearest [OF False, of k] assms(2) show ?thesis by linarith
qed

lemma fl32_ge_int:
  assumes "of_int n \<le> x" and "0 \<le> n" and "n < 2 ^ 23"
  shows "of_int n \<le> fl32 x"
proof (cases "x = 0")
  case True
  with assms show ?thesis by (simp add: fl32_def)
next
  case False
  show ?thesis
  proof (cases "binexp x < 23")
    case True
    then have "ulp_exp32 x \<le> 0" by (simp add: ulp_exp32_def)
    then obtain k where "of_int n = of_int k * (2 :: rat) powi ulp_exp32 x" using on_grid by blast
    with fl32_nearest [OF False, of k] assms(1) show ?thesis by linarith
  next
    case big: False
    have x: "0 \<le> x" using assms(1,2) by (meson of_int_0_le_iff order_trans)
    have "(of_int n :: rat) < of_int (2 ^ 23)" using assms(3) by (simp only: of_int_less_iff)
    also have "of_int (2 ^ 23) = (2 :: rat) powi 23" by simp
    also have "\<dots> \<le> 2 powi binexp x" using big by (intro power_int_increasing) auto
    finally have n: "of_int n \<le> (2 :: rat) powi binexp x" by simp
    have "(2 :: rat) powi binexp x = of_int (2 ^ 23) * 2 powi ulp_exp32 x"
      using big by (simp add: ulp_exp32_def power_int_diff)
    with fl32_nearest [OF False, of "2 ^ 23"] binexp_bounds(1) [OF False] x n show ?thesis
      by linarith
  qed
qed

lemma to_u16_Next:
  assumes "0 \<le> x" and "x < 65536"
  shows "to_u16 x = Next (word_of_int \<lfloor>x\<rfloor>)" and "uint (word_of_int \<lfloor>x\<rfloor> :: 16 word) = \<lfloor>x\<rfloor>"
proof -
  show "to_u16 x = Next (word_of_int \<lfloor>x\<rfloor>)"
    using assms by (simp add: to_u16_def trunc_rat_def)
  have "0 \<le> \<lfloor>x\<rfloor>" "\<lfloor>x\<rfloor> < 65536" using assms by (simp_all add: floor_less_iff)
  then show "uint (word_of_int \<lfloor>x\<rfloor> :: 16 word) = \<lfloor>x\<rfloor>"
    by (simp add: uint_word_of_int)
qed

lemma u16_bounds: "uint (w :: 16 word) < 65536" "0 \<le> uint w"
  using uint_lt2p [of w] by simp_all

lemma grow_window:
  fixes r :: "16 word"
  assumes "0 \<le> p"
  shows "case to_u16 (fl32 (of_nat (unat r) * fl32 (1 + p))) of
      Next n \<Rightarrow> r \<le> n
    | Exited \<Rightarrow> False
    | Undef \<Rightarrow> 65536 \<le> fl32 (of_nat (unat r) * fl32 (1 + p))"
proof -
  define n where "n = uint r"
  have r: "(of_nat (unat r) :: rat) = of_int n" by (simp add: n_def)
  have n: "0 \<le> n" "n < 65536" using u16_bounds [of r] by (simp_all add: n_def)
  have "(of_int 1 :: rat) \<le> fl32 (1 + p)" using assms by (intro fl32_ge_int) auto
  then have "(of_int n :: rat) * 1 \<le> of_int n * fl32 (1 + p)"
    using n by (intro mult_left_mono) auto
  then have "of_int n \<le> fl32 (of_nat (unat r) * fl32 (1 + p))"
    using n unfolding r by (intro fl32_ge_int) auto
  moreover define y where "y = fl32 (of_nat (unat r) * fl32 (1 + p))"
  ultimately have y: "of_int n \<le> y" by simp
  then have y0: "0 \<le> y" using n by (meson of_int_0_le_iff order_trans)
  show ?thesis
  proof (cases "y < 65536")
    case True
    have "n \<le> \<lfloor>y\<rfloor>" using y by (simp add: le_floor_iff)
    with to_u16_Next [OF y0 True] show ?thesis
      unfolding y_def [symmetric] by (simp add: word_le_def n_def)
  next
    case False
    then show ?thesis unfolding y_def [symmetric] by (simp add: to_u16_def)
  qed
qed

lemma shrink_window:
  fixes r :: "16 word"
  assumes "0 \<le> p" and "p \<le> 4"
  shows "\<exists>n. to_u16 (fl32 (of_nat (unat r) * fl32 (1 - fl32 (p / 4)))) = Next n \<and> n \<le> r"
proof -
  define n where "n = uint r"
  have r: "(of_nat (unat r) :: rat) = of_int n" by (simp add: n_def)
  have n: "0 \<le> n" "n < 65536" using u16_bounds [of r] by (simp_all add: n_def)
  have "(of_int 0 :: rat) \<le> fl32 (p / 4)" using assms by (intro fl32_ge_int) auto
  moreover have "fl32 (p / 4) \<le> (of_int 1 :: rat)" using assms by (intro fl32_le_int) auto
  ultimately have q: "0 \<le> 1 - fl32 (p / 4)" "1 - fl32 (p / 4) \<le> 1" by simp_all
  define g where "g = fl32 (1 - fl32 (p / 4))"
  have "(of_int 0 :: rat) \<le> g" unfolding g_def using q by (intro fl32_ge_int) auto
  moreover have "g \<le> of_int 1" unfolding g_def using q by (intro fl32_le_int) auto
  ultimately have g: "0 \<le> g" "g \<le> 1" by simp_all
  have m: "0 \<le> of_int n * g" using g n by (intro mult_nonneg_nonneg) auto
  have "of_int n * g \<le> of_int n * 1"
    using g n by (intro mult_left_mono) auto
  then have le: "of_int n * g \<le> of_int n" by simp
  define y where "y = fl32 (of_int n * g)"
  have yr: "y \<le> of_int n"
    unfolding y_def using m le n by (intro fl32_le_int) auto
  have "of_int 0 \<le> y" unfolding y_def using m by (intro fl32_ge_int) auto
  then have y0: "0 \<le> y" by simp
  have "(of_int n :: rat) < of_int 65536" using n by (simp only: of_int_less_iff)
  then have "y < 65536" using yr by simp
  with to_u16_Next [OF y0 this] have "to_u16 y = Next (word_of_int \<lfloor>y\<rfloor>)"
    and u: "uint (word_of_int \<lfloor>y\<rfloor> :: 16 word) = \<lfloor>y\<rfloor>" by simp_all
  moreover have "\<lfloor>y\<rfloor> \<le> n" using yr by (simp add: floor_le_iff)
  moreover have "fl32 (of_nat (unat r) * fl32 (1 - fl32 (p / 4))) = y"
    by (simp only: y_def g_def r)
  ultimately show ?thesis by (simp only:) (simp add: word_le_def u n_def)
qed


definition adapting_ctx :: action_ctx where
  "adapting_ctx = \<lparr>queues = (\<lambda>_. None), workers = (\<lambda>_. None),
     heap = [Some (plain_ctx\<lparr>do_adapt := 1, tune_rwnd := 100\<rparr>)],
     tcp_sched = \<lparr>fire = 0, wkctx = Some 0, tcp_mark = 1, sample_interval = 30,
       burst_sample_interval = 30, threshold = 1, pace = 1 / 2, enable_rw = 1, hist_param = []\<rparr>,
     commands = []\<rparr>"


end
