(* ===== verification/Queue_Thread.thy ===== *)
theory Queue_Thread
  imports Action "HOL-Library.Sublist"
begin

text \<open>
  The thread of a netfilter queue, \<open>nfq_run\<close> of \<open>src/src/nfqueue.c\<close>, with
  the worker it feeds and the two parties that act beside it: the kernel, which puts
  packets into the queue, and the scheduler thread, which starts, stops and tears down
  the queue and configures the worker.

  A state extends \<open>worker_state\<close> by the status of the queue, by what the kernel
  holds for the thread, and by the place the thread is at. The steps carry labels, so that
  a run says what happened. The kernel is the environment: it keeps the order of packets
  and holds at most \<open>NFQ_QUEUE_SIZE\<close> of them, as \<open>nfq_set_queue_maxlen\<close>
  asks; it may drop a packet at any time (it also counts packets without a verdict, and its
  socket buffer is limited). \<open>recv\<close> may fail at any time. A packet whose payload cannot be
  read is not received: the handlers would read an uninitialised pointer.
\<close>

section \<open>State and steps\<close>

text \<open>The thread is at the \<open>switch\<close> on the status, in \<open>recv\<close>, in the callback
  for a packet, or has returned.\<close>

datatype place = At_switch | In_recv | In_callback | Returned

record queue_state = worker_state +
  q_status :: nfq_status
  waiting :: "nfq_packet list"
  place :: place

datatype label =
    Enqueue nfq_packet
  | Overflow nfq_packet
  | Recv nfq_packet
  | Control nfq_status
  | Internal

text \<open>The worker's part of a state, and a step of it.\<close>

definition worker_part :: "queue_state \<Rightarrow> worker_state" where
  "worker_part s = \<lparr>wctx = wctx s, stage = stage s, arrived = arrived s, issued = issued s\<rparr>"

definition with_worker :: "worker_state \<Rightarrow> queue_state \<Rightarrow> queue_state" where
  "with_worker w s = s\<lparr>wctx := wctx w, stage := stage w, arrived := arrived w, issued := issued w\<rparr>"

inductive nfq_run ::
  "(worker_ctx \<Rightarrow> nfq_packet \<Rightarrow> handled) list \<Rightarrow> queue_state \<Rightarrow> label \<Rightarrow> queue_state \<Rightarrow> bool"
  for hs where
  running: "place s = At_switch \<Longrightarrow> q_status s = NFQ_RUNNING \<Longrightarrow>
     nfq_run hs s Internal (s\<lparr>place := In_recv\<rparr>)"
| stopped: "place s = At_switch \<Longrightarrow> q_status s = NFQ_STOPPED \<Longrightarrow> nfq_run hs s Internal s"
| dead: "place s = At_switch \<Longrightarrow> q_status s = NFQ_DEAD \<Longrightarrow>
     nfq_run hs s Internal (s\<lparr>place := Returned\<rparr>)"
| recv_fails: "place s = In_recv \<Longrightarrow> nfq_run hs s Internal (s\<lparr>place := At_switch\<rparr>)"
| recv: "place s = In_recv \<Longrightarrow> waiting s = p # rest \<Longrightarrow> payload p \<noteq> None \<Longrightarrow>
     nfq_run hs s (Recv p) (s\<lparr>place := In_callback, waiting := rest,
       stage := AtHandler 0 p, arrived := arrived s @ [packet_id p]\<rparr>)"
| callback: "place s = In_callback \<Longrightarrow> stage s \<noteq> Waiting \<Longrightarrow> worker_step hs (worker_part s) w \<Longrightarrow>
     nfq_run hs s Internal (with_worker w s)"
| callback_returns: "place s = In_callback \<Longrightarrow> stage s = Waiting \<Longrightarrow>
     nfq_run hs s Internal (s\<lparr>place := At_switch\<rparr>)"
| enqueue: "length (waiting s) < NFQ_QUEUE_SIZE \<Longrightarrow>
     nfq_run hs s (Enqueue p) (s\<lparr>waiting := waiting s @ [p]\<rparr>)"
| overflow: "nfq_run hs s (Overflow p) s"
| control: "nfq_run hs s (Control st) (s\<lparr>q_status := st\<rparr>)"
| configure: "op_ok op \<Longrightarrow> nfq_run hs s Internal (s\<lparr>wctx := apply_op op (wctx s)\<rparr>)"

text \<open>A run: a sequence of steps with its labels.\<close>

inductive nfq_runs ::
  "(worker_ctx \<Rightarrow> nfq_packet \<Rightarrow> handled) list \<Rightarrow> queue_state \<Rightarrow> label list \<Rightarrow> queue_state \<Rightarrow> bool"
  for hs where
  none: "nfq_runs hs s [] s"
| more: "nfq_run hs s l t \<Longrightarrow> nfq_runs hs t ls u \<Longrightarrow> nfq_runs hs s (l # ls) u"

inductive_cases nfq_runs_NilE: "nfq_runs hs s [] t"
inductive_cases nfq_runs_ConsE: "nfq_runs hs s (l # ls) t"

text \<open>\<open>nfq_init\<close>: the thread starts with an empty queue, and with the status the
  memory held.\<close>

definition nfq_started :: "nfq_status \<Rightarrow> worker_ctx \<Rightarrow> queue_state" where
  "nfq_started st raw =
     \<lparr>wctx = worker_init_ctx raw, stage = Waiting, arrived = [], issued = [],
      q_status = st, waiting = [], place = At_switch\<rparr>"

section \<open>The worker inside the thread\<close>

lemma with_worker_simps [simp]:
  "q_status (with_worker w s) = q_status s" "waiting (with_worker w s) = waiting s"
  "place (with_worker w s) = place s" "wctx (with_worker w s) = wctx w"
  "stage (with_worker w s) = stage w" "arrived (with_worker w s) = arrived w"
  "issued (with_worker w s) = issued w" "worker_part (with_worker w s) = w"
  by (simp_all add: with_worker_def worker_part_def)

lemma worker_part_simps [simp]:
  "wctx (worker_part s) = wctx s" "stage (worker_part s) = stage s"
  "arrived (worker_part s) = arrived s" "issued (worker_part s) = issued s"
  by (simp_all add: worker_part_def)

text \<open>A step of a worker that is not waiting takes in no packet.\<close>

lemma worker_step_arrived:
  "worker_step hs s t \<Longrightarrow> stage s \<noteq> Waiting \<Longrightarrow> arrived t = arrived s"
  by (induction rule: worker_step.induct) auto

text \<open>The thread is in the callback whenever the worker has a packet, and the worker
  is in a state it can reach on its own.\<close>

definition thread_inv :: "(worker_ctx \<Rightarrow> nfq_packet \<Rightarrow> handled) list \<Rightarrow> queue_state \<Rightarrow> bool" where
  "thread_inv hs s \<longleftrightarrow> worker_reach hs (worker_part s) \<and>
     (place s \<noteq> In_callback \<longrightarrow> stage s = Waiting)"

lemma thread_inv_started: "thread_inv hs (nfq_started st raw)"
  using worker_reach.start [of hs raw]
  by (simp add: thread_inv_def nfq_started_def worker_part_def worker_start_def)

lemma thread_inv_step: "nfq_run hs s l t \<Longrightarrow> thread_inv hs s \<Longrightarrow> thread_inv hs t"
proof (induction rule: nfq_run.induct)
  case (recv s p rest)
  then have "worker_step hs (worker_part s)
      ((worker_part s)\<lparr>stage := AtHandler 0 p, arrived := arrived s @ [packet_id p]\<rparr>)"
    using worker_step.arrive [of "worker_part s" p hs] by (simp add: thread_inv_def)
  with recv show ?case
    using worker_reach.step by (fastforce simp: thread_inv_def worker_part_def)
next
  case (callback s w)
  then show ?case
    using worker_reach.step by (fastforce simp: thread_inv_def)
next
  case (configure op s)
  then have "worker_step hs (worker_part s) ((worker_part s)\<lparr>wctx := apply_op op (wctx s)\<rparr>)"
    using worker_step.configure [of op hs "worker_part s"] by simp
  with configure show ?case
    using worker_reach.step by (fastforce simp: thread_inv_def worker_part_def)
qed (auto simp: thread_inv_def worker_part_def)

lemma thread_inv_runs: "nfq_runs hs s ls t \<Longrightarrow> thread_inv hs s \<Longrightarrow> thread_inv hs t"
  by (induction rule: nfq_runs.induct) (auto intro: thread_inv_step)

section \<open>What goes through\<close>

fun enqueued :: "label list \<Rightarrow> nfq_packet list" where
  "enqueued [] = []"
| "enqueued (Enqueue p # ls) = p # enqueued ls"
| "enqueued (_ # ls) = enqueued ls"

fun received :: "label list \<Rightarrow> nfq_packet list" where
  "received [] = []"
| "received (Recv p # ls) = p # received ls"
| "received (_ # ls) = received ls"

lemma step_fifo:
  "nfq_run hs s l t \<Longrightarrow>
     waiting s @ enqueued [l] = received [l] @ waiting t \<and>
     arrived t = arrived s @ map packet_id (received [l])"
  by (induction rule: nfq_run.induct) (auto dest: worker_step_arrived)

lemma labels_Cons:
  "enqueued (l # ls) = enqueued [l] @ enqueued ls" "received (l # ls) = received [l] @ received ls"
  by (cases l; simp)+

lemma runs_fifo:
  "nfq_runs hs s ls t \<Longrightarrow>
     waiting s @ enqueued ls = received ls @ waiting t \<and>
     arrived t = arrived s @ map packet_id (received ls)"
proof (induction rule: nfq_runs.induct)
  case (more s l t ls u)
  then show ?case
    using step_fifo [OF more.hyps(1)] labels_Cons [of l ls]
    by (metis append.assoc map_append)
qed simp

lemma step_capacity:
  "nfq_run hs s l t \<Longrightarrow> length (waiting s) \<le> NFQ_QUEUE_SIZE \<Longrightarrow> length (waiting t) \<le> NFQ_QUEUE_SIZE"
  by (induction rule: nfq_run.induct) auto

lemma runs_capacity:
  "nfq_runs hs s ls t \<Longrightarrow> length (waiting s) \<le> NFQ_QUEUE_SIZE \<Longrightarrow> length (waiting t) \<le> NFQ_QUEUE_SIZE"
  by (induction rule: nfq_runs.induct) (auto intro: step_capacity)

section \<open>A stopped queue\<close>

lemma gap_step:
  assumes "nfq_run hs s l t" and "q_status s \<noteq> NFQ_RUNNING" and "l \<noteq> Control NFQ_RUNNING"
  shows "q_status t \<noteq> NFQ_RUNNING \<and>
    length (received [l]) + (if place t = In_recv then 1 else 0) \<le> (if place s = In_recv then 1 else (0::nat))"
  using assms by (induction rule: nfq_run.induct) auto

lemma gap_received:
  assumes "nfq_runs hs s ls t" and "q_status s \<noteq> NFQ_RUNNING" and "Control NFQ_RUNNING \<notin> set ls"
  shows "length (received ls) \<le> (if place s = In_recv then 1 else 0)"
  using assms
proof (induction rule: nfq_runs.induct)
  case (more s l t ls u)
  then have ne: "l \<noteq> Control NFQ_RUNNING" by auto
  note g = gap_step [OF more.hyps(1) more.prems(1) ne]
  have "length (received ls) \<le> (if place t = In_recv then 1 else 0)"
    using more g by simp
  with g show ?case using labels_Cons(2) [of l ls] by simp
qed simp

section \<open>Draining\<close>

lemma nfq_runs_append:
  "nfq_runs hs s ls t \<Longrightarrow> nfq_runs hs t ls' u \<Longrightarrow> nfq_runs hs s (ls @ ls') u"
  by (induction rule: nfq_runs.induct) (auto intro: nfq_runs.more)

definition thread_label :: "label \<Rightarrow> bool" where
  "thread_label l \<longleftrightarrow> (case l of Internal \<Rightarrow> True | Recv p \<Rightarrow> True | _ \<Rightarrow> False)"

lemma callback_completes:
  assumes "(worker_step hs)\<^sup>*\<^sup>* w v" and "stage v = Waiting" and "worker_part s = w"
    and "place s = In_callback"
  shows "\<exists>ls t. nfq_runs hs s ls t \<and> set ls \<subseteq> {Internal} \<and> place t = At_switch \<and>
    waiting t = waiting s \<and> q_status t = q_status s"
  using assms
proof (induction arbitrary: s rule: converse_rtranclp_induct)
  case base
  then have "stage s = Waiting" by (metis worker_part_simps(2))
  with base have "nfq_runs hs s [Internal] (s\<lparr>place := At_switch\<rparr>)"
    by (intro nfq_runs.more [OF nfq_run.callback_returns] nfq_runs.none) auto
  then show ?case by force
next
  case (step w w')
  show ?case
  proof (cases "stage s = Waiting")
    case True
    with step have "nfq_runs hs s [Internal] (s\<lparr>place := At_switch\<rparr>)"
      by (intro nfq_runs.more [OF nfq_run.callback_returns] nfq_runs.none) auto
    then show ?thesis by force
  next
    case False
    with step have first: "nfq_run hs s Internal (with_worker w' s)"
      by (intro nfq_run.callback) auto
    obtain ls t where "nfq_runs hs (with_worker w' s) ls t" "set ls \<subseteq> {Internal}"
      "place t = At_switch" "waiting t = waiting s" "q_status t = q_status s"
      using step.IH [of "with_worker w' s"] step.prems by auto
    with first show ?thesis
      by (intro exI [of _ "Internal # ls"] exI [of _ t]) (auto intro: nfq_runs.more)
  qed
qed

lemma callback_to_switch:
  assumes "thread_inv (worker_handlers f) s" and "place s = In_callback"
  shows "\<exists>ls t. nfq_runs (worker_handlers f) s ls t \<and> set ls \<subseteq> {Internal} \<and> place t = At_switch \<and>
    waiting t = waiting s \<and> q_status t = q_status s"
proof -
  have reach: "worker_reach (worker_handlers f) (worker_part s)"
    using assms(1) by (simp add: thread_inv_def)
  obtain v where "(worker_step (worker_handlers f))\<^sup>*\<^sup>* (worker_part s) v" "stage v = Waiting"
  proof (cases "stage (worker_part s)")
    case Waiting
    then show ?thesis using that by blast
  next
    case (AtHandler i p)
    then show ?thesis using worker_chain.callback_ends [OF reach] that by blast
  qed
  then show ?thesis using callback_completes assms(2) by blast
qed

text \<open>The thread of a dead queue returns on its own.\<close>

lemma dead_returns:
  assumes "thread_inv (worker_handlers f) s" and "q_status s = NFQ_DEAD"
  shows "\<exists>ls t. nfq_runs (worker_handlers f) s ls t \<and> set ls \<subseteq> {Internal} \<and> place t = Returned"
proof -
  let ?hs = "worker_handlers f"
  have switch: "\<exists>t. nfq_runs ?hs u [Internal] t \<and> place t = Returned"
    if "place u = At_switch" "q_status u = NFQ_DEAD" for u
    using nfq_runs.more [OF nfq_run.dead [OF that] nfq_runs.none] by force
  show ?thesis
  proof (cases "place s")
    case At_switch
    then show ?thesis using switch assms(2) by fastforce
  next
    case In_recv
    then have "nfq_run ?hs s Internal (s\<lparr>place := At_switch\<rparr>)" by (rule nfq_run.recv_fails)
    moreover obtain t where "nfq_runs ?hs (s\<lparr>place := At_switch\<rparr>) [Internal] t" "place t = Returned"
      using switch [of "s\<lparr>place := At_switch\<rparr>"] assms(2) by auto
    ultimately show ?thesis
      by (intro exI [of _ "[Internal, Internal]"] exI [of _ t]) (auto intro: nfq_runs.more)
  next
    case In_callback
    then obtain ls u where u: "nfq_runs ?hs s ls u" "set ls \<subseteq> {Internal}" "place u = At_switch" "q_status u = NFQ_DEAD"
      using callback_to_switch [OF assms(1)] assms(2) by auto
    moreover obtain t where "nfq_runs ?hs u [Internal] t" "place t = Returned"
      using switch u(3,4) by blast
    ultimately show ?thesis
      by (intro exI [of _ "ls @ [Internal]"] exI [of _ t]) (auto intro: nfq_runs_append)
  next
    case Returned
    then show ?thesis by (intro exI [of _ "[]"] exI [of _ s]) (auto intro: nfq_runs.none)
  qed
qed

lemma recv_one:
  assumes "thread_inv (worker_handlers f) s" and "place s = In_recv"
    and "waiting s = p # rest" and "payload p \<noteq> None"
  shows "\<exists>ls t. nfq_runs (worker_handlers f) s ls t \<and> list_all thread_label ls \<and>
    place t = At_switch \<and> waiting t = rest \<and> q_status t = q_status s"
proof -
  let ?hs = "worker_handlers f"
  let ?u = "s\<lparr>place := In_callback, waiting := rest, stage := AtHandler 0 p,
      arrived := arrived s @ [packet_id p]\<rparr>"
  have r: "nfq_run ?hs s (Recv p) ?u" using assms(2-4) by (rule nfq_run.recv)
  obtain ls t where c: "nfq_runs ?hs ?u ls t" "set ls \<subseteq> {Internal}" "place t = At_switch"
    "waiting t = rest" "q_status t = q_status s"
    using callback_to_switch [OF thread_inv_step [OF r assms(1)]] by auto
  moreover have "list_all thread_label (Recv p # ls)"
    using c(2) by (auto simp: thread_label_def list_all_iff)
  ultimately show ?thesis using nfq_runs.more [OF r] by blast
qed

lemma drain_from_recv:
  assumes "thread_inv (worker_handlers f) s" and "place s = In_recv"
    and "q_status s = NFQ_RUNNING" and "list_all has_payload (waiting s)"
  shows "\<exists>ls t. nfq_runs (worker_handlers f) s ls t \<and> list_all thread_label ls \<and> waiting t = []"
  using assms
proof (induction "waiting s" arbitrary: s)
  case Nil
  then show ?case by (intro exI [of _ "[]"] exI [of _ s]) (auto intro: nfq_runs.none)
next
  case (Cons p rest)
  let ?hs = "worker_handlers f"
  have p: "payload p \<noteq> None" "list_all has_payload rest"
    using Cons.hyps(2) [symmetric] Cons.prems(4) by simp_all
  obtain ls t where c: "nfq_runs ?hs s ls t" "list_all thread_label ls" "place t = At_switch"
    "waiting t = rest" "q_status t = NFQ_RUNNING"
    using recv_one [OF Cons.prems(1,2) Cons.hyps(2) [symmetric] p(1)] Cons.prems(3) by auto
  have r: "nfq_run ?hs t Internal (t\<lparr>place := In_recv\<rparr>)" using c(3,5) by (rule nfq_run.running)
  have "thread_inv ?hs (t\<lparr>place := In_recv\<rparr>)"
    using thread_inv_step [OF r thread_inv_runs [OF c(1) Cons.prems(1)]] .
  then obtain ls' u where "nfq_runs ?hs (t\<lparr>place := In_recv\<rparr>) ls' u" "list_all thread_label ls'"
    "waiting u = []"
    using Cons.hyps(1) [of "t\<lparr>place := In_recv\<rparr>"] c(4,5) p(2) by auto
  moreover have "list_all thread_label (ls @ Internal # ls')"
    using c(2) calculation(2) by (simp add: thread_label_def)
  ultimately show ?case using nfq_runs_append [OF c(1) nfq_runs.more [OF r]] by blast
qed

lemma drain_from_switch:
  assumes "thread_inv (worker_handlers f) s" and "place s = At_switch"
    and "q_status s = NFQ_RUNNING" and "list_all has_payload (waiting s)"
  shows "\<exists>ls t. nfq_runs (worker_handlers f) s ls t \<and> list_all thread_label ls \<and> waiting t = []"
proof -
  let ?s = "s\<lparr>place := In_recv\<rparr>"
  have r: "nfq_run (worker_handlers f) s Internal ?s" using assms(2,3) by (rule nfq_run.running)
  obtain ls t where "nfq_runs (worker_handlers f) ?s ls t" "list_all thread_label ls" "waiting t = []"
    using drain_from_recv [OF thread_inv_step [OF r assms(1)]] assms(3,4) by auto
  then show ?thesis
    using nfq_runs.more [OF r] by (intro exI [of _ "Internal # ls"] exI [of _ t])
      (simp add: thread_label_def)
qed

lemma drain:
  assumes "thread_inv (worker_handlers f) s" and "place s \<noteq> Returned"
    and "q_status s = NFQ_RUNNING" and "list_all has_payload (waiting s)"
  shows "\<exists>ls t. nfq_runs (worker_handlers f) s ls t \<and> list_all thread_label ls \<and> waiting t = []"
proof (cases "place s")
  case In_callback
  then obtain ls t where c: "nfq_runs (worker_handlers f) s ls t" "set ls \<subseteq> {Internal}"
    "place t = At_switch" "waiting t = waiting s" "q_status t = NFQ_RUNNING"
    using callback_to_switch [OF assms(1)] assms(3) by metis
  obtain ls' u where "nfq_runs (worker_handlers f) t ls' u" "list_all thread_label ls'" "waiting u = []"
    using drain_from_switch [OF thread_inv_runs [OF c(1) assms(1)]] c assms(4) by auto
  moreover have "list_all thread_label ls" using c(2) by (auto simp: thread_label_def list_all_iff)
  ultimately show ?thesis
    using nfq_runs_append [OF c(1)] by (intro exI [of _ "ls @ ls'"] exI [of _ u]) auto
qed (use assms drain_from_recv drain_from_switch in auto)

lemma thread_label_enqueued: "list_all thread_label ls \<Longrightarrow> enqueued ls = []"
  by (induction ls rule: enqueued.induct) (auto simp: thread_label_def)

section \<open>Properties of the queue thread\<close>

text \<open>A queue neither loses, invents nor reorders packets, and verdicts answer
  packets it received: in every run of the thread, the kernel, and the scheduler from the
  start of the queue, the packets the kernel took in are, in order, those the thread
  received followed by those that still wait, of which there are never more than 4096;
  and the verdicts issued are for received packets, no packet twice.\<close>

lemma queue_fifo:
  assumes "nfq_runs (worker_handlers f) (nfq_started st raw) ls t"
  shows "enqueued ls = received ls @ waiting t \<and> length (waiting t) \<le> NFQ_QUEUE_SIZE \<and>
    mset (map verdict_id (issued t)) \<subseteq># mset (map packet_id (received ls))"
proof -
  have "worker_reach (worker_handlers f) (worker_part t)"
    using thread_inv_runs [OF assms thread_inv_started] by (simp add: thread_inv_def)
  from worker_chain.reach_inv [OF this]
  have "mset (map verdict_id (issued t)) \<subseteq># mset (arrived t)"
    by (auto simp: chain_inv_def intro: subset_mset.order_trans [rotated])
  moreover have "arrived t = map packet_id (received ls)" "enqueued ls = received ls @ waiting t"
    using runs_fifo [OF assms] by (simp_all add: nfq_started_def)
  moreover have "length (waiting t) \<le> NFQ_QUEUE_SIZE"
    using runs_capacity [OF assms] by (simp add: nfq_started_def)
  ultimately show ?thesis by simp
qed

lemma one_packet_run:
  "nfq_runs hs (nfq_started NFQ_RUNNING raw) [Enqueue (plain_packet 7), Internal, Recv (plain_packet 7)]
     ((nfq_started NFQ_RUNNING raw)\<lparr>place := In_callback, stage := AtHandler 0 (plain_packet 7),
        arrived := [7]\<rparr>)"
proof -
  let ?s = "nfq_started NFQ_RUNNING raw"
  have "nfq_run hs ?s (Enqueue (plain_packet 7)) (?s\<lparr>waiting := [plain_packet 7]\<rparr>)"
    using nfq_run.enqueue [of ?s hs "plain_packet 7"] by (simp add: nfq_started_def NFQ_QUEUE_SIZE_def)
  moreover have "nfq_run hs (?s\<lparr>waiting := [plain_packet 7]\<rparr>) Internal
      (?s\<lparr>waiting := [plain_packet 7], place := In_recv\<rparr>)"
    using nfq_run.running [of "?s\<lparr>waiting := [plain_packet 7]\<rparr>" hs] by (simp add: nfq_started_def)
  moreover have "nfq_run hs (?s\<lparr>waiting := [plain_packet 7], place := In_recv\<rparr>) (Recv (plain_packet 7))
      (?s\<lparr>place := In_callback, stage := AtHandler 0 (plain_packet 7), arrived := [7]\<rparr>)"
    using nfq_run.recv [of "?s\<lparr>waiting := [plain_packet 7], place := In_recv\<rparr>" "plain_packet 7" "[]" hs]
    by (simp add: nfq_started_def plain_packet_def)
  ultimately show ?thesis by (blast intro: nfq_runs.more nfq_runs.none)
qed

text \<open>\<open>nfq_teardown\<close> marks the queue as dead and does not wait for the thread, which may
  be in the callback of a packet then, with the worker that is freed next.\<close>

lemma teardown_race:
  "\<exists>ls s. nfq_runs hs (nfq_started NFQ_RUNNING raw) ls s \<and> q_status s = NFQ_DEAD \<and> place s = In_callback"
proof -
  obtain s where s: "nfq_runs hs (nfq_started NFQ_RUNNING raw) [Enqueue (plain_packet 7), Internal, Recv (plain_packet 7)] s"
    "place s = In_callback"
    using one_packet_run [of hs raw] by force
  moreover have "nfq_runs hs s [Control NFQ_DEAD] (s\<lparr>q_status := NFQ_DEAD\<rparr>)"
    by (blast intro: nfq_runs.more nfq_run.control nfq_runs.none)
  ultimately show ?thesis by (force dest: nfq_runs_append)
qed

text \<open>(C8) The radio gap of a handover: from a stop until the next start the thread takes
  at most one packet out of the queue, and none unless it was already waiting in
  \<open>recv\<close> at the stop; every other packet of that time stays in the queue, in order.\<close>

theorem queue_gap:
  assumes "nfq_runs (worker_handlers f) (s\<lparr>q_status := NFQ_STOPPED\<rparr>) gap t"
    and "Control NFQ_RUNNING \<notin> set gap"
  shows "length (received gap) \<le> (if place s = In_recv then 1 else 0) \<and>
    waiting s @ enqueued gap = received gap @ waiting t \<and>
    arrived t = arrived s @ map packet_id (received gap)"
  using gap_received [OF assms(1)] runs_fifo [OF assms(1)] assms(2) by simp

theorem queue_gap_witness:
  "length (received [Enqueue (plain_packet 7)]) = 0"
proof -
  let ?s = "nfq_started NFQ_RUNNING plain_ctx"
  have "nfq_runs (worker_handlers id) (?s\<lparr>q_status := NFQ_STOPPED\<rparr>) [Enqueue (plain_packet 7)]
      (?s\<lparr>q_status := NFQ_STOPPED, waiting := [plain_packet 7]\<rparr>)"
    using nfq_runs.more [OF nfq_run.enqueue nfq_runs.none, of "?s\<lparr>q_status := NFQ_STOPPED\<rparr>"
        "worker_handlers id" "plain_packet 7"]
    by (simp add: nfq_started_def NFQ_QUEUE_SIZE_def)
  from queue_gap [OF this] show ?thesis by (simp add: nfq_started_def)
qed



end
