(* ===== verification/Scheduler.thy ===== *)
theory Scheduler
  imports Action "HOL-Library.Sublist"
begin

text \<open>
  The event scheduler, \<open>src/src/scheduler.c\<close>: the table of events, the comparison
  that sorts it, and the loop that merges the sorted events with the periodic sampler of
  the receive-window controller.

  Waiting for the wall clock is not modelled: the loop calls one handler after the other,
  and a run is the list of these calls with their times and the way it ended. The loop
  need not end (a sample interval of 0 with an event still to come), so it is a partial
  function whose value \<open>None\<close> is not returning. A handler is a function pointer
  with its argument; the loop takes the call of it as an argument and
  \<open>scheduler_run\<close> passes the actions of \<open>src/src/action.c\<close>.
\<close>

section \<open>Events\<close>

record scheduler_event =
  time_ms :: "64 word"
  handler :: action
  idx :: int

record scheduler_ctx =
  events :: "scheduler_event list"

definition SCHEDULER_MAX_EVENT :: nat where
  "SCHEDULER_MAX_EVENT = 0xFFFF"

definition scheduler_init_ctx :: scheduler_ctx where
  "scheduler_init_ctx = \<lparr>events = []\<rparr>"

definition scheduler_add_event ::
  "scheduler_ctx \<Rightarrow> 64 word \<Rightarrow> action \<Rightarrow> int \<times> scheduler_ctx" where
  "scheduler_add_event ctx t h =
     (if length (events ctx) \<ge> SCHEDULER_MAX_EVENT then (- 1, ctx)
      else (0, ctx\<lparr>events := events ctx @
              [\<lparr>time_ms = t, handler = h, idx = int (length (events ctx))\<rparr>]\<rparr>))"

definition scheduler_compare_event :: "scheduler_event \<Rightarrow> scheduler_event \<Rightarrow> int" where
  "scheduler_compare_event a b =
     (if time_ms a > time_ms b then 1
      else if time_ms a < time_ms b then - 1
      else if idx a > idx b then 1
      else if idx a < idx b then - 1
      else 0)"

text \<open>The library's \<open>qsort\<close>, here by insertion; \<open>qsort_unique\<close> below shows that
  any sorting permutation is this one.\<close>

fun qinsert :: "('a \<Rightarrow> 'a \<Rightarrow> int) \<Rightarrow> 'a \<Rightarrow> 'a list \<Rightarrow> 'a list" where
  "qinsert cmp x [] = [x]"
| "qinsert cmp x (y # ys) = (if cmp x y \<le> 0 then x # y # ys else y # qinsert cmp x ys)"

definition qsort :: "('a \<Rightarrow> 'a \<Rightarrow> int) \<Rightarrow> 'a list \<Rightarrow> 'a list" where
  "qsort cmp xs = foldr (qinsert cmp) xs []"

section \<open>The loop\<close>

datatype call = Event scheduler_event | Sample "64 word"

type_synonym run = "call list \<times> action_ctx outcome"

definition next_fire :: "action_ctx \<Rightarrow> 64 word" where
  "next_fire a = fire (tcp_sched a) + word_of_int (sample_interval (tcp_sched a))"

definition advance_fire :: "action_ctx \<Rightarrow> action_ctx" where
  "advance_fire a = a\<lparr>tcp_sched := (tcp_sched a)\<lparr>fire := next_fire a\<rparr>\<rparr>"

partial_function (option) scheduler_loop ::
  "(action \<Rightarrow> action_ctx \<Rightarrow> action_ctx outcome) \<Rightarrow> (action_ctx \<Rightarrow> action_ctx outcome) \<Rightarrow>
   scheduler_event list \<Rightarrow> action_ctx \<Rightarrow> run option" where
  "scheduler_loop exec tick evs a =
     (case evs of
        [] \<Rightarrow> Some ([], Next a)
      | e # rest \<Rightarrow>
          if time_ms e < next_fire a
          then case exec (handler e) a of
                 Next b \<Rightarrow> do { (l, r) \<leftarrow> scheduler_loop exec tick rest b; Some (Event e # l, r) }
               | Exited \<Rightarrow> Some ([Event e], Exited)
               | Undef \<Rightarrow> Some ([Event e], Undef)
          else case tick (advance_fire a) of
                 Next b \<Rightarrow> do { (l, r) \<leftarrow> scheduler_loop exec tick evs b;
                               Some (Sample (next_fire a) # l, r) }
               | Exited \<Rightarrow> Some ([Sample (next_fire a)], Exited)
               | Undef \<Rightarrow> Some ([Sample (next_fire a)], Undef))"

definition scheduler_run :: "environment \<Rightarrow> scheduler_ctx \<Rightarrow> action_ctx \<Rightarrow> run option" where
  "scheduler_run env ctx a =
     (if events ctx = [] then Some ([], Next a)
      else scheduler_loop (perform env) tcp_schedule (qsort scheduler_compare_event (events ctx)) a)"

fun executed :: "call list \<Rightarrow> scheduler_event list" where
  "executed [] = []"
| "executed (Event e # l) = e # executed l"
| "executed (Sample t # l) = executed l"

section \<open>Sorting\<close>

locale comparison =
  fixes cmp :: "'a \<Rightarrow> 'a \<Rightarrow> int"
  assumes total: "cmp x y \<le> 0 \<or> cmp y x \<le> 0"
    and trans: "cmp x y \<le> 0 \<Longrightarrow> cmp y z \<le> 0 \<Longrightarrow> cmp x z \<le> 0"
begin

lemma qinsert_mset: "mset (qinsert cmp x ys) = add_mset x (mset ys)"
  by (induction ys) auto

lemma qsort_mset: "mset (qsort cmp xs) = mset xs"
  by (induction xs) (auto simp: qsort_def qinsert_mset)

lemma qinsert_sorted:
  "sorted_wrt (\<lambda>x y. cmp x y \<le> 0) ys \<Longrightarrow> sorted_wrt (\<lambda>x y. cmp x y \<le> 0) (qinsert cmp x ys)"
proof (induction ys)
  case (Cons y ys)
  have "set (qinsert cmp x ys) = insert x (set ys)"
    using qinsert_mset [of x ys] by (metis set_mset_add_mset_insert set_mset_mset)
  with Cons show ?case using total trans by auto
qed simp

lemma qsort_sorted: "sorted_wrt (\<lambda>x y. cmp x y \<le> 0) (qsort cmp xs)"
  by (induction xs) (auto simp: qsort_def qinsert_sorted)

lemma sorted_unique:
  assumes "sorted_wrt (\<lambda>x y. cmp x y \<le> 0) xs" and "sorted_wrt (\<lambda>x y. cmp x y \<le> 0) ys"
    and "mset xs = mset ys"
    and "\<And>x y. x \<in> set xs \<Longrightarrow> y \<in> set xs \<Longrightarrow> cmp x y \<le> 0 \<Longrightarrow> cmp y x \<le> 0 \<Longrightarrow> x = y"
  shows "xs = ys"
  using assms
proof (induction xs arbitrary: ys)
  case Nil
  then show ?case by simp
next
  case (Cons x xs)
  then obtain y zs where ys: "ys = y # zs" by (cases ys) auto
  have set: "set (x # xs) = set (y # zs)" using Cons.prems(3) ys by (metis mset_eq_setD)
  have "cmp x y \<le> 0" "cmp y x \<le> 0"
    using Cons.prems(1,2) set ys total [of x x] total [of y y] by (auto simp: set_eq_iff)
  then have "x = y" using Cons.prems(4) set by (metis list.set_intros(1))
  moreover have "xs = zs"
    using Cons.prems ys \<open>x = y\<close> by (intro Cons.IH) auto
  ultimately show ?case using ys by simp
qed

end

interpretation event_order: comparison scheduler_compare_event
  by unfold_locales (auto simp: scheduler_compare_event_def split: if_splits)

text \<open>The index breaks ties, so the order is that of a stable sort by time, and no
  other permutation is sorted.\<close>

abbreviation indexed :: "scheduler_event list \<Rightarrow> bool" where
  "indexed \<equiv> sorted_wrt (\<lambda>x y. idx x < idx y)"

lemma qinsert_insort:
  "(\<And>y. y \<in> set ys \<Longrightarrow> idx x < idx y) \<Longrightarrow>
     qinsert scheduler_compare_event x ys = insort_key time_ms x ys"
proof (induction ys)
  case (Cons y ys)
  have "idx x < idx y" by (simp add: Cons.prems)
  then have "scheduler_compare_event x y \<le> 0 \<longleftrightarrow> time_ms x \<le> time_ms y"
    by (auto simp: scheduler_compare_event_def)
  with Cons show ?case by simp
qed simp

lemma qsort_stable:
  "indexed xs \<Longrightarrow> qsort scheduler_compare_event xs = sort_key time_ms xs"
proof (induction xs)
  case (Cons x xs)
  then have "qinsert scheduler_compare_event x (sort_key time_ms xs) =
      insort_key time_ms x (sort_key time_ms xs)"
    by (intro qinsert_insort) auto
  with Cons show ?case by (simp add: qsort_def)
qed (simp add: qsort_def)

lemma indexed_inj:
  "indexed xs \<Longrightarrow> x \<in> set xs \<Longrightarrow> y \<in> set xs \<Longrightarrow> idx x = idx y \<Longrightarrow> x = y"
  by (induction xs) auto

lemma qsort_unique:
  assumes "indexed xs" and "mset ys = mset xs"
    and "sorted_wrt (\<lambda>x y. scheduler_compare_event x y \<le> 0) ys"
  shows "ys = qsort scheduler_compare_event xs"
proof (rule event_order.sorted_unique [OF assms(3) event_order.qsort_sorted])
  show "mset ys = mset (qsort scheduler_compare_event xs)"
    by (simp add: event_order.qsort_mset assms(2))
  fix x y
  assume "x \<in> set ys" "y \<in> set ys" "scheduler_compare_event x y \<le> 0"
    "scheduler_compare_event y x \<le> 0"
  then show "x = y"
    using indexed_inj [OF assms(1), of x y] assms(2)
    by (auto simp: scheduler_compare_event_def dest: mset_eq_setD split: if_splits)
qed

lemma map_insort_key: "map g (insort_key (\<lambda>x. f (g x)) x xs) = insort_key f (g x) (map g xs)"
  by (induction xs) auto

lemma map_sort_key: "map g (sort_key (\<lambda>x. f (g x)) xs) = sort_key f (map g xs)"
  by (induction xs) (simp_all add: map_insort_key)

section \<open>Filling the table\<close>

fun scheduler_add_all :: "scheduler_ctx \<Rightarrow> (64 word \<times> action) list \<Rightarrow> scheduler_ctx" where
  "scheduler_add_all ctx [] = ctx"
| "scheduler_add_all ctx ((t, h) # rs) = scheduler_add_all (snd (scheduler_add_event ctx t h)) rs"

definition request :: "scheduler_event \<Rightarrow> 64 word \<times> action" where
  "request e = (time_ms e, handler e)"

definition table_ok :: "scheduler_ctx \<Rightarrow> bool" where
  "table_ok ctx \<longleftrightarrow> length (events ctx) \<le> SCHEDULER_MAX_EVENT \<and>
     map idx (events ctx) = map int [0..<length (events ctx)]"

lemma table_ok_init: "table_ok scheduler_init_ctx"
  by (simp add: table_ok_def scheduler_init_ctx_def)

lemma table_ok_add: "table_ok ctx \<Longrightarrow> table_ok (snd (scheduler_add_event ctx t h))"
  by (auto simp: table_ok_def scheduler_add_event_def)

lemma table_ok_add_all: "table_ok ctx \<Longrightarrow> table_ok (scheduler_add_all ctx rs)"
  by (induction ctx rs rule: scheduler_add_all.induct) (auto intro: table_ok_add)

lemma table_ok_indexed:
  assumes "table_ok ctx"
  shows "indexed (events ctx)"
proof -
  have "sorted_wrt (<) (map idx (events ctx))"
    using assms by (simp add: table_ok_def sorted_wrt_map)
  then show ?thesis by (simp add: sorted_wrt_map)
qed

lemma requests_add_all:
  "map request (events (scheduler_add_all ctx rs)) =
     map request (events ctx) @ take (SCHEDULER_MAX_EVENT - length (events ctx)) rs"
proof (induction ctx rs rule: scheduler_add_all.induct)
  case (2 ctx t h rs)
  show ?case
  proof (cases "length (events ctx) \<ge> SCHEDULER_MAX_EVENT")
    case True
    with 2 show ?thesis by (simp add: scheduler_add_event_def)
  next
    case False
    then have "SCHEDULER_MAX_EVENT - length (events ctx) =
        Suc (SCHEDULER_MAX_EVENT - Suc (length (events ctx)))" by simp
    with 2 False show ?thesis by (simp add: scheduler_add_event_def request_def)
  qed
qed simp

lemma sorted_requests:
  "map request (qsort scheduler_compare_event (events (scheduler_add_all scheduler_init_ctx rs))) =
     sort_key fst (take SCHEDULER_MAX_EVENT rs)"
proof -
  let ?ctx = "scheduler_add_all scheduler_init_ctx rs"
  have "qsort scheduler_compare_event (events ?ctx) = sort_key (\<lambda>e. fst (request e)) (events ?ctx)"
    using qsort_stable [OF table_ok_indexed [OF table_ok_add_all [OF table_ok_init]]]
    by (simp add: request_def)
  then show ?thesis
    using requests_add_all [of scheduler_init_ctx rs]
    by (simp only: map_sort_key) (simp add: scheduler_init_ctx_def)
qed

section \<open>Runs\<close>

lemma loop_Nil: "scheduler_loop exec tick [] a = Some ([], Next a)"
  by (subst scheduler_loop.simps) simp

lemma loop_event:
  "time_ms e < next_fire a \<Longrightarrow> exec (handler e) a = Next b \<Longrightarrow>
     scheduler_loop exec tick (e # rest) a =
       do { (l, r) \<leftarrow> scheduler_loop exec tick rest b; Some (Event e # l, r) }"
  by (subst scheduler_loop.simps) simp

lemma loop_sample:
  "\<not> time_ms e < next_fire a \<Longrightarrow> tick (advance_fire a) = Next b \<Longrightarrow>
     scheduler_loop exec tick (e # rest) a =
       do { (l, r) \<leftarrow> scheduler_loop exec tick (e # rest) b; Some (Sample (next_fire a) # l, r) }"
  by (subst scheduler_loop.simps) simp

lemma loop_executed:
  assumes "scheduler_loop exec tick evs a = Some lr"
  shows "prefix (executed (fst lr)) evs \<and> ((\<exists>b. snd lr = Next b) \<longrightarrow> executed (fst lr) = evs)"
proof (rule scheduler_loop.raw_induct [where P = "\<lambda>exec tick evs a lr.
      prefix (executed (fst lr)) evs \<and> ((\<exists>b. snd lr = Next b) \<longrightarrow> executed (fst lr) = evs)",
      OF _ assms], goal_cases)
  case (1 loop exec tick evs a lr)
  note IH = 1(1) and body = 1(2)
  show ?case
  proof (cases evs)
    case Nil
    with body show ?thesis by auto
  next
    case (Cons e rest)
    show ?thesis
    proof (cases "time_ms e < next_fire a")
      case True
      with body Cons show ?thesis
        by (cases "exec (handler e) a") (auto simp: bind_eq_Some_conv dest: IH)
    next
      case False
      with body Cons show ?thesis
        by (cases "tick (advance_fire a)") (auto simp: bind_eq_Some_conv dest: IH)
    qed
  qed
qed

section \<open>The contract between the loop and the handlers\<close>

text \<open>The controller is unarmed, and then a sample ends the program, or it is armed
  with positive intervals and a time that leaves room for the additions.\<close>

definition armed_ok :: "tcp_ctx \<Rightarrow> bool" where
  "armed_ok t \<longleftrightarrow> (tcp_mark t = 1 \<or> tcp_mark t = 2) \<and>
     0 < sample_interval t \<and> sample_interval t \<le> INT_MAX \<and>
     0 < burst_sample_interval t \<and> burst_sample_interval t \<le> INT_MAX \<and>
     0 < rtt (hist_param t ! 1) \<and> rtt (hist_param t ! 1) \<le> INT_MAX \<and>
     0 < rtt (hist_param t ! 2) \<and> rtt (hist_param t ! 2) \<le> INT_MAX \<and>
     uint (fire t) < 2 ^ 63"

definition tick_inv :: "action_ctx \<Rightarrow> bool" where
  "tick_inv a \<longleftrightarrow> length (hist_param (tcp_sched a)) = 3 \<and>
     (wkctx (tcp_sched a) = None \<or> armed_ok (tcp_sched a))"

text \<open>What a trace must respect: links are numbered 1 and 2, intervals and round-trip
  times are positive, sampling does not start before time 0.\<close>

fun action_ok :: "action \<Rightarrow> bool" where
  "action_ok (Action_sol_update q m) \<longleftrightarrow> m = 1 \<or> m = 2"
| "action_ok (Action_init_tcp_sched q args) \<longleftrightarrow> (arg_mark args = 1 \<or> arg_mark args = 2) \<and>
     0 < arg_sample_interval args \<and> arg_sample_interval args \<le> INT_MAX \<and>
     0 < rtt (init_param args ! 1) \<and> rtt (init_param args ! 1) \<le> INT_MAX \<and>
     0 < rtt (init_param args ! 2) \<and> rtt (init_param args ! 2) \<le> INT_MAX \<and>
     0 \<le> arg_fire args \<and> arg_fire args \<le> INT_MAX"
| "action_ok _ \<longleftrightarrow> True"

locale handlers =
  fixes exec :: "action \<Rightarrow> action_ctx \<Rightarrow> action_ctx outcome"
    and tick :: "action_ctx \<Rightarrow> action_ctx outcome"
  assumes exec_inv: "tick_inv a \<Longrightarrow> action_ok h \<Longrightarrow> exec h a = Next b \<Longrightarrow> tick_inv b"
    and tick_frame: "tick a = Next b \<Longrightarrow> tcp_sched b = tcp_sched a"
    and tick_unarmed: "wkctx (tcp_sched a) = None \<Longrightarrow> tick a = Undef"
begin

lemma next_fire_armed:
  assumes "armed_ok (tcp_sched a)"
  shows "uint (next_fire a) = uint (fire (tcp_sched a)) + sample_interval (tcp_sched a)"
proof -
  let ?f = "uint (fire (tcp_sched a))" and ?i = "sample_interval (tcp_sched a)"
  have "0 \<le> ?f + ?i" "?f + ?i < 2 ^ 64"
    using assms by (simp_all add: armed_ok_def INT_MAX_def)
  then show ?thesis
    by (simp add: next_fire_def uint_word_ariths uint_word_of_int mod_add_right_eq)
qed

lemma event_reached:
  assumes "tick_inv a" and "uint (time_ms e) < 2 ^ 63"
    and rest: "\<And>b. tick_inv b \<Longrightarrow> \<exists>lr. scheduler_loop exec tick rest b = Some lr"
    and "action_ok (handler e)"
  shows "\<exists>lr. scheduler_loop exec tick (e # rest) a = Some lr"
  using assms(1)
proof (induction "nat (uint (time_ms e) - uint (fire (tcp_sched a)))" arbitrary: a
    rule: less_induct)
  case less
  show ?case
  proof (cases "time_ms e < next_fire a")
    case True
    show ?thesis
    proof (cases "exec (handler e) a")
      case (Next b)
      then obtain lr where "scheduler_loop exec tick rest b = Some lr"
        using rest exec_inv [OF less.prems assms(4)] by blast
      with True Next show ?thesis by (subst scheduler_loop.simps) (cases lr, simp)
    qed (use True in \<open>subst scheduler_loop.simps, simp\<close>)+
  next
    case False
    show ?thesis
    proof (cases "tick (advance_fire a)")
      case (Next b)
      then have t: "tcp_sched b = (tcp_sched a)\<lparr>fire := next_fire a\<rparr>"
        using tick_frame by (simp add: advance_fire_def)
      have "wkctx (tcp_sched a) \<noteq> None"
        using Next tick_unarmed [of "advance_fire a"] by (auto simp: advance_fire_def)
      then have ok: "armed_ok (tcp_sched a)" using less.prems by (auto simp: tick_inv_def)
      have le: "uint (next_fire a) \<le> uint (time_ms e)"
        using False by (simp add: not_less word_le_def)
      have inv: "tick_inv b"
        using less.prems ok le assms(2) by (simp add: tick_inv_def t armed_ok_def)
      have "0 < sample_interval (tcp_sched a)" using ok by (simp add: armed_ok_def)
      then have "nat (uint (time_ms e) - uint (fire (tcp_sched b)))
          < nat (uint (time_ms e) - uint (fire (tcp_sched a)))"
        using next_fire_armed [OF ok] le by (simp add: t)
      then obtain lr where "scheduler_loop exec tick (e # rest) b = Some lr"
        using less.hyps inv by blast
      with False Next show ?thesis by (subst scheduler_loop.simps) (cases lr, simp)
    qed (use False in \<open>subst scheduler_loop.simps, simp\<close>)+
  qed
qed

text \<open>With an interval of 0 an event that is not before the next sample is never reached.\<close>

lemma zero_interval_starves:
  assumes "scheduler_loop exec tick evs a = Some lr"
  shows "sample_interval (tcp_sched a) = 0 \<Longrightarrow> evs = e # rest \<Longrightarrow>
    \<not> time_ms e < fire (tcp_sched a) \<Longrightarrow> executed (fst lr) = [] \<and> (\<forall>b. snd lr \<noteq> Next b)"
proof -
  let ?P = "\<lambda>x t evs a lr. t = tick \<longrightarrow> sample_interval (tcp_sched a) = 0 \<longrightarrow> evs = e # rest \<longrightarrow>
    \<not> time_ms e < fire (tcp_sched a) \<longrightarrow> executed (fst lr) = [] \<and> (\<forall>b. snd lr \<noteq> Next b)"
  have "?P exec tick evs a lr"
  proof (rule scheduler_loop.raw_induct [where P = ?P, OF _ assms], goal_cases)
    case (1 loop x t evs a lr)
    note IH = 1(1) and body = 1(2)
    show ?case
    proof (intro impI)
      assume h: "t = tick" "sample_interval (tcp_sched a) = 0" "evs = e # rest"
        "\<not> time_ms e < fire (tcp_sched a)"
      then have nf: "next_fire a = fire (tcp_sched a)" by (simp add: next_fire_def)
      show "executed (fst lr) = [] \<and> (\<forall>b. snd lr \<noteq> Next b)"
      proof (cases "tick (advance_fire a)")
        case (Next b)
        then have "tcp_sched b = tcp_sched a"
          using tick_frame by (simp add: advance_fire_def nf)
        with body h nf Next IH [of x tick evs b] show ?thesis
          by (auto simp: bind_eq_Some_conv)
      qed (use body h nf in auto)
    qed
  qed
  then show "sample_interval (tcp_sched a) = 0 \<Longrightarrow> evs = e # rest \<Longrightarrow>
    \<not> time_ms e < fire (tcp_sched a) \<Longrightarrow> executed (fst lr) = [] \<and> (\<forall>b. snd lr \<noteq> Next b)"
    by simp
qed

lemma loop_returns:
  assumes "tick_inv a" and "list_all (\<lambda>e. uint (time_ms e) < 2 ^ 63 \<and> action_ok (handler e)) evs"
  shows "\<exists>lr. scheduler_loop exec tick evs a = Some lr"
  using assms
proof (induction evs arbitrary: a)
  case Nil
  then show ?case by (subst scheduler_loop.simps) simp
next
  case (Cons e evs)
  then show ?case by (intro event_reached) auto
qed

end

lemma set_hist_rw_armed:
  assumes "set_hist_rw m rw t = Next t'" and "length (hist_param t) = 3"
  shows "length (hist_param t') = 3 \<and> wkctx t' = wkctx t \<and> (armed_ok t \<longrightarrow> armed_ok t')"
  using assms
  by (auto simp: set_hist_rw_def continue_eq_Next param_at_eq_Next armed_ok_def nth_list_update)

lemma remember_window_armed:
  assumes "remember_window w m t = Next t'" and "m = 1 \<or> m = 2" and "length (hist_param t) = 3"
  shows "length (hist_param t') = 3 \<and> wkctx t' = wkctx t \<and> (armed_ok t \<longrightarrow> armed_ok t')"
proof -
  have m: "sint m = 1 \<or> sint m = 2" using assms(2) by auto
  show ?thesis
  proof (cases "tune_rwnd w = 0")
    case True
    with assms show ?thesis by (simp add: remember_window_def)
  next
    case False
    with assms obtain t1 where "set_hist_rw (tcp_mark t) (uint (tune_rwnd w)) t = Next t1"
      and "t' = t1\<lparr>tcp_mark := sint m\<rparr>"
      by (auto simp: remember_window_def continue_eq_Next)
    with set_hist_rw_armed [of "tcp_mark t" _ t t1] m assms(3) show ?thesis
      by (auto simp: armed_ok_def)
  qed
qed

lemma sol_update_inv:
  assumes "tick_inv a" and "m = 1 \<or> m = 2" and "action_sol_update q m a = Next b"
  shows "tick_inv b"
proof -
  from assms(3) obtain w t where "remember_window w m (tcp_sched a) = Next t" "tcp_sched b = t"
    by (auto simp: action_sol_update_def continue_eq_Next store_worker_def split: prod.splits)
  with remember_window_armed [of w m "tcp_sched a" t] assms(1,2) show ?thesis
    by (auto simp: tick_inv_def)
qed

lemma set_burst_inv:
  assumes "tick_inv a" and "action_set_burst q e a = Next b"
  shows "tick_inv b"
  using assms
  by (auto simp: action_set_burst_def tick_inv_def continue_eq_Next store_worker_def Let_def
      dest!: set_hist_rw_armed split: prod.splits if_splits)
    (auto simp: armed_ok_def)

lemma set_adapt_inv:
  assumes "tick_inv a" and "action_set_adapt q e a = Next b"
  shows "tick_inv b"
  using assms
  by (auto simp: action_set_adapt_def tick_inv_def continue_eq_Next store_worker_def Let_def
      param_at_eq_Next armed_ok_def split: prod.splits if_splits)

lemma init_tcp_sched_inv:
  assumes "tick_inv a" and "action_ok (Action_init_tcp_sched q args)"
    and "action_init_tcp_sched q args a = Next b"
  shows "tick_inv b"
proof -
  have "tcp_sched b = (tcp_sched a)\<lparr>wkctx := workers a (unat q), fire := word_of_int (arg_fire args),
      burst_sample_interval := arg_sample_interval args, threshold := arg_threshold args,
      pace := arg_pace args, tcp_mark := arg_mark args,
      sample_interval := rtt (init_param args ! nat (arg_mark args)),
      enable_rw := arg_enable args,
      hist_param := copy_params (init_param args) (hist_param (tcp_sched a))\<rparr>"
    using assms(3)
    by (auto simp: action_init_tcp_sched_def continue_eq_Next Let_def update_worker_tcp
        dest!: update_worker_tcp split: if_splits)
  with assms(1,2) show ?thesis
    by (auto simp: tick_inv_def armed_ok_def copy_params_def INT_MAX_def uint_word_of_int)
qed

lemma perform_inv:
  assumes "tick_inv a" and "action_ok h" and "perform env h a = Next b"
  shows "tick_inv b"
proof (cases h)
  case (Action_sol_update q m)
  with assms show ?thesis using sol_update_inv by simp
next
  case (Action_set_burst q e)
  with assms show ?thesis using set_burst_inv by simp
next
  case (Action_set_adapt q e)
  with assms show ?thesis using set_adapt_inv by simp
next
  case (Action_init_tcp_sched q args)
  with assms show ?thesis using init_tcp_sched_inv by simp
qed (use assms in \<open>auto simp: tick_inv_def action_init_nfqueue_def action_start_nfqueue_def
      action_stop_nfqueue_def action_teardown_nfqueue_def action_command_def worker_actions
      continue_eq_Next nfq_teardown_cases Let_def
      dest!: update_worker_tcp set_queue_tcp split: if_splits prod.splits\<close>)

interpretation emulator: handlers "perform env" tcp_schedule for env
proof
  show "\<And>a h b. tick_inv a \<Longrightarrow> action_ok h \<Longrightarrow> perform env h a = Next b \<Longrightarrow> tick_inv b"
    by (rule perform_inv)
  show "\<And>a b. tcp_schedule a = Next b \<Longrightarrow> tcp_sched b = tcp_sched a"
    by (auto simp: tcp_schedule_def continue_eq_Next store_worker_def split: prod.splits)
  show "\<And>a. wkctx (tcp_sched a) = None \<Longrightarrow> tcp_schedule a = Undef"
    by (simp add: tcp_schedule_def deref_def)
qed

text \<open>A round-trip time of 0 in a trace leads there: the sampler fires for ever at the same
  time, and the events from then on are never executed.\<close>

lemma sampler_starves:
  assumes "scheduler_loop (perform env) tcp_schedule (e # rest) a = Some lr"
    and "sample_interval (tcp_sched a) = 0" and "\<not> time_ms e < fire (tcp_sched a)"
  shows "executed (fst lr) = []"
  using emulator.zero_interval_starves [OF assms(1) assms(2) refl assms(3)] by blast

section \<open>Properties of the scheduler\<close>

lemma run_order:
  assumes "scheduler_run env (scheduler_add_all scheduler_init_ctx rs) a = Some (l, r)"
  shows "prefix (map request (executed l)) (sort_key fst (take SCHEDULER_MAX_EVENT rs))"
    and "r = Next b \<Longrightarrow> map request (executed l) = sort_key fst (take SCHEDULER_MAX_EVENT rs)"
proof -
  let ?evs = "events (scheduler_add_all scheduler_init_ctx rs)"
  have run: "prefix (executed l) (qsort scheduler_compare_event ?evs) \<and>
      ((\<exists>b. r = Next b) \<longrightarrow> executed l = qsort scheduler_compare_event ?evs)"
  proof (cases "?evs = []")
    case True
    with assms show ?thesis by (auto simp: scheduler_run_def qsort_def)
  next
    case False
    with assms loop_executed show ?thesis by (fastforce simp: scheduler_run_def)
  qed
  from run show "prefix (map request (executed l)) (sort_key fst (take SCHEDULER_MAX_EVENT rs))"
    by (metis map_mono_prefix sorted_requests)
  from run show "r = Next b \<Longrightarrow>
      map request (executed l) = sort_key fst (take SCHEDULER_MAX_EVENT rs)"
    by (metis sorted_requests)
qed

lemma run_returns:
  assumes "list_all (\<lambda>(t, h). uint t < 2 ^ 63 \<and> action_ok h) rs"
    and "length (hist_param raw) = 3"
  shows "\<exists>l r. scheduler_run env (scheduler_add_all scheduler_init_ctx rs)
    (action_init_ctx (init_tcp_scheduler raw)) = Some (l, r)"
proof -
  let ?evs = "events (scheduler_add_all scheduler_init_ctx rs)"
  let ?sorted = "qsort scheduler_compare_event ?evs"
  have "list_all (\<lambda>(t, h). uint t < 2 ^ 63 \<and> action_ok h) (map request ?sorted)"
    using assms(1) by (auto simp: sorted_requests list_all_iff dest: in_set_takeD)
  then have "list_all (\<lambda>e. uint (time_ms e) < 2 ^ 63 \<and> action_ok (handler e)) ?sorted"
    by (simp add: list_all_iff request_def)
  moreover have "tick_inv (action_init_ctx (init_tcp_scheduler raw))"
    using assms(2) by (simp add: tick_inv_def action_init_ctx_def init_tcp_scheduler_def)
  ultimately show ?thesis
    using emulator.loop_returns by (fastforce simp: scheduler_run_def)
qed

text \<open>(C2) The scheduler runs events in the order of a stable sort by time: of the events
  added to an empty table (those beyond its capacity of 65535 are refused), a run
  executes a prefix of them ordered by time, ties in the order of insertion, and all of
  them when it ends normally. The periodic samples in between change nothing of this.\<close>

theorem scheduler_run_order:
  assumes "scheduler_run env (scheduler_add_all scheduler_init_ctx rs) a = Some (l, r)"
  shows "prefix (map request (executed l)) (sort_key fst (take SCHEDULER_MAX_EVENT rs)) \<and>
    ((\<exists>b. r = Next b) \<longrightarrow>
      map request (executed l) = sort_key fst (take SCHEDULER_MAX_EVENT rs))"
  using run_order [OF assms] by blast

definition idle_tcp :: tcp_ctx where
  "idle_tcp = \<lparr>fire = 0, wkctx = None, tcp_mark = 0, sample_interval = 0,
     burst_sample_interval = 0, threshold = 0, pace = 0, enable_rw = 0,
     hist_param = replicate 3 \<lparr>link_mark = 0, hist_rw = 0, rtt = 0\<rparr>\<rparr>"

definition start_ctx :: action_ctx where
  "start_ctx = action_init_ctx (init_tcp_scheduler idle_tcp)"

definition open_env :: environment where
  "open_env = \<lparr>fresh_worker = plain_ctx,
     fresh_queue = \<lparr>queue_num = 0, nfq_h = None, nfq_qh = None, nfq_fd = 0, status = NFQ_STOPPED\<rparr>,
     nfq_results = (\<lambda>_. \<lparr>opened = Some 0, rcvbuf = 6553600, created = Some 1, set_mode = 0, set_maxlen = 0,
       got_fd = 3, thread_create = 0, destroyed = 0, closed = 0\<rparr>)\<rparr>"

definition sample_requests :: "(64 word \<times> action) list" where
  "sample_requests =
     [(9, Action_command ''b''), (3, Action_command ''a''), (9, Action_command ''c'')]"

lemma sample_run:
  "\<exists>l b. scheduler_run open_env (scheduler_add_all scheduler_init_ctx sample_requests) start_ctx =
     Some (l, Next b)"
  by (simp add: scheduler_run_def sample_requests_def scheduler_add_event_def scheduler_init_ctx_def
      SCHEDULER_MAX_EVENT_def qsort_def scheduler_compare_event_def loop_event loop_Nil
      next_fire_def start_ctx_def action_init_ctx_def init_tcp_scheduler_def action_command_def)

theorem scheduler_run_order_witness:
  "\<exists>l b. scheduler_run open_env (scheduler_add_all scheduler_init_ctx sample_requests) start_ctx =
       Some (l, Next b) \<and>
     map request (executed l) =
       [(3, Action_command ''a''), (9, Action_command ''b''), (9, Action_command ''c'')]"
proof -
  obtain l b where run:
    "scheduler_run open_env (scheduler_add_all scheduler_init_ctx sample_requests) start_ctx =
       Some (l, Next b)"
    using sample_run by blast
  with scheduler_run_order [OF run] show ?thesis
    by (auto simp: sample_requests_def SCHEDULER_MAX_EVENT_def)
qed


definition sample_args :: sched_args where
  "sample_args = \<lparr>arg_enable = 1, arg_sample_interval = 30, arg_threshold = fl32 (9 / 10),
     arg_pace = fl32 (2 / 100), arg_fire = 0, arg_mark = 1,
     init_param = [\<lparr>link_mark = 0, hist_rw = 0, rtt = 0\<rparr>,
       \<lparr>link_mark = 1, hist_rw = 2000, rtt = 82\<rparr>, \<lparr>link_mark = 2, hist_rw = 4000, rtt = 46\<rparr>]\<rparr>"


end
