(* ===== verification/Event.thy ===== *)
theory Event
  imports Scheduler Trace_Tools
begin

text \<open>
  Reading a replay trace: \<open>src/src/event.c\<close>, which turns a line into scheduler
  events, and the loop of \<open>src/src/emulator.c\<close> that feeds it the lines of a file.

  The C library functions used are modelled: \<open>strtok\<close> with the delimiter
  \<open>","\<close> (runs of commas separate like one), \<open>strtol\<close> with base 0 (decimal,
  octal and hexadecimal, saturating, reading the longest prefix), \<open>fgets\<close> into a
  buffer of 512 bytes. A missing field is a null pointer that \<open>strtol\<close> or
  \<open>strcmp\<close> dereferences: \<open>None\<close>.
\<close>

section \<open>The C library\<close>

definition is_c_space :: "char \<Rightarrow> bool" where
  "is_c_space c \<longleftrightarrow> c = CHR '' '' \<or> (9 \<le> code_pt c \<and> code_pt c \<le> 13)"

definition c_digit :: "char \<Rightarrow> nat" where
  "c_digit c =
     (if is_dec c then code_pt c - 48
      else if 97 \<le> code_pt c \<and> code_pt c \<le> 122 then code_pt c - 87
      else if 65 \<le> code_pt c \<and> code_pt c \<le> 90 then code_pt c - 55
      else 36)"

definition LONG_MIN :: int where "LONG_MIN = - (2 ^ 63)"
definition LONG_MAX :: int where "LONG_MAX = 2 ^ 63 - 1"

definition number_in_base :: "nat \<Rightarrow> string \<Rightarrow> int" where
  "number_in_base b s =
     foldl (\<lambda>n c. n * int b + int (c_digit c)) 0 (takeWhile (\<lambda>c. c_digit c < b) s)"

definition strtol_base :: "string \<Rightarrow> nat \<times> string" where
  "strtol_base s =
     (case s of
        z # x # d # t \<Rightarrow>
          if z = CHR ''0'' \<and> (x = CHR ''x'' \<or> x = CHR ''X'') \<and> c_digit d < 16 then (16, d # t)
          else if z = CHR ''0'' then (8, s) else (10, s)
      | z # t \<Rightarrow> if z = CHR ''0'' then (8, s) else (10, s)
      | [] \<Rightarrow> (10, s))"

definition strtol0 :: "string \<Rightarrow> int" where
  "strtol0 s =
     (let (neg, s) = split_sign (dropWhile is_c_space s);
          (b, ds) = strtol_base s;
          n = number_in_base b ds
      in max LONG_MIN (min LONG_MAX (if neg then - n else n)))"

definition strtok_all :: "string \<Rightarrow> string list" where
  "strtok_all s = filter (\<lambda>t. t \<noteq> []) (split_on comma s)"

text \<open>\<open>strtok\<close> and \<open>strtol\<close> of the next field; as a \<open>long\<close>, and stored in
  an \<open>int\<close>.\<close>

fun next_long :: "string list \<Rightarrow> (int \<times> string list) option" where
  "next_long [] = None"
| "next_long (tok # toks) = Some (strtol0 tok, toks)"

definition next_int :: "string list \<Rightarrow> (int \<times> string list) option" where
  "next_int toks = map_option (\<lambda>(n, rest). (to_int32 n, rest)) (next_long toks)"

section \<open>Events of a trace line\<close>

datatype event_type = INIT | CMD | HO | SOL_HANDLEDUP | SOL_HANDLERW | SOL_INIT_SCHED | SOL_HO | UNKNOWN

definition get_event_type :: "string \<Rightarrow> event_type" where
  "get_event_type s =
     (if s = ''INIT'' then INIT
      else if s = ''CMD'' then CMD
      else if s = ''HO'' then HO
      else if s = ''SOL_HANDLEDUP'' then SOL_HANDLEDUP
      else if s = ''SOL_INIT_SCHED'' then SOL_INIT_SCHED
      else if s = ''SOL_HO'' then SOL_HO
      else UNKNOWN)"

text \<open>An \<open>int\<close> time becomes the \<open>uint64_t\<close> argument of the scheduler.\<close>

abbreviation at_ms :: "int \<Rightarrow> 64 word" where
  "at_ms \<equiv> word_of_int"

definition parse_cmd :: "scheduler_ctx \<Rightarrow> int \<Rightarrow> string list \<Rightarrow> scheduler_ctx option" where
  "parse_cmd s t toks =
     (case toks of
        [] \<Rightarrow> None
      | tok # _ \<Rightarrow> Some (snd (scheduler_add_event s (at_ms t) (Action_command tok))))"

definition parse_ho :: "scheduler_ctx \<Rightarrow> int \<Rightarrow> string list \<Rightarrow> scheduler_ctx option" where
  "parse_ho s t toks = do {
     (queue_num, toks) \<leftarrow> next_int toks;
     (mark, toks) \<leftarrow> next_int toks;
     (gap_time, toks) \<leftarrow> next_int toks;
     (reord_cnt, toks) \<leftarrow> next_int toks;
     (reord_offset, toks) \<leftarrow> next_int toks;
     (drop_cnt, toks) \<leftarrow> next_int toks;
     let q = word_of_int queue_num;
     let s = snd (scheduler_add_event s (at_ms t) (Action_stop_nfqueue q));
     resume \<leftarrow> c_int (t + gap_time);
     let s = snd (scheduler_add_event s (at_ms resume) (Action_start_nfqueue q));
     let s = snd (scheduler_add_event s (at_ms t) (Action_set_mark q (word_of_int mark)));
     drop_cnt \<leftarrow> (if reord_cnt > 0 then c_int (reord_cnt + 10) else Some drop_cnt);
     let s = (if drop_cnt > 0
              then snd (scheduler_add_event s (at_ms t) (Action_set_drop q 1 drop_cnt)) else s);
     let s = (if reord_cnt > 0
              then snd (scheduler_add_event s (at_ms t)
                (Action_set_reorder q 1 (word_of_int reord_cnt) (word_of_int reord_offset)))
              else s);
     Some s
   }"

definition parse_init :: "scheduler_ctx \<Rightarrow> int \<Rightarrow> string list \<Rightarrow> scheduler_ctx option" where
  "parse_init s t toks = do {
     (queue_num, toks) \<leftarrow> next_int toks;
     (mark, toks) \<leftarrow> next_int toks;
     (end_ms, toks) \<leftarrow> next_int toks;
     let q = word_of_int queue_num;
     let s = snd (scheduler_add_event s (at_ms t) (Action_init_nfqueue q));
     let s = snd (scheduler_add_event s (at_ms end_ms) (Action_teardown_nfqueue q));
     let s = snd (scheduler_add_event s (at_ms t) (Action_start_nfqueue q));
     Some (if mark > 0
           then snd (scheduler_add_event s (at_ms t) (Action_set_mark q (word_of_int mark))) else s)
   }"

definition parse_handle_dup :: "scheduler_ctx \<Rightarrow> int \<Rightarrow> string list \<Rightarrow> scheduler_ctx option" where
  "parse_handle_dup s t toks = do {
     (queue_num, toks) \<leftarrow> next_int toks;
     (enable, toks) \<leftarrow> next_int toks;
     Some (snd (scheduler_add_event s (at_ms t) (Action_set_dedup (word_of_int queue_num) enable)))
   }"

text \<open>A percentage field: a \<open>long\<close> divided in \<open>double\<close>, stored as \<open>float\<close>.\<close>

definition percent :: "int \<Rightarrow> rat" where
  "percent n = fl32 (fl (fl (of_int n) / 100))"

definition next_link :: "string list \<Rightarrow> (link_parameter \<times> string list) option" where
  "next_link toks = do {
     (m, toks) \<leftarrow> next_int toks;
     (rw, toks) \<leftarrow> next_int toks;
     (rt, toks) \<leftarrow> next_int toks;
     Some (\<lparr>link_mark = m, hist_rw = rw, rtt = rt\<rparr>, toks)
   }"

text \<open>Entry 0 of \<open>init_param\<close> is never written or read; it is 0 here.\<close>

definition parse_init_sched :: "scheduler_ctx \<Rightarrow> int \<Rightarrow> string list \<Rightarrow> scheduler_ctx option" where
  "parse_init_sched s t toks = do {
     (queue_num, toks) \<leftarrow> next_int toks;
     (enable_rw, toks) \<leftarrow> next_int toks;
     (interval, toks) \<leftarrow> next_int toks;
     (thr, toks) \<leftarrow> next_long toks;
     (pc, toks) \<leftarrow> next_long toks;
     (start_time, toks) \<leftarrow> next_int toks;
     (link1, toks) \<leftarrow> next_link toks;
     (link2, toks) \<leftarrow> next_link toks;
     Some (snd (scheduler_add_event s (at_ms t) (Action_init_tcp_sched (word_of_int queue_num)
       \<lparr>arg_enable = enable_rw, arg_sample_interval = interval, arg_threshold = percent thr,
        arg_pace = percent pc, arg_fire = start_time, arg_mark = 1,
        init_param = [\<lparr>link_mark = 0, hist_rw = 0, rtt = 0\<rparr>, link1, link2]\<rparr>)))
   }"

text \<open>The two switches of a phase: on at its start, off at its end.\<close>

definition parse_handle_solution :: "scheduler_ctx \<Rightarrow> int \<Rightarrow> string list \<Rightarrow> scheduler_ctx option" where
  "parse_handle_solution s t toks = do {
     (queue_num, toks) \<leftarrow> next_int toks;
     (mark, toks) \<leftarrow> next_int toks;
     (enable_freeze, toks) \<leftarrow> next_int toks;
     (freeze_ms, toks) \<leftarrow> next_int toks;
     (enable_dedup, toks) \<leftarrow> next_int toks;
     (smooth_ms, toks) \<leftarrow> next_int toks;
     (burst_duration, toks) \<leftarrow> next_int toks;
     (enable_adapt, toks) \<leftarrow> next_int toks;
     let q = word_of_int queue_num;
     let s = snd (scheduler_add_event s (at_ms t) (Action_sol_update q (word_of_int mark)));
     let s = (if enable_freeze > 0
              then snd (scheduler_add_event s (at_ms t) (Action_set_rwnd q (word_of_int mark))) else s);
     t \<leftarrow> c_int (t + freeze_ms);
     s \<leftarrow> (if enable_dedup > 0
            then do {
              let s = snd (scheduler_add_event s (at_ms t) (Action_set_dedup q 1));
              t' \<leftarrow> c_int (t + smooth_ms);
              Some (snd (scheduler_add_event s (at_ms t') (Action_set_dedup q 0)))
            }
            else Some s);
     s \<leftarrow> (if burst_duration > 0
            then do {
              let s = snd (scheduler_add_event s (at_ms t) (Action_set_burst q 1));
              t' \<leftarrow> c_int (t + burst_duration);
              Some (snd (scheduler_add_event s (at_ms t') (Action_set_burst q 0)))
            }
            else Some s);
     t \<leftarrow> c_int (t + burst_duration);
     Some (if enable_adapt > 0
           then snd (scheduler_add_event s (at_ms t) (Action_set_adapt q enable_adapt)) else s)
   }"

definition parse_event :: "scheduler_ctx \<Rightarrow> string \<Rightarrow> (int \<times> scheduler_ctx) option" where
  "parse_event s line = do {
     (t, toks) \<leftarrow> next_int (strtok_all line);
     (case toks of
        [] \<Rightarrow> None
      | tok # toks \<Rightarrow>
          (case get_event_type tok of
             INIT \<Rightarrow> map_option (Pair 0) (parse_init s t toks)
           | CMD \<Rightarrow> map_option (Pair 0) (parse_cmd s t toks)
           | HO \<Rightarrow> map_option (Pair 0) (parse_ho s t toks)
           | SOL_HANDLEDUP \<Rightarrow> map_option (Pair 0) (parse_handle_dup s t toks)
           | SOL_INIT_SCHED \<Rightarrow> map_option (Pair 0) (parse_init_sched s t toks)
           | SOL_HO \<Rightarrow> map_option (Pair 0) (parse_handle_solution s t toks)
           | _ \<Rightarrow> Some (- 1, s)))
   }"

section \<open>The file\<close>

definition CSV_MAX_LINESZ :: nat where "CSV_MAX_LINESZ = 512"

text \<open>One line: up to a newline, included, but at most 511 characters.\<close>

fun fgets_line :: "nat \<Rightarrow> string \<Rightarrow> string \<times> string" where
  "fgets_line 0 s = ([], s)"
| "fgets_line (Suc n) [] = ([], [])"
| "fgets_line (Suc n) (c # s) =
     (if c = newline then ([c], s) else let (l, r) = fgets_line n s in (c # l, r))"

lemma fgets_line_rest: "s \<noteq> [] \<Longrightarrow> 0 < n \<Longrightarrow> length (snd (fgets_line n s)) < length s"
proof (induction n s rule: fgets_line.induct)
  case (3 n c s)
  then show ?case by (cases "s = []"; cases n) (auto split: prod.splits)
qed auto

function fgets_lines :: "string \<Rightarrow> string list" where
  "fgets_lines s =
     (if s = [] then []
      else let (l, r) = fgets_line (CSV_MAX_LINESZ - 1) s in l # fgets_lines r)"
  by auto
termination
proof (relation "measure length")
  fix s :: string and x l r
  assume "s \<noteq> []" and "x = fgets_line (CSV_MAX_LINESZ - 1) s" and "(l, r) = x"
  moreover have "CSV_MAX_LINESZ - 1 = 511" by (simp add: CSV_MAX_LINESZ_def)
  ultimately have "r = snd (fgets_line 511 s)" by (metis snd_conv)
  with \<open>s \<noteq> []\<close> show "(r, s) \<in> measure length"
    using fgets_line_rest [of s 511] by simp
qed simp

declare fgets_lines.simps [simp del]

fun read_trace :: "scheduler_ctx \<Rightarrow> string list \<Rightarrow> scheduler_ctx option" where
  "read_trace s [] = Some s"
| "read_trace s (l # ls) = do { (ret, s) \<leftarrow> parse_event s l; read_trace s ls }"

text \<open>The program from the contents of its trace to the end of the run; the outer
  \<open>None\<close> is a crash while reading, the inner one a run that does not end.\<close>

definition emulator_main :: "environment \<Rightarrow> tcp_ctx \<Rightarrow> string \<Rightarrow> run option option" where
  "emulator_main env raw trace =
     map_option (\<lambda>s. scheduler_run env s (action_init_ctx (init_tcp_scheduler raw)))
       (read_trace scheduler_init_ctx (fgets_lines trace))"

text \<open>The checks of \<open>main\<close> before that: the arguments (the name of the program, the run
  and the trace), the packet log and the trace must be there, else it returns -1.\<close>

datatype program = Returns_error | Ran "run option option"

definition emulator_program ::
  "environment \<Rightarrow> tcp_ctx \<Rightarrow> bool \<Rightarrow> (string \<rightharpoonup> string) \<Rightarrow> string list \<Rightarrow> program" where
  "emulator_program env raw log_opens files argv =
     (if length argv < 3 then Returns_error
      else if \<not> log_opens then Returns_error
      else case files (argv ! 2) of
        None \<Rightarrow> Returns_error
      | Some trace \<Rightarrow> Ran (emulator_main env raw trace))"

section \<open>Numbers as the parser reads them\<close>

lemma dec_c_digit: "is_dec c \<Longrightarrow> c_digit c < 10 \<and> c_digit c = digit_val c"
  by (auto simp: c_digit_def digit_val_def is_dec_def)

lemma dec_not_c_space: "is_dec c \<Longrightarrow> \<not> is_c_space c"
  by (auto simp: is_dec_def is_c_space_def code_pt_def)

text \<open>What may follow a number: nothing, or a character that is no digit of any base.\<close>

definition ends_number :: "string \<Rightarrow> bool" where
  "ends_number s \<longleftrightarrow> (case s of [] \<Rightarrow> True | c # _ \<Rightarrow> \<not> c_digit c < 16 \<and> c \<noteq> CHR ''x'' \<and> c \<noteq> CHR ''X'')"

lemma number_decimal:
  assumes "list_all is_dec ds" and "ends_number rest"
  shows "number_in_base 10 (ds @ rest) = int (digits_val ds)"
proof -
  have d: "c_digit c < 10" if "c \<in> set ds" for c
    using assms(1) that dec_c_digit [of c] by (auto simp: list_all_iff)
  have "takeWhile (\<lambda>c. c_digit c < 10) rest = []"
    using assms(2) by (auto simp: ends_number_def split: list.splits)
  with d have "takeWhile (\<lambda>c. c_digit c < 10) (ds @ rest) = ds"
    by (simp add: takeWhile_append2)
  moreover have "foldl (\<lambda>n c. n * int 10 + int (c_digit c)) (int k) ds =
      int (foldl (\<lambda>n c. 10 * n + digit_val c) k ds)" for k
    using assms(1)
  proof (induction ds arbitrary: k)
    case (Cons d ds)
    have eq: "int k * int 10 + int (c_digit d) = int (10 * k + digit_val d)"
      using Cons.prems dec_c_digit [of d] by simp
    have "list_all is_dec ds" using Cons.prems by simp
    from Cons.IH [OF this, of "10 * k + digit_val d"] show ?case by (simp only: foldl_Cons eq)
  qed simp
  from this [of 0] calculation show ?thesis
    by (simp add: number_in_base_def digits_val_def)
qed

lemma string_of_nat_head: "0 < n \<Longrightarrow> hd (string_of_nat n) \<noteq> CHR ''0''"
proof (induction n rule: string_of_nat.induct)
  case (1 n)
  show ?case
  proof (cases "n < 10")
    case True
    have "code_pt (char_of (48 + n)) \<noteq> code_pt CHR ''0''"
      using True 1 by (simp add: code_pt_def)
    then have "char_of (48 + n) \<noteq> CHR ''0''" by metis
    with True show ?thesis by (simp add: string_of_nat.simps [of n])
  next
    case False
    with 1 show ?thesis by (simp add: string_of_nat.simps [of n] hd_append)
  qed
qed

lemma strtol_base_decimal:
  assumes "0 < n"
  shows "strtol_base (string_of_nat n @ rest) = (10, string_of_nat n @ rest)"
  using string_of_nat_head [OF assms]
  by (cases "string_of_nat n") (auto simp: strtol_base_def split: list.splits)

lemma number_after_sign:
  assumes "ends_number rest"
  shows "(case strtol_base (string_of_nat n @ rest) of (b, ds) \<Rightarrow> number_in_base b ds) = int n"
proof (cases "n = 0")
  case False
  then show ?thesis
    using strtol_base_decimal [of n rest] number_decimal [OF string_of_nat_dec assms, of n]
    by (simp add: digits_val_string_of_nat)
next
  case True
  then have z: "string_of_nat n = ''0''" by (simp add: string_of_nat.simps [of 0] char_of_eq_iff)
  have "takeWhile (\<lambda>c. c_digit c < 8) rest = []"
    using assms by (auto simp: ends_number_def split: list.splits)
  then have "number_in_base 8 (CHR ''0'' # rest) = 0"
    by (simp add: number_in_base_def c_digit_def is_dec_def code_pt_def)
  moreover have "strtol_base (CHR ''0'' # rest) = (8, CHR ''0'' # rest)"
    using assms by (auto simp: strtol_base_def ends_number_def split: list.splits)
  ultimately show ?thesis using True z by simp
qed

lemma strtol0_string_of_int:
  assumes "LONG_MIN \<le> i" and "i \<le> LONG_MAX" and "ends_number rest"
  shows "strtol0 (string_of_int i @ rest) = i"
proof (cases "i < 0")
  case True
  have "dropWhile is_c_space (string_of_int i @ rest) = string_of_int i @ rest"
    using True by (simp add: string_of_int_def is_c_space_def code_pt_def)
  then show ?thesis
    using True assms number_after_sign [OF assms(3), of "nat (- i)"]
    by (simp add: strtol0_def string_of_int_def split_sign_def split: prod.splits)
next
  case False
  obtain c cs where c: "string_of_nat (nat i) = c # cs" by (cases "string_of_nat (nat i)") auto
  then have dec: "is_dec c" using string_of_nat_dec [of "nat i"] by simp
  have "dropWhile is_c_space (string_of_int i @ rest) = string_of_int i @ rest"
    "split_sign (string_of_int i @ rest) = (False, string_of_int i @ rest)"
    using False c dec dec_not_c_space [OF dec] dec_not_special [OF dec]
    by (simp_all add: string_of_int_def split_sign_def)
  then show ?thesis
    using False assms number_after_sign [OF assms(3), of "nat i"]
    by (simp add: strtol0_def string_of_int_def split: prod.splits)
qed

section \<open>Lines\<close>

definition int_ok :: "int \<Rightarrow> bool" where
  "int_ok i \<longleftrightarrow> INT_MIN \<le> i \<and> i \<le> INT_MAX"

lemma ends_number_simps [simp]: "ends_number []" "ends_number [newline]"
  by (simp_all add: ends_number_def c_digit_def is_dec_def code_pt_def newline_def)

lemma next_int_field [simp]:
  "int_ok i \<Longrightarrow> next_int (string_of_int i # toks) = Some (i, toks)"
  "int_ok i \<Longrightarrow> next_int ((string_of_int i @ [newline]) # toks) = Some (i, toks)"
  using strtol0_string_of_int [of i "[]"] strtol0_string_of_int [of i "[newline]"]
  by (simp_all add: next_int_def int_ok_def INT_MIN_def INT_MAX_def LONG_MIN_def LONG_MAX_def
      to_int32_id)

lemma field_no_comma:
  "comma \<notin> set (string_of_int i)" "string_of_int i \<noteq> []" "comma \<noteq> newline"
  using string_of_int_chars [of comma i] string_of_nat_nonempty
  by (auto simp: comma_def is_dec_def code_pt_def string_of_int_def newline_def)

lemma strtok_join:
  assumes "ts \<noteq> []" and "list_all (\<lambda>t. t \<noteq> [] \<and> comma \<notin> set t) ts"
  shows "strtok_all (join_with comma ts) = ts"
  using assms split_join [of ts comma]
  by (simp add: strtok_all_def list_all_iff filter_id_conv)

definition ho_line :: "int \<Rightarrow> int \<Rightarrow> int \<Rightarrow> int \<Rightarrow> int \<Rightarrow> int \<Rightarrow> int \<Rightarrow> string" where
  "ho_line t q m gap reord ofs loss = join_with comma
     ([string_of_int t, ''HO''] @ map string_of_int [q, m, gap, reord, ofs] @
      [string_of_int loss @ [newline]])"

definition init_line :: "int \<Rightarrow> int \<Rightarrow> int \<Rightarrow> int \<Rightarrow> string" where
  "init_line t q m e = join_with comma
     ([string_of_int t, ''INIT''] @ map string_of_int [q, m] @ [string_of_int e @ [newline]])"

lemma ho_line_tokens:
  "strtok_all (ho_line t q m gap reord ofs loss) =
     [string_of_int t, ''HO''] @ map string_of_int [q, m, gap, reord, ofs] @
      [string_of_int loss @ [newline]]"
  unfolding ho_line_def by (rule strtok_join) (simp_all add: field_no_comma, simp_all add: comma_def)

lemma init_line_tokens:
  "strtok_all (init_line t q m e) =
     [string_of_int t, ''INIT''] @ map string_of_int [q, m] @ [string_of_int e @ [newline]]"
  unfolding init_line_def by (rule strtok_join) (simp_all add: field_no_comma, simp_all add: comma_def)

text \<open>What a handover asks of the scheduler.\<close>

definition ho_requests ::
  "int \<Rightarrow> int \<Rightarrow> int \<Rightarrow> int \<Rightarrow> int \<Rightarrow> int \<Rightarrow> int \<Rightarrow> (64 word \<times> action) list" where
  "ho_requests t q m gap reord ofs loss =
     (let q = word_of_int q
      in [(at_ms t, Action_stop_nfqueue q), (at_ms (t + gap), Action_start_nfqueue q),
          (at_ms t, Action_set_mark q (word_of_int m))] @
         (if reord > 0
          then [(at_ms t, Action_set_drop q 1 (reord + 10)),
                (at_ms t, Action_set_reorder q 1 (word_of_int reord) (word_of_int ofs))]
          else if loss > 0 then [(at_ms t, Action_set_drop q 1 loss)] else []))"

lemma parse_event_ho:
  assumes "list_all int_ok [t, q, m, gap, reord, ofs, loss, t + gap, reord + 10]"
  shows "parse_event s (ho_line t q m gap reord ofs loss) =
    Some (0, scheduler_add_all s (ho_requests t q m gap reord ofs loss))"
proof -
  have "c_int (t + gap) = Some (t + gap)" "c_int (reord + 10) = Some (reord + 10)"
    using assms by (simp_all add: int_ok_def c_int_def)
  with assms show ?thesis
    by (simp add: parse_event_def ho_line_tokens get_event_type_def parse_ho_def ho_requests_def
        Let_def)
qed

text \<open>(C11) A handover line, printed from its fields, is read back as the documented
  events: the queue stops and the mark changes at the time of the handover, the queue
  resumes after the gap, and the loss and the reordering are set at the handover. With a
  reordering the loss field is ignored: ten packets more than are reordered are dropped.\<close>

theorem parse_event_handover:
  assumes "list_all int_ok [t, q, m, gap, reord, ofs, loss, t + gap, reord + 10]"
  shows "parse_event s (ho_line t q m gap reord ofs loss) = Some (0, scheduler_add_all s
    ([(at_ms t, Action_stop_nfqueue (word_of_int q)),
      (at_ms (t + gap), Action_start_nfqueue (word_of_int q)),
      (at_ms t, Action_set_mark (word_of_int q) (word_of_int m))] @
     (if reord > 0
      then [(at_ms t, Action_set_drop (word_of_int q) 1 (reord + 10)),
            (at_ms t, Action_set_reorder (word_of_int q) 1 (word_of_int reord) (word_of_int ofs))]
      else if loss > 0 then [(at_ms t, Action_set_drop (word_of_int q) 1 loss)] else [])))"
  using parse_event_ho [OF assms] by (simp only: ho_requests_def Let_def)

theorem parse_event_handover_witness:
  "parse_event scheduler_init_ctx (ho_line 9000 0 1 30 1 10 0) =
     Some (0, scheduler_add_all scheduler_init_ctx
       [(9000, Action_stop_nfqueue 0), (9030, Action_start_nfqueue 0), (9000, Action_set_mark 0 1),
        (9000, Action_set_drop 0 1 11), (9000, Action_set_reorder 0 1 1 10)])"
  using parse_event_handover [of 9000 0 1 30 1 10 0 scheduler_init_ctx]
  by (simp add: int_ok_def INT_MIN_def INT_MAX_def)

lemma parse_event_init:
  assumes "list_all int_ok [t, q, m, e]"
  shows "parse_event s (init_line t q m e) =
    Some (0, scheduler_add_all s
      ([(at_ms t, Action_init_nfqueue (word_of_int q)),
        (at_ms e, Action_teardown_nfqueue (word_of_int q)),
        (at_ms t, Action_start_nfqueue (word_of_int q))] @
       (if m > 0 then [(at_ms t, Action_set_mark (word_of_int q) (word_of_int m))] else [])))"
  using assms
  by (simp add: parse_event_def init_line_tokens get_event_type_def parse_init_def Let_def)

text \<open>An empty line is not an event of an unknown type: its second field is missing.\<close>

lemma parse_event_blank: "parse_event s [newline] = None"
  by (simp add: parse_event_def strtok_all_def next_int_def split_on_single comma_def newline_def)

lemma parse_event_handlerw:
  "parse_event s ''5,SOL_HANDLERW,0'' = Some (- 1, s)"
  by (simp add: parse_event_def strtok_all_def comma_def next_int_def get_event_type_def)

text \<open>A handover whose loss field says 5 and that reorders 1 packet drops 11.\<close>

lemma handover_loss_ignored:
  "reord > 0 \<Longrightarrow> ho_requests t q m gap reord ofs loss = ho_requests t q m gap reord ofs loss'"
  by (simp add: ho_requests_def)

end
