(* ===== verification/Emulator.thy ===== *)
theory Emulator
  imports Event
begin

text \<open>
  The emulator from the text of a trace to the calls it makes: reading
  (\<open>Event\<close>), sorting and running (\<open>Scheduler\<close>) and the actions
  (\<open>Action\<close>) composed as \<open>main\<close> of \<open>src/src/emulator.c\<close>
  composes them, for traces of \<open>INIT\<close>, \<open>HO\<close> and \<open>CMD\<close> lines, the
  ones the server side replays.
\<close>

section \<open>Traces\<close>

datatype trace_event =
    Init int int int int
  | Handover int int int int int int int
  | Command int string

fun line_of :: "trace_event \<Rightarrow> string" where
  "line_of (Init t q m e) = init_line t q m e"
| "line_of (Handover t q m gap reord ofs loss) = ho_line t q m gap reord ofs loss"
| "line_of (Command t c) = join_with comma [string_of_int t, ''CMD'', c @ [newline]]"

fun requests_of :: "trace_event \<Rightarrow> (64 word \<times> action) list" where
  "requests_of (Init t q m e) =
     [(at_ms t, Action_init_nfqueue (word_of_int q)),
      (at_ms e, Action_teardown_nfqueue (word_of_int q)),
      (at_ms t, Action_start_nfqueue (word_of_int q))] @
     (if m > 0 then [(at_ms t, Action_set_mark (word_of_int q) (word_of_int m))] else [])"
| "requests_of (Handover t q m gap reord ofs loss) = ho_requests t q m gap reord ofs loss"
| "requests_of (Command t c) = [(at_ms t, Action_command (c @ [newline]))]"

text \<open>Fields in the range of an \<open>int\<close>, times that are not negative, a command
  without comma or line break that fits in the buffer.\<close>

fun event_ok :: "trace_event \<Rightarrow> bool" where
  "event_ok (Init t q m e) \<longleftrightarrow> list_all int_ok [t, q, m, e] \<and> 0 \<le> t \<and> 0 \<le> e"
| "event_ok (Handover t q m gap reord ofs loss) \<longleftrightarrow>
     list_all int_ok [t, q, m, gap, reord, ofs, loss, t + gap, reord + 10] \<and> 0 \<le> t \<and> 0 \<le> t + gap"
| "event_ok (Command t c) \<longleftrightarrow>
     int_ok t \<and> 0 \<le> t \<and> comma \<notin> set c \<and> newline \<notin> set c \<and> length c \<le> 480"

section \<open>Lines and the buffer\<close>

lemma length_string_of_int: "int_ok i \<Longrightarrow> length (string_of_int i) \<le> 11"
  using length_string_of_nat [of "nat i" 9] length_string_of_nat [of "nat (- i)" 9]
  by (auto simp: string_of_int_def int_ok_def INT_MIN_def INT_MAX_def nat_less_iff)

lemma newline_not_in_int: "newline \<notin> set (string_of_int i)"
  using string_of_int_chars [of newline i] by (auto simp: newline_def is_dec_def code_pt_def)

definition buffer_line :: "string \<Rightarrow> bool" where
  "buffer_line l \<longleftrightarrow> (\<exists>body. l = body @ [newline] \<and> newline \<notin> set body) \<and> length l < CSV_MAX_LINESZ"

lemma fgets_line_full:
  "newline \<notin> set body \<Longrightarrow> length body < n \<Longrightarrow>
     fgets_line n (body @ newline # rest) = (body @ [newline], rest)"
proof (induction body arbitrary: n)
  case Nil
  then show ?case by (cases n) auto
next
  case (Cons c body)
  then show ?case by (cases n) auto
qed

lemma fgets_lines_concat: "list_all buffer_line ls \<Longrightarrow> fgets_lines (concat ls) = ls"
proof (induction ls)
  case Nil
  then show ?case by (simp add: fgets_lines.simps)
next
  case (Cons l ls)
  then obtain body where "l = body @ [newline]" "newline \<notin> set body" "length body < 511"
    by (auto simp: buffer_line_def CSV_MAX_LINESZ_def)
  with Cons show ?case
    by (subst fgets_lines.simps) (simp add: fgets_line_full CSV_MAX_LINESZ_def)
qed

lemma buffer_line_join:
  assumes "newline \<notin> set (join_with comma (ts @ [t]))" "length (join_with comma (ts @ [t])) < 511"
  shows "buffer_line (join_with comma (ts @ [t @ [newline]]))"
  using assms by (auto simp: join_snoc buffer_line_def CSV_MAX_LINESZ_def)

lemma line_of_buffer: "event_ok ev \<Longrightarrow> buffer_line (line_of ev)"
proof (cases ev)
  case (Init t q m e)
  assume "event_ok ev"
  with Init show ?thesis
    using length_string_of_int [of t] length_string_of_int [of q] length_string_of_int [of m]
      length_string_of_int [of e] buffer_line_join [of "[string_of_int t, ''INIT'', string_of_int q, string_of_int m]" "string_of_int e"]
    by (simp add: init_line_def newline_not_in_int) (simp add: newline_def comma_def)
next
  case (Handover t q m gap reord ofs loss)
  assume "event_ok ev"
  with Handover show ?thesis
    using length_string_of_int [of t] length_string_of_int [of q] length_string_of_int [of m]
      length_string_of_int [of gap] length_string_of_int [of reord] length_string_of_int [of ofs]
      length_string_of_int [of loss]
      buffer_line_join [of "[string_of_int t, ''HO'', string_of_int q, string_of_int m,
        string_of_int gap, string_of_int reord, string_of_int ofs]" "string_of_int loss"]
    by (simp add: ho_line_def newline_not_in_int) (simp add: newline_def comma_def)
next
  case (Command t c)
  assume "event_ok ev"
  with Command show ?thesis
    using length_string_of_int [of t] buffer_line_join [of "[string_of_int t, ''CMD'']" c]
    by (simp add: newline_not_in_int) (simp add: newline_def comma_def)
qed

section \<open>Reading a trace\<close>

lemma scheduler_add_all_append:
  "scheduler_add_all s (rs @ rs') = scheduler_add_all (scheduler_add_all s rs) rs'"
  by (induction s rs rule: scheduler_add_all.induct) auto

lemma parse_event_command:
  assumes "event_ok (Command t c)"
  shows "parse_event s (line_of (Command t c)) =
    Some (0, scheduler_add_all s (requests_of (Command t c)))"
proof -
  have "strtok_all (line_of (Command t c)) = [string_of_int t, ''CMD'', c @ [newline]]"
    using assms unfolding line_of.simps
    by (intro strtok_join) (simp_all add: field_no_comma, simp_all add: comma_def)
  then show ?thesis
    using assms by (simp add: parse_event_def get_event_type_def parse_cmd_def)
qed

lemma parse_event_line:
  assumes "event_ok ev"
  shows "parse_event s (line_of ev) = Some (0, scheduler_add_all s (requests_of ev))"
proof (cases ev)
  case (Init t q m e)
  with assms show ?thesis using parse_event_init [of t q m e s] by simp
next
  case (Handover t q m gap reord ofs loss)
  with assms show ?thesis using parse_event_ho [of t q m gap reord ofs loss s] by simp
next
  case (Command t c)
  with assms show ?thesis using parse_event_command by simp
qed

lemma read_trace_events:
  "list_all event_ok evs \<Longrightarrow>
     read_trace s (map line_of evs) = Some (scheduler_add_all s (concat (map requests_of evs)))"
  by (induction evs arbitrary: s) (simp_all add: parse_event_line scheduler_add_all_append)

lemma uint_at_ms: "0 \<le> t \<Longrightarrow> int_ok t \<Longrightarrow> uint (at_ms t) < 2 ^ 63"
  by (simp add: uint_word_of_int int_ok_def INT_MAX_def)

lemma requests_of_ok:
  assumes "event_ok ev"
  shows "list_all (\<lambda>(t, h). uint t < 2 ^ 63 \<and> action_ok h) (requests_of ev)"
proof (cases ev)
  case (Init t q m e)
  with assms uint_at_ms [of t] uint_at_ms [of e] show ?thesis by simp
next
  case (Handover t q m gap reord ofs loss)
  with assms uint_at_ms [of t] uint_at_ms [of "t + gap"] show ?thesis
    by (simp add: ho_requests_def Let_def)
next
  case (Command t c)
  with assms uint_at_ms [of t] show ?thesis by simp
qed

lemma emulator_reads:
  assumes "list_all event_ok evs"
  shows "emulator_main env raw (concat (map line_of evs)) =
    Some (scheduler_run env (scheduler_add_all scheduler_init_ctx (concat (map requests_of evs)))
      (action_init_ctx (init_tcp_scheduler raw)))"
proof -
  have "list_all buffer_line (map line_of evs)"
    using assms by (simp add: list_all_iff line_of_buffer)
  then show ?thesis
    using read_trace_events [OF assms] by (simp add: emulator_main_def fgets_lines_concat)
qed

section \<open>The commands the trace generator adds\<close>

definition iperf_command :: "int \<Rightarrow> string \<Rightarrow> trace_event" where
  "iperf_command t logname = Command 2000
     (''iperf3 -c 10.0.0.2 -p 5257 -t '' @ string_of_int t @ '' -i 0.1 -J --logfile '' @ logname
       @ '' &'')"

definition monitor_command :: "int \<Rightarrow> string \<Rightarrow> trace_event" where
  "monitor_command t logname = Command 1000
     (''/data/ztliu/emulator-test/scripts/run/monitor.sh '' @ logname @ '' '' @ string_of_int t
       @ '' &'')"

lemma string_of_int_numerals: "string_of_int 2000 = ''2000''" "string_of_int 1000 = ''1000''"
  by (simp_all add: string_of_int_def string_of_nat.simps char_of_eq_iff)

lemma generated_lines:
  "line_of (iperf_command t a) = iperf_cmd t a" "line_of (monitor_command t a) = monitor_cmd t a"
  by (simp_all add: iperf_command_def monitor_command_def iperf_cmd_join monitor_cmd_join
      string_of_int_numerals)

lemma generated_ok:
  assumes "clean a" and "length a \<le> 300" and "int_ok t"
  shows "event_ok (iperf_command t a)" "event_ok (monitor_command t a)"
  using assms clean_string_of_int [of t] length_string_of_int [of t]
  by (simp_all add: iperf_command_def monitor_command_def clean_def int_ok_def INT_MIN_def
      INT_MAX_def) (simp_all add: comma_def newline_def)

lemma line_of_full: "event_ok ev \<Longrightarrow> full_line (line_of ev)"
  using line_of_buffer by (auto simp: buffer_line_def full_line_def)

lemma find_init_line:
  assumes "event_ok (Init t q m e)"
  shows "find_init (line_of (Init t q m e) # lines) = Inr (Some e)"
proof -
  have "list_all (\<lambda>t. t \<noteq> [] \<and> comma \<notin> set t)
      ([string_of_int t, ''INIT''] @ map string_of_int [q, m] @ [string_of_int e @ [newline]])"
    by (simp add: field_no_comma) (simp add: comma_def)
  then have split: "split_on comma (line_of (Init t q m e)) =
      [string_of_int t, ''INIT''] @ map string_of_int [q, m] @ [string_of_int e @ [newline]]"
    unfolding line_of.simps init_line_def by (intro split_join) (simp_all add: list_all_iff)
  have "is_space_char newline" by (simp add: is_space_char_def newline_def code_pt_def)
  then have "py_int (string_of_int e @ [newline]) = Inr e"
    using py_int_digits [OF string_of_nat_dec, of "nat e" "[newline]"] assms
    by (simp add: string_of_int_def digits_val_string_of_nat)
  with split show ?thesis by (simp add: py_index_def)
qed

section \<open>The whole program\<close>

lemma replay:
  assumes "list_all event_ok evs" and "length (hist_param raw) = 3"
    and "length (concat (map requests_of evs)) \<le> SCHEDULER_MAX_EVENT"
  shows "\<exists>l r. emulator_main env raw (concat (map line_of evs)) = Some (Some (l, r)) \<and>
    prefix (map request (executed l)) (sort_key fst (concat (map requests_of evs))) \<and>
    ((\<exists>b. r = Next b) \<longrightarrow>
       map request (executed l) = sort_key fst (concat (map requests_of evs)))"
proof -
  let ?rs = "concat (map requests_of evs)"
  have "list_all (\<lambda>(t, h). uint t < 2 ^ 63 \<and> action_ok h) ?rs"
    using assms(1) requests_of_ok by (fastforce simp: list_all_iff)
  then obtain l r where run: "scheduler_run env (scheduler_add_all scheduler_init_ctx ?rs)
      (action_init_ctx (init_tcp_scheduler raw)) = Some (l, r)"
    using run_returns [OF _ assms(2)] by blast
  have "take SCHEDULER_MAX_EVENT ?rs = ?rs" using assms(3) by simp
  with run_order [OF run] emulator_reads [OF assms(1)] run show ?thesis by auto
qed

text \<open>(C1) The emulator on a trace file, from its text to the handlers it calls: a file of
  well-formed \<open>INIT\<close>, \<open>HO\<close> and \<open>CMD\<close> lines is read without a crash and
  the run returns; the handlers it calls are those the lines stand for, in the order of
  their times, ties as in the file, and all of them if no handler ends the program.\<close>

theorem emulator_replays_trace:
  assumes "list_all event_ok evs" and "length (hist_param raw) = 3"
    and "length (concat (map requests_of evs)) \<le> SCHEDULER_MAX_EVENT"
  shows "\<exists>l r. emulator_main env raw (concat (map line_of evs)) = Some (Some (l, r)) \<and>
    prefix (map request (executed l)) (sort_key fst (concat (map requests_of evs))) \<and>
    ((\<exists>b. r = Next b) \<longrightarrow>
       map request (executed l) = sort_key fst (concat (map requests_of evs)))"
  using assms by (rule replay)

theorem emulator_replays_trace_witness:
  "\<exists>l r. emulator_main open_env idle_tcp
      (concat (map line_of [Init 0 0 1 50000, Handover 9000 0 2 30 0 0 5, Command 1000 ''ls''])) =
      Some (Some (l, r)) \<and>
    prefix (map snd (map request (executed l)))
      [Action_init_nfqueue 0, Action_start_nfqueue 0, Action_set_mark 0 1,
       Action_command (''ls'' @ [newline]), Action_stop_nfqueue 0, Action_set_mark 0 2,
       Action_set_drop 0 1 5, Action_start_nfqueue 0, Action_teardown_nfqueue 0]"
proof -
  let ?evs = "[Init 0 0 1 50000, Handover 9000 0 2 30 0 0 5, Command 1000 ''ls'']"
  have ok: "list_all event_ok ?evs"
    by (simp add: int_ok_def INT_MIN_def INT_MAX_def comma_def newline_def)
  have len: "length (hist_param idle_tcp) = 3" by (simp add: idle_tcp_def)
  have few: "length (concat (map requests_of ?evs)) \<le> SCHEDULER_MAX_EVENT"
    by (simp add: ho_requests_def SCHEDULER_MAX_EVENT_def)
  have "map snd (sort_key fst (concat (map requests_of ?evs))) =
      [Action_init_nfqueue 0, Action_start_nfqueue 0, Action_set_mark 0 1,
       Action_command (''ls'' @ [newline]), Action_stop_nfqueue 0, Action_set_mark 0 2,
       Action_set_drop 0 1 5, Action_start_nfqueue 0, Action_teardown_nfqueue 0]"
    by (simp add: ho_requests_def)
  then show ?thesis
    using emulator_replays_trace [OF ok len few, of open_env] by (metis map_mono_prefix)
qed

end
