(* ===== verification/Spec2Isabelle.thy ===== *)
theory Spec2Isabelle
  imports Report_Scripts Log_Scripts Packet_Log Queue_Thread Emulator
begin

text \<open>
  This development verifies the 5G handover emulator: the emulator itself, a C program
  that replays a trace of handovers on a netfilter queue, and the Python scripts that
  generate its traces and evaluate the logs of a run.

  \<^bold>\<open>The program and its parts.\<close> A trace is a CSV file, one event per line.
  \<open>scripts/run/generate_input.py\<close> appends the commands of a measurement to a
  trace, \<open>input/old_fix.py\<close> converts traces of an older format. The emulator
  (\<open>src/emulator.c\<close>) reads a trace (\<open>src/event.c\<close>) into a table of timed
  events (\<open>src/scheduler.c\<close>), sorts it and executes actions (\<open>src/action.c\<close>)
  that open, stop and start queues (\<open>src/nfqueue.c\<close>) and configure the worker of a
  queue (\<open>src/worker.c\<close>). In the thread of each queue the worker gives every packet
  a verdict: it drops, reorders, suppresses duplicate acknowledgements and rewrites the
  receive window. The scheduler also drives a sampler that adapts this window. After a
  run, the scripts under \<open>scripts/processing\<close> read the logs of iperf3, of
  \<open>ss\<close> and of the packets, relate them to the handovers of the trace, and print and
  plot the results.

  \<^bold>\<open>Theories.\<close>
  \<^item> \<open>Prelude\<close>, \<open>PyFloat\<close>, \<open>PyStr\<close>: exceptions as values, IEEE
    doubles with correct rounding (the locale \<open>rounding\<close> states the laws the
    filters use), strings, numbers as text, lines of files.
  \<^item> \<open>C_Prelude\<close>: undefined behaviour as \<open>None\<close>, the range of an
    \<open>int\<close>, network byte order.
  \<^item> \<open>Worker\<close> (\<open>worker.c\<close>): the record \<open>worker_ctx\<close>, one definition
    per function, the callback as a chain of handlers, and the two threads as the step
    relation \<open>worker_step\<close>, in which the scheduler thread may act between any two
    handlers of a packet. The locale \<open>packet_stage\<close> is the contract of a handler,
    interpreted on all four; \<open>handler_chain\<close> derives from it that no packet gets
    two verdicts, that nothing is undefined and that a callback comes to its end. Then
    the exact effect of a handover on a stream of packets, and of the window control.
  \<^item> \<open>Nfqueue\<close> (\<open>nfqueue.c\<close>): opening, starting, stopping and closing a queue, on every path
    of the results of the library calls.
  \<^item> \<open>Action\<close> (\<open>action.c\<close>): actions on an explicit
    heap of workers, the sampler in binary32 and binary64 arithmetic and the direction in
    which it moves the window.
  \<^item> \<open>Queue_Thread\<close> (\<open>nfq_run\<close> of \<open>nfqueue.c\<close> and its start): the thread of a
    queue, the worker it feeds, the kernel's queue and the controlling thread as one
    labelled step relation. Packets leave in the order they came in, a stopped queue lets
    at most one more packet through, a running one can always drain its backlog, and the
    thread of a dead one returns.
  \<^item> \<open>Scheduler\<close> (\<open>scheduler.c\<close>): the table and the loop, a partial function
    because it need not end. The locale \<open>comparison\<close> proves sorting correct,
    \<open>handlers\<close> is the contract between the loop and the actions; they give the order
    of execution (a stable sort by time) and that a run returns.
  \<^item> \<open>Event\<close> (\<open>event.c\<close>): \<open>strtok\<close>, \<open>strtol\<close>, \<open>fgets\<close> and the
    parse functions. \<open>emulator_main\<close> is \<open>main\<close> of \<open>emulator.c\<close> from the text of
    the trace on, \<open>emulator_program\<close> the checks before it. \<open>Emulator\<close>: the composition from the text of a trace to the
    handlers called.
  \<^item> \<open>Trace_Tools\<close> (\<open>generate_input.py\<close>, \<open>old_fix.py\<close>, \<open>parse_trace\<close> of
    \<open>metrics.py\<close>): generated traces, conversion, and reading a trace back.
  \<^item> \<open>Handover_Metrics\<close> and \<open>Handover_Report\<close> (\<open>metrics.py\<close>): the functions
    (intervals per link, handover types, closest samples, ramp-up times, empirical
    distributions) and the report printed from them, with the termination of its loops.
  \<^item> \<open>Packet_Timing\<close> (\<open>rfc-jitter.py\<close>, \<open>compute-iat.py\<close>, jitter of
    \<open>parse-logs.py\<close>), \<open>Packet_Frames\<close> and \<open>Log_Pipeline\<close>
    (\<open>parse-logs.py\<close>): packet logs, jitter filters and their bounds, transit times,
    video frames, and the packet branch of the main part.
  \<^item> \<open>SS_Log\<close> (\<open>parse_ss.py\<close> and its copy in \<open>parse-logs.py\<close>),
    \<open>Iperf\<close> (\<open>parse_iperf3_log\<close>, \<open>util.py\<close>): reading socket statistics and
    throughput logs.
  \<^item> \<open>Plot_Tools\<close> (\<open>plotting.py\<close>, \<open>plot.py\<close>, \<open>plot-logs.py\<close>,
    \<open>plot_loss.py\<close>): what is drawn, not how.
  \<^item> \<open>Logging\<close> (\<open>log.c\<close>, the settings in \<open>emulator.c\<close>): the logger, its callbacks and
    the streams a message reaches. \<open>Packet_Log\<close>: the messages \<open>packet_logging\<close> of the worker
    passes to it among all others, read back by \<open>parse_serverts\<close>; the locale \<open>fatal_log\<close> is
    what the emulator needs of the log.
  \<^item> \<open>Arg_Parse\<close>: \<open>argparse\<close> as far as the scripts use it. The locale \<open>cli\<close>
    states what a well-formed parser promises, and every parser of a script is an
    interpretation of it.
  \<^item> \<open>Scripts\<close>, \<open>Log_Scripts\<close>, \<open>Report_Scripts\<close>: the scripts as functions of their
    command lines and files. \<open>Log_Scripts\<close> has the whole run of \<open>parse-logs.py\<close> as a
    sequence of stages (locale \<open>log_stage\<close>), and \<open>plot-logs.py\<close> that draws its
    output; \<open>Report_Scripts\<close> has the lines and figures of the evaluations of
    \<open>metrics.py\<close>.
  \<^item> This theory: the trace generator and the emulator together, and the typing of every
    command line.

  \<^bold>\<open>Parameters and idealisations.\<close> Parameters stand for what is not in the
  repository: the checksum routine of libnetfilter\_queue, what its calls
  return, the bytes of fresh memory, the calendar time of a message, \<open>random\<close>, \<open>os.path\<close> predicates, decoded JSON,
  packets decoded by pyshark, data frames read by pandas, the output of \<open>tshark\<close>, the
  order in which the kernel delivers packets to a queue. Characters are those of
  Latin-1. Python integers are unbounded and \<open>int()\<close> of a text has no limit of digits.
  Doubles are rationals with infinities and NaN, without the sign of zero. The emulator's
  signed integers are checked against their range, its unsigned ones are words. No fuel
  is used: the loop of the scheduler is a partial function whose \<open>None\<close> is not
  returning, every other loop is a total function.

  \<^bold>\<open>Not modelled.\<close> Waiting for the wall clock and the real times of calls; the
  socket buffers below a queue; the texts of the messages other than the packet lines and the
  return values of verdict calls; freeing of memory; the messages of argparse and of
  progress; how matplotlib draws what it is given and the text of CSV files; \<open>interactive.py\<close> (opens a console),
  \<open>tmc_calculate_metric.py\<close> (all comments), the shell scripts and the legacy main
  program.
\<close>

section \<open>Command lines\<close>

text \<open>The parsers of all scripts.\<close>

definition script_specs :: "parser_spec list" where
  "script_specs =
     [generate_input_spec, parse_ss_spec, plot_spec, plotting_spec, parse_logs_spec, plot_logs_spec, metrics_spec]"



section \<open>From the trace generator to the emulator\<close>

text \<open>The text \<open>generate_trace\<close> writes for a trace the emulator can replay.\<close>

lemma generate_trace_text:
  assumes "fs inp = Some (concat (map line_of evs))" and "evs = Init t q m e # rest"
    and "2 \<le> length rest" and "list_all event_ok evs"
    and "list_all (\<lambda>ev. CHR 0x0D \<notin> set (line_of ev)) evs" and "5000 \<le> e"
  shows "fst (generate_trace fs inp outp [a, b]) outp =
    Some (concat (map line_of (evs @
      [iperf_command (e div 1000 - 5) a, monitor_command (e div 1000 - 4) b])))"
proof -
  let ?lines = "map line_of evs"
  have read: "readlines (concat ?lines) = ?lines"
    using assms(4,5) by (intro readlines_concat) (auto simp: list_all_iff line_of_full)
  have init: "event_ok (Init t q m e)" using assms(2,4) by simp
  then have find: "find_init ?lines = Inr (Some e)"
    using find_init_line assms(2) by simp
  have "e \<le> 2 ^ 40" using init by (simp add: int_ok_def INT_MAX_def)
  then have gen: "generate_lines ?lines [a, b] = Inr (terminate_last ?lines @
      [iperf_cmd (e div 1000 - 5) a, monitor_cmd (e div 1000 - 4) b])"
    by (rule generate_lines_Ok [OF find assms(6)])
  have ne: "evs \<noteq> []" using assms(2) by simp
  then have "full_line (last ?lines)"
    using assms(4) by (simp add: last_map list_all_iff line_of_full)
  then have "terminate_last ?lines = ?lines"
    by (auto simp: terminate_last_def full_line_def)
  then show ?thesis
    using read gen assms(1-3)
    by (simp add: generate_trace_def open_read_def generated_lines)
qed



end
